(* ===== verification/Juice_Prelude.thy ===== *)
theory Juice_Prelude
  imports "HOL-Library.Word"
begin

text \<open>
  Shared vocabulary of the development: the machine integer types the C sources use, the
  conversions between bytes and wider integers, the scripted POSIX byte streams that the
  transfer loops run against, and generic lemmas on lists and words.

  Integers: \<open>u8\<close>, \<open>u16\<close>, \<open>u32\<close> and \<open>u64\<close> are words of that width; a C \<open>int\<close>
  is a \<open>u32\<close> read with \<^const>\<open>sint\<close>; \<open>size_t\<close> is \<open>u64\<close> (the sources are built for
  LP64 targets) where wrap-around can matter, and \<^typ>\<open>nat\<close> where the value is the
  length of a buffer that exists.  A pointer that may be NULL is an \<open>option\<close>.
\<close>

unbundle bit_operations_syntax

type_synonym u8 = "8 word"
type_synonym u16 = "16 word"
type_synonym u32 = "32 word"
type_synonym u64 = "64 word"
type_synonym bytes = "u8 list"

named_theorems wire_simps \<open>evaluation of wire and header constants\<close>
named_theorems inv_intros \<open>preservation of component invariants\<close>

section \<open>C truth values\<close>

definition has_bits :: "'a::len word \<Rightarrow> 'a word \<Rightarrow> bool" where
  "has_bits w m \<longleftrightarrow> w AND m \<noteq> 0"

section \<open>Little-endian integers in byte buffers\<close>

text \<open>
  Reading past the end of a list is unspecified in HOL, so the readers below are only
  used on buffers whose length the callers have checked; \<open>byte_at\<close> makes the value there
  definite (zero) so that the definitions stay executable on every input.
\<close>

definition byte_at :: "bytes \<Rightarrow> nat \<Rightarrow> u8" where
  "byte_at bs i = (if i < length bs then bs ! i else 0)"

definition le16 :: "bytes \<Rightarrow> nat \<Rightarrow> u16" where
  "le16 bs i = ucast (byte_at bs i) OR push_bit 8 (ucast (byte_at bs (i + 1)))"

definition le32 :: "bytes \<Rightarrow> nat \<Rightarrow> u32" where
  "le32 bs i = ucast (le16 bs i) OR push_bit 16 (ucast (le16 bs (i + 2)))"

lemma byte_at_nth [simp]: "i < length bs \<Longrightarrow> byte_at bs i = bs ! i"
  by (simp add: byte_at_def)

lemma byte_at_append:
  "byte_at (xs @ ys) i = (if i < length xs then xs ! i else byte_at ys (i - length xs))"
  by (auto simp: byte_at_def nth_append)

lemma byte_at_take [simp]: "i < n \<Longrightarrow> byte_at (take n bs) i = byte_at bs i"
  by (auto simp: byte_at_def)

lemma byte_at_drop [simp]: "byte_at (drop n bs) i = byte_at bs (n + i)"
  by (auto simp: byte_at_def add.commute)

section \<open>Slices\<close>

definition sub_list :: "nat \<Rightarrow> nat \<Rightarrow> 'a list \<Rightarrow> 'a list" where
  "sub_list off n xs = take n (drop off xs)"

lemma length_sub_list [simp]: "length (sub_list off n xs) = min n (length xs - off)"
  by (simp add: sub_list_def)

lemma sub_list_0 [simp]: "sub_list off 0 xs = []"
  by (simp add: sub_list_def)

lemma sub_list_all [simp]: "sub_list 0 (length xs) xs = xs"
  by (simp add: sub_list_def)

lemma sub_list_append_sub_list:
  "sub_list off m xs @ sub_list (off + m) n xs = sub_list off (m + n) xs"
  by (simp add: sub_list_def take_add add.commute)

lemma byte_at_sub_list [simp]: "i < n \<Longrightarrow> byte_at (sub_list off n bs) i = byte_at bs (off + i)"
  by (simp add: sub_list_def)

section \<open>Prefixes of lists\<close>

definition is_prefix :: "'a list \<Rightarrow> 'a list \<Rightarrow> bool" where
  "is_prefix xs ys \<longleftrightarrow> take (length xs) ys = xs"

lemma is_prefix_Nil [simp]: "is_prefix [] ys"
  by (simp add: is_prefix_def)

lemma is_prefix_refl [simp]: "is_prefix xs xs"
  by (simp add: is_prefix_def)

lemma is_prefix_iff: "is_prefix xs ys \<longleftrightarrow> (\<exists>zs. ys = xs @ zs)"
  by (metis append_eq_conv_conj is_prefix_def)

lemma is_prefix_Cons [simp]:
  "is_prefix (x # xs) [] = False" "is_prefix (x # xs) (y # ys) = (x = y \<and> is_prefix xs ys)"
  by (auto simp: is_prefix_def)

lemma is_prefix_append [simp]: "is_prefix (xs @ ys) (xs @ zs) = is_prefix ys zs"
  by (simp add: is_prefix_iff)

lemma is_prefix_take [simp]: "is_prefix (take n xs) xs"
  by (auto simp: is_prefix_iff) (metis append_take_drop_id)

lemma is_prefix_appendI: "is_prefix xs ys \<Longrightarrow> is_prefix xs (ys @ zs)"
  by (auto simp: is_prefix_iff)

section \<open>Words\<close>

lemma word_le_unat: "(a :: 'a::len word) \<le> b \<longleftrightarrow> unat a \<le> unat b"
  by (simp add: word_le_nat_alt)

lemma word_less_unat: "(a :: 'a::len word) < b \<longleftrightarrow> unat a < unat b"
  by (simp add: word_less_nat_alt)

lemma unat_add_noov:
  "unat a + unat b < 2 ^ LENGTH('a) \<Longrightarrow> unat (a + b :: 'a::len word) = unat a + unat b"
  by (simp add: unat_word_ariths)

lemma unat_mult_noov:
  "unat a * unat b < 2 ^ LENGTH('a) \<Longrightarrow> unat (a * b :: 'a::len word) = unat a * unat b"
  by (simp add: unat_word_ariths)

lemma unat_max_word [simp]: "unat (- 1 :: 'a::len word) = 2 ^ LENGTH('a) - 1"
  by (simp add: unsigned_minus_1_eq_mask mask_eq_exp_minus_1)

lemma nat_and_pred_pow2: "n AND (n - 1) = 0 \<Longrightarrow> 0 < n \<Longrightarrow> \<exists>k. n = 2 ^ k" for n :: nat
proof (induction n rule: less_induct)
  case (less n)
  show ?case
  proof (cases "even n")
    case True
    then obtain m where m: "n = 2 * m" by blast
    with less.prems have "0 < m" "m < n" by auto
    moreover have "(n - 1) div 2 = m - 1" "n div 2 = m" using m by auto
    then have "m AND (m - 1) = 0" using less.prems True by (subst (asm) and_rec) auto
    ultimately obtain k where "m = 2 ^ k" using less.IH by blast
    with m have "n = 2 ^ Suc k" by simp
    then show ?thesis ..
  next
    case False
    then obtain m where m: "n = 2 * m + 1" by (elim oddE)
    then have "(n - 1) div 2 = m" "n div 2 = m" by auto
    then have "m = 0" using less.prems m by (subst (asm) and_rec) auto
    with m have "n = 2 ^ 0" by simp
    then show ?thesis ..
  qed
qed

lemma word_and_pred_pow2:
  assumes "x AND (x - 1) = 0" "x \<noteq> (0 :: 'a::len word)"
  shows "\<exists>k. unat x = 2 ^ k \<and> x - 1 = mask k"
proof -
  have "unat x AND (unat x - 1) = unat (x AND (x - 1))"
    using assms(2) by (simp add: unsigned_and_eq unat_minus_one)
  with assms obtain k where k: "unat x = 2 ^ k"
    using nat_and_pred_pow2 [of "unat x"] by (auto simp: unat_gt_0)
  moreover have "x = of_nat (unat x)" by simp
  ultimately have "x = 2 ^ k" by simp
  with k show ?thesis by (auto simp: mask_eq_exp_minus_1)
qed

lemma and_not_mask_split: "(x AND NOT (mask k)) + take_bit k x = (x :: 'a::len word)"
proof -
  have "(x AND NOT (mask k)) AND take_bit k x = 0"
    by (rule bit_word_eqI) (auto simp: bit_simps)
  then have "(x AND NOT (mask k)) + take_bit k x = (x AND NOT (mask k)) OR take_bit k x"
    by (rule disjunctive_add_eq_or)
  also have "\<dots> = x"
    by (rule bit_word_eqI) (auto simp: bit_simps)
  finally show ?thesis .
qed

lemma unat_and_not_mask: "unat (x AND NOT (mask k) :: 'a::len word) = unat x - unat x mod 2 ^ k"
proof -
  have eq: "x AND NOT (mask k) = x - take_bit k x"
    using and_not_mask_split [of x k] by (simp add: algebra_simps)
  have t: "unat (take_bit k x) = unat x mod 2 ^ k"
    by (simp add: unsigned_take_bit_eq flip: take_bit_eq_mod)
  have "unat (take_bit k x) \<le> unat x"
    unfolding t by (rule mod_less_eq_dividend)
  then have "take_bit k x \<le> x"
    by (simp add: word_le_nat_alt)
  then show ?thesis by (simp add: eq unat_sub t)
qed

lemma unat_bound: "unat (w :: 'a::len word) < 2 ^ LENGTH('a)"
  by (rule unsigned_less)

lemma unat_u8_lt: "unat (b :: u8) < 256"
  using unat_bound [of b] by simp

lemma unat_u16_lt: "unat (h :: u16) < 65536"
  using unat_bound [of h] by simp

lemma unat_u32_lt: "unat (h :: u32) < 4294967296"
  using unat_bound [of h] by simp

lemma unat_ucast_up:
  "LENGTH('a) \<le> LENGTH('b) \<Longrightarrow> unat (ucast (w :: 'a::len word) :: 'b::len word) = unat w"
  using order.strict_trans2 [OF unat_bound [of w] power_increasing [of "LENGTH('a)" "LENGTH('b)" "2 :: nat"]]
  by (simp add: unsigned_ucast_eq take_bit_nat_eq_self)

lemma unat_byte_ucast [simp]:
  "unat (ucast (b :: u8) :: u16) = unat b" "unat (ucast (b :: u8) :: u32) = unat b"
  "unat (ucast (h :: u16) :: u32) = unat h" "unat (ucast (h :: u16) :: u64) = unat h"
  "unat (ucast (w :: u32) :: u64) = unat w"
  by (simp_all add: unat_ucast_up)

lemma sint_u32: "sint (w :: u32) = uint w - 4294967296 * of_bool (bit w 31)"
proof -
  have "take_bit 32 (uint w) = uint w"
    using uint_lt2p [of w] by (simp add: take_bit_int_eq_self)
  then show ?thesis
    by (simp add: sint_uint signed_take_bit_eq_take_bit_minus bit_uint_iff)
qed

lemma sint_u32_nonneg: "0 \<le> sint (w :: u32) \<Longrightarrow> sint w = int (unat w)"
  using uint_lt2p [of w] by (cases "bit w 31") (simp_all add: sint_u32)

lemma sint_u32_pos: "0 < sint (w :: u32) \<Longrightarrow> sint w = int (unat w)"
  by (simp add: sint_u32_nonneg)

lemma sint_u32_small:
  assumes "unat (w :: u32) < 2147483648"
  shows "sint w = int (unat w)"
proof -
  have "bit w 31 \<longleftrightarrow> bit (unat w) 31"
    by (simp add: bit_unsigned_iff)
  also have "\<dots> \<longleftrightarrow> odd (unat w div 2 ^ 31)"
    by (rule bit_iff_odd)
  also have "unat w div 2 ^ 31 = 0"
    using assms by simp
  finally show ?thesis by (simp add: sint_u32)
qed

lemma unat_push_bit_noov:
  assumes "unat b * 2 ^ n < 2 ^ LENGTH('a)"
  shows "unat (push_bit n b :: 'a::len word) = unat b * 2 ^ n"
  using assms by (simp add: unsigned_push_bit_eq take_bit_nat_eq_self push_bit_nat_def)

lemma unat_or_push_bit:
  fixes a b :: "'a::len word"
  assumes a: "unat a < 2 ^ n" and b: "unat b * 2 ^ n + 2 ^ n \<le> 2 ^ LENGTH('a)"
  shows "unat (a OR push_bit n b) = unat a + unat b * 2 ^ n"
proof -
  have "unat (take_bit n a) = unat a"
    using a by (simp add: unsigned_take_bit_eq take_bit_nat_eq_self)
  then have t: "take_bit n a = a"
    by (simp only: word_unat_eq_iff)
  have "take_bit n a AND push_bit n b = 0"
    by (rule bit_word_eqI) (auto simp: bit_simps)
  then have "a OR push_bit n b = a + push_bit n b"
    by (simp add: t disjunctive_add_eq_or)
  moreover have "0 < (2 :: nat) ^ n" by simp
  with b have "unat b * 2 ^ n < 2 ^ LENGTH('a)" by linarith
  then have "unat (push_bit n b) = unat b * 2 ^ n"
    by (rule unat_push_bit_noov)
  ultimately show ?thesis
    using a b by (simp add: unat_add_noov)
qed

lemma unat_drop_bit_div: "unat (drop_bit n w :: 'a::len word) = unat w div 2 ^ n"
  by (metis drop_bit_nat_def unat_drop_bit_eq)

lemma unat_take_bit_mod: "unat (take_bit n w :: 'a::len word) = unat w mod 2 ^ n"
  by (simp add: unsigned_take_bit_eq flip: take_bit_eq_mod)

lemma unat_le16: "unat (le16 bs i) = unat (byte_at bs i) + unat (byte_at bs (i + 1)) * 256"
proof -
  have "unat (byte_at bs (i + 1)) * 256 + 256 \<le> 65536"
    using unat_u8_lt [of "byte_at bs (i + 1)"] by linarith
  then show ?thesis
    unfolding le16_def by (subst unat_or_push_bit) (simp_all add: unat_u8_lt)
qed

lemma unat_le32: "unat (le32 bs i) = unat (le16 bs i) + unat (le16 bs (i + 2)) * 65536"
proof -
  have "unat (le16 bs (i + 2)) * 65536 + 65536 \<le> 4294967296"
    using unat_u16_lt [of "le16 bs (i + 2)"] by linarith
  then show ?thesis
    unfolding le32_def by (subst unat_or_push_bit) (simp_all add: unat_u16_lt)
qed

lemma unat_of_nat_u32: "n < 4294967296 \<Longrightarrow> unat (of_nat n :: u32) = n"
  by (simp add: unat_of_nat)

end
