(* ===== verification/Key_Chord.thy ===== *)
theory Key_Chord
  imports Juice_Prelude
begin

text \<open>
  \<^verbatim>\<open>app/JuiceKeyChord.h\<close> and \<^verbatim>\<open>app/JuiceKeyChord.c\<close>: the UIKit side turns one key press with
  modifiers into a batch of hardware-key packets for the display channel.  The model keeps
  the C algorithm (the output array is filled by index, first zeroed, then the three
  loops, then the header fields).  The lemmas show that it computes the reference
  sequence \<open>chord_events\<close>, that it never writes past \<open>needed\<close> entries, and that a batch is
  balanced: replayed on a keyboard it presses and releases in stack order and leaves no
  key down.
\<close>

section \<open>Packets and the C algorithm\<close>

record key_packet =
  kp_magic :: u32
  kp_type :: u32
  kp_size :: u32
  kp_hwnd :: u64
  kp_x :: u32
  kp_y :: u32
  kp_width :: u32
  kp_height :: u32
  kp_stride :: u32
  kp_flags :: u32

definition zero_packet :: key_packet where
  "zero_packet = \<lparr>kp_magic = 0, kp_type = 0, kp_size = 0, kp_hwnd = 0, kp_x = 0, kp_y = 0,
     kp_width = 0, kp_height = 0, kp_stride = 0, kp_flags = 0\<rparr>"

text \<open>The modifier bits \<open>JUICE_CHORD_CONTROL\<close>, \<open>_ALT\<close>, \<open>_SHIFT\<close>, \<open>_WINDOWS\<close> are bits 0 to 3.\<close>

definition chord_keys :: "nat \<Rightarrow> u16" where
  "chord_keys i = [0xa2, 0xa4, 0xa0, 0x5b] ! i"

definition chord_scans :: "nat \<Rightarrow> u16" where
  "chord_scans i = [0x1d, 0x38, 0x2a, 0x5b] ! i"

definition modifier_key :: "u16 \<Rightarrow> bool" where
  "modifier_key key \<longleftrightarrow> key = 0x10 \<or> key = 0x11 \<or> key = 0x12 \<or> key = 0x5b \<or> key = 0x5c \<or>
     (key \<ge> 0xa0 \<and> key \<le> 0xa5)"

definition mod_bit :: "u32 \<Rightarrow> nat \<Rightarrow> bool" where
  "mod_bit modifiers i \<longleftrightarrow> modifiers AND push_bit i 1 \<noteq> 0"

definition chord_count :: "u32 \<Rightarrow> nat" where
  "chord_count modifiers = length (filter (mod_bit modifiers) [0..<4])"

definition put_key :: "key_packet list \<Rightarrow> nat \<Rightarrow> u16 \<Rightarrow> u16 \<Rightarrow> u32 \<Rightarrow> key_packet list" where
  "put_key out pos x y flags =
     out[pos := (out ! pos)\<lparr>kp_x := ucast x, kp_y := ucast y, kp_flags := flags\<rparr>]"

text \<open>The two modifier loops: \<open>is\<close> runs through \<open>0,1,2,3\<close> and, for the releases, \<open>3,2,1,0\<close>;
  \<open>act\<close> is 1 for a press and 2 for a release.\<close>

fun put_mods :: "u32 \<Rightarrow> u32 \<Rightarrow> nat list \<Rightarrow> key_packet list \<Rightarrow> nat \<Rightarrow> key_packet list \<times> nat" where
  "put_mods modifiers act [] out pos = (out, pos)"
| "put_mods modifiers act (i # is) out pos =
     (if mod_bit modifiers i
      then put_mods modifiers act is
             (put_key out pos (chord_keys i) (chord_scans i) (act OR (if i = 3 then 4 else 0)))
             (pos + 1)
      else put_mods modifiers act is out pos)"

definition stamp :: "u64 \<Rightarrow> key_packet \<Rightarrow> key_packet" where
  "stamp hwnd p = p\<lparr>kp_magic := 0x4a554943, kp_type := 103, kp_hwnd := hwnd\<rparr>"

definition chord_rejected :: "u64 \<Rightarrow> u16 \<Rightarrow> u16 \<Rightarrow> u32 \<Rightarrow> bool" where
  "chord_rejected hwnd key scan modifiers \<longleftrightarrow>
     hwnd = 0 \<or> key = 0 \<or> key > 255 \<or> scan = 0 \<or> scan > 127 \<or> modifiers > 15"

definition JuiceBuildKeyChord ::
  "u64 \<Rightarrow> u16 \<Rightarrow> u16 \<Rightarrow> bool \<Rightarrow> u32 \<Rightarrow> key_packet list option \<Rightarrow> nat \<Rightarrow> nat \<times> key_packet list option" where
  "JuiceBuildKeyChord hwnd key scan extended modifiers out_ptr capacity =
     (case out_ptr of None \<Rightarrow> (0, None) | Some out \<Rightarrow>
       if chord_rejected hwnd key scan modifiers then (0, Some out)
       else if modifier_key key then (0, Some out)
       else let needed = 2 + 2 * chord_count modifiers in
         if capacity < needed then (0, Some out)
         else let
           out0 = replicate needed zero_packet @ drop needed out;
           (out1, p1) = put_mods modifiers 1 [0..<4] out0 0;
           out2 = put_key out1 p1 key scan (1 OR (if extended then 4 else 0));
           out3 = put_key out2 (p1 + 1) key scan (2 OR (if extended then 4 else 0));
           (out4, p4) = put_mods modifiers 2 (rev [0..<4]) out3 (p1 + 2);
           out5 = map (stamp hwnd) (take needed out4) @ drop needed out4
         in (p4, Some out5))"

section \<open>Reference sequence\<close>

definition event_packet :: "u64 \<Rightarrow> u16 \<Rightarrow> u16 \<Rightarrow> u32 \<Rightarrow> key_packet" where
  "event_packet hwnd x y flags =
     zero_packet\<lparr>kp_magic := 0x4a554943, kp_type := 103, kp_hwnd := hwnd,
       kp_x := ucast x, kp_y := ucast y, kp_flags := flags\<rparr>"

definition mod_events :: "u64 \<Rightarrow> u32 \<Rightarrow> u32 \<Rightarrow> nat list \<Rightarrow> key_packet list" where
  "mod_events hwnd modifiers act is =
     map (\<lambda>i. event_packet hwnd (chord_keys i) (chord_scans i) (act OR (if i = 3 then 4 else 0)))
       (filter (mod_bit modifiers) is)"

definition chord_events :: "u64 \<Rightarrow> u16 \<Rightarrow> u16 \<Rightarrow> bool \<Rightarrow> u32 \<Rightarrow> key_packet list" where
  "chord_events hwnd key scan extended modifiers =
     mod_events hwnd modifiers 1 [0..<4] @
     [event_packet hwnd key scan (1 OR (if extended then 4 else 0)),
      event_packet hwnd key scan (2 OR (if extended then 4 else 0))] @
     mod_events hwnd modifiers 2 (rev [0..<4])"

section \<open>The loops compute the reference sequence\<close>

lemma put_key_append:
  assumes "length pre = pos" "rest \<noteq> []"
  shows "put_key (pre @ rest) pos x y f =
    pre @ (hd rest)\<lparr>kp_x := ucast x, kp_y := ucast y, kp_flags := f\<rparr> # tl rest"
  using assms by (cases rest) (auto simp: put_key_def nth_append list_update_append)

definition raw_packet :: "u16 \<Rightarrow> u16 \<Rightarrow> u32 \<Rightarrow> key_packet" where
  "raw_packet x y f = zero_packet\<lparr>kp_x := ucast x, kp_y := ucast y, kp_flags := f\<rparr>"

lemma put_key_zero:
  "length pre = pos \<Longrightarrow> put_key (pre @ zero_packet # rest) pos x y f = pre @ raw_packet x y f # rest"
  by (simp add: put_key_append raw_packet_def)

lemma put_mods_zero:
  "length pre = pos \<Longrightarrow>
   put_mods m act is (pre @ replicate (length (filter (mod_bit m) is) + k) zero_packet @ rest) pos =
   (pre @ map (\<lambda>i. raw_packet (chord_keys i) (chord_scans i) (act OR (if i = 3 then 4 else 0)))
            (filter (mod_bit m) is) @ replicate k zero_packet @ rest,
    pos + length (filter (mod_bit m) is))"
proof (induction "is" arbitrary: pre pos)
  case Nil
  then show ?case by simp
next
  case (Cons i "is")
  show ?case
  proof (cases "mod_bit m i")
    case True
    with Cons.IH [of "pre @ [raw_packet (chord_keys i) (chord_scans i) (act OR (if i = 3 then 4 else 0))]"
        "pos + 1"] Cons.prems
    show ?thesis by (simp add: put_key_zero)
  next
    case False
    with Cons.IH [of pre pos] Cons.prems show ?thesis by simp
  qed
qed

lemma stamp_raw [simp]: "stamp hwnd (raw_packet x y f) = event_packet hwnd x y f"
  by (simp add: stamp_def raw_packet_def event_packet_def zero_packet_def)

lemma chord_count_up [simp]: "length (filter (mod_bit m) [0..<4]) = chord_count m"
  by (simp only: chord_count_def)

lemma chord_count_rev [simp]: "length (filter (mod_bit m) (rev [0..<4])) = chord_count m"
  by (simp flip: rev_filter)

lemma length_mod_events [simp]:
  "length (mod_events h m a [0..<4]) = chord_count m"
  "length (mod_events h m a (rev [0..<4])) = chord_count m"
  by (simp_all add: mod_events_def)

lemma length_chord_events [simp]:
  "length (chord_events h k s e m) = 2 + 2 * chord_count m"
  by (simp add: chord_events_def)

lemma chord_count_le: "chord_count m \<le> 4"
  using length_filter_le [of "mod_bit m" "[0..<4]"] by simp

lemma put_mods_downs:
  "put_mods m act [0..<4] (replicate (chord_count m + k) zero_packet @ rest) 0 =
   (map (\<lambda>i. raw_packet (chord_keys i) (chord_scans i) (act OR (if i = 3 then 4 else 0)))
      (filter (mod_bit m) [0..<4]) @ replicate k zero_packet @ rest, chord_count m)"
  using put_mods_zero [of "[]" 0 m act "[0..<4]" k rest] by simp

lemma put_mods_ups:
  "length pre = pos \<Longrightarrow>
   put_mods m act (rev [0..<4]) (pre @ replicate (chord_count m) zero_packet @ rest) pos =
   (pre @ map (\<lambda>i. raw_packet (chord_keys i) (chord_scans i) (act OR (if i = 3 then 4 else 0)))
      (filter (mod_bit m) (rev [0..<4])) @ rest, pos + chord_count m)"
  using put_mods_zero [of pre pos m act "rev [0..<4]" 0 rest] by (simp only: chord_count_rev) simp

lemma build_chord_body:
  fixes out :: "key_packet list" and m :: u32
  defines "needed \<equiv> 2 + 2 * chord_count m"
  assumes ok: "\<not> chord_rejected hwnd key scan m" "\<not> modifier_key key" "needed \<le> capacity"
  shows "JuiceBuildKeyChord hwnd key scan ext m (Some out) capacity =
    (needed, Some (chord_events hwnd key scan ext m @ drop needed out))"
proof -
  let ?f = "\<lambda>act i. raw_packet (chord_keys i) (chord_scans i) (act OR (if i = 3 then 4 else 0))"
  let ?D = "map (?f 1) (filter (mod_bit m) [0..<4])"
  let ?U = "map (?f 2) (filter (mod_bit m) (rev [0..<4]))"
  let ?dn = "raw_packet key scan (1 OR (if ext then 4 else 0))"
  let ?up = "raw_packet key scan (2 OR (if ext then 4 else 0))"
  let ?R = "drop needed out"
  have lens: "length ?D = chord_count m" "length ?U = chord_count m"
    by simp_all
  have s1: "put_mods m 1 [0..<4] (replicate needed zero_packet @ ?R) 0 =
      (?D @ zero_packet # zero_packet # replicate (chord_count m) zero_packet @ ?R, chord_count m)"
    using put_mods_downs [of m 1 "2 + chord_count m" ?R]
    by (simp add: needed_def numeral_2_eq_2 mult_2 ac_simps)
  have s2: "put_key (?D @ zero_packet # zero_packet # replicate (chord_count m) zero_packet @ ?R)
      (chord_count m) key scan (1 OR (if ext then 4 else 0)) =
      (?D @ [?dn]) @ zero_packet # replicate (chord_count m) zero_packet @ ?R"
    using put_key_zero [OF lens(1)] by simp
  have s3: "put_key ((?D @ [?dn]) @ zero_packet # replicate (chord_count m) zero_packet @ ?R)
      (chord_count m + 1) key scan (2 OR (if ext then 4 else 0)) =
      (?D @ [?dn, ?up]) @ replicate (chord_count m) zero_packet @ ?R"
    by (subst put_key_zero) (simp_all add: lens)
  have s4: "put_mods m 2 (rev [0..<4]) ((?D @ [?dn, ?up]) @ replicate (chord_count m) zero_packet @ ?R)
      (chord_count m + 2) = ((?D @ [?dn, ?up]) @ ?U @ ?R, needed)"
    by (subst put_mods_ups) (simp_all add: needed_def)
  have tk: "take needed ((?D @ [?dn, ?up]) @ ?U @ ?R) = ?D @ [?dn, ?up] @ ?U"
    and dr: "drop needed ((?D @ [?dn, ?up]) @ ?U @ ?R) = ?R"
    by (simp_all add: lens needed_def)
  have ev: "map (stamp hwnd) (?D @ [?dn, ?up] @ ?U) = chord_events hwnd key scan ext m"
    by (simp add: chord_events_def mod_events_def comp_def)
  show ?thesis
    unfolding JuiceBuildKeyChord_def
    using ok by (simp only: option.case if_False Let_def needed_def [symmetric] s1 prod.case s2 s3 s4
      tk dr ev not_less [symmetric])
qed

lemma build_chord_cases:
  "JuiceBuildKeyChord hwnd key scan ext m (Some out) capacity =
     (if chord_rejected hwnd key scan m \<or> modifier_key key \<or> capacity < 2 + 2 * chord_count m
      then (0, Some out)
      else (2 + 2 * chord_count m,
            Some (chord_events hwnd key scan ext m @ drop (2 + 2 * chord_count m) out)))"
proof (cases "chord_rejected hwnd key scan m \<or> modifier_key key \<or> capacity < 2 + 2 * chord_count m")
  case True
  then show ?thesis by (auto simp: JuiceBuildKeyChord_def)
next
  case False
  then show ?thesis by (simp add: build_chord_body del: One_nat_def)
qed

section \<open>Replaying a batch on a keyboard\<close>

text \<open>
  \<open>replay\<close> is the meaning of a batch for the receiving keyboard: the keys held down, most
  recent first.  A press of a key already down, or a release of anything but the most
  recently pressed key, is an error.  Bits 0 and 1 of the flags are \<open>JUICE_IOS_KEY_DOWN\<close> and
  \<open>JUICE_IOS_KEY_UP\<close> of \<^verbatim>\<open>wineios.drv/ipc.h\<close>.
\<close>

fun replay :: "key_packet list \<Rightarrow> u32 list \<Rightarrow> u32 list option" where
  "replay [] held = Some held"
| "replay (p # ps) held =
     (if has_bits (kp_flags p) 1
      then (if kp_x p \<in> set held \<or> has_bits (kp_flags p) 2 then None else replay ps (kp_x p # held))
      else if has_bits (kp_flags p) 2
      then (case held of [] \<Rightarrow> None | k # ks \<Rightarrow> if kp_x p = k then replay ps ks else None)
      else None)"

lemma replay_append:
  "replay (xs @ ys) held = (case replay xs held of None \<Rightarrow> None | Some h \<Rightarrow> replay ys h)"
  by (induction xs held rule: replay.induct) (auto split: list.splits)

lemma event_packet_sel [simp]:
  "kp_x (event_packet h x y f) = ucast x" "kp_flags (event_packet h x y f) = f"
  "kp_hwnd (event_packet h x y f) = h" "kp_type (event_packet h x y f) = 103"
  "kp_magic (event_packet h x y f) = 0x4a554943" "kp_size (event_packet h x y f) = 0"
  by (simp_all add: event_packet_def zero_packet_def)

lemma down_flags [simp]:
  "has_bits (1 OR (if c then 4 else 0) :: u32) 1" "\<not> has_bits (1 OR (if c then 4 else 0) :: u32) 2"
  "\<not> has_bits (2 OR (if c then 4 else 0) :: u32) 1" "has_bits (2 OR (if c then 4 else 0) :: u32) 2"
  by (auto simp: has_bits_def)

definition mod_keys :: "nat list \<Rightarrow> u32 list" where
  "mod_keys is = map (\<lambda>i. ucast (chord_keys i)) is"

lemma replay_downs:
  "distinct (mod_keys js) \<Longrightarrow> set (mod_keys js) \<inter> set held = {} \<Longrightarrow>
   replay (map (\<lambda>i. event_packet h (chord_keys i) (chord_scans i) (1 OR (if i = 3 then 4 else 0))) js) held
   = Some (rev (mod_keys js) @ held)"
  by (induction js arbitrary: held) (auto simp: mod_keys_def)

lemma replay_ups:
  "replay (map (\<lambda>i. event_packet h (chord_keys i) (chord_scans i) (2 OR (if i = 3 then 4 else 0))) js)
     (mod_keys js @ held) = Some held"
  by (induction js arbitrary: held) (auto simp: mod_keys_def)

lemma mod_keys_upt4: "mod_keys [0..<4] = [0xa2, 0xa4, 0xa0, 0x5b]"
  by (simp add: mod_keys_def chord_keys_def upt_rec)

lemma mod_keys_filter_subset:
  "set (mod_keys (filter P [0..<4])) \<subseteq> {0xa2, 0xa4, 0xa0, 0x5b}"
proof -
  have "set (mod_keys (filter P [0..<4])) \<subseteq> set (mod_keys [0..<4])"
    by (auto simp: mod_keys_def)
  then show ?thesis by (auto simp: mod_keys_upt4)
qed

lemma mod_keys_filter_distinct: "distinct (mod_keys (filter P [0..<4]))"
proof -
  have "distinct (mod_keys [0..<4])"
    by (simp add: mod_keys_upt4)
  then show ?thesis
    by (auto simp: mod_keys_def distinct_map inj_on_def)
qed

lemma plain_key_not_mod:
  assumes "\<not> modifier_key key"
  shows "(ucast key :: u32) \<notin> {0xa2, 0xa4, 0xa0, 0x5b}"
proof
  assume "(ucast key :: u32) \<in> {0xa2, 0xa4, 0xa0, 0x5b}"
  then have "uint (ucast key :: u32) \<in> {0xa2, 0xa4, 0xa0, 0x5b}"
    by auto
  moreover have "uint (ucast key :: u32) = uint key"
    by (simp add: unsigned_ucast_eq take_bit_int_eq_self order.strict_trans2 [OF uint_lt2p])
  ultimately have "uint key \<in> {0xa2, 0xa4, 0xa0, 0x5b}"
    by simp
  then have "key = 0xa2 \<or> key = 0xa4 \<or> key = 0xa0 \<or> key = 0x5b"
    by (auto simp: word_uint_eq_iff)
  with assms show False
    by (auto simp: modifier_key_def)
qed

lemma replay_chord_events:
  assumes "\<not> modifier_key key"
  shows "replay (chord_events hwnd key scan ext m) [] = Some []"
proof -
  let ?js = "filter (mod_bit m) [0..<4]"
  have "(ucast key :: u32) \<notin> set (mod_keys ?js)"
    using plain_key_not_mod [OF assms] mod_keys_filter_subset [of "mod_bit m"] by blast
  moreover have "mod_keys (rev ?js) = rev (mod_keys ?js)"
    by (simp add: mod_keys_def rev_map)
  ultimately show ?thesis
    using replay_downs [OF mod_keys_filter_distinct, where held = "[]" and h = hwnd]
      replay_ups [of hwnd "rev ?js" "[]"]
    by (simp add: chord_events_def mod_events_def replay_append rev_filter)
qed

section \<open>Properties\<close>

text \<open>
  C13: \<open>JuiceBuildKeyChord\<close> either rejects (null window, key or scan out of range, unknown
  modifier bits, a modifier as the key, or too little room) and leaves the output array
  untouched, or writes exactly the reference sequence into its first entries, keeps the
  rest of the array and returns the number of entries written.
\<close>

theorem build_chord_result:
  "JuiceBuildKeyChord hwnd key scan ext m (Some out) capacity =
     (if chord_rejected hwnd key scan m \<or> modifier_key key \<or> capacity < 2 + 2 * chord_count m
      then (0, Some out)
      else (2 + 2 * chord_count m,
            Some (chord_events hwnd key scan ext m @ drop (2 + 2 * chord_count m) out)))"
  by (rule build_chord_cases)

text \<open>
  C34: A batch that \<open>JuiceBuildKeyChord\<close> accepts has at most
  \<open>JUICE_CHORD_MAX_MESSAGES\<close> packets, fits the caller's array, addresses one window only, and
  replays on a keyboard with no key held to a keyboard with no key held, releasing keys in
  the reverse order of their presses.
\<close>

theorem build_chord_balanced:
  assumes "JuiceBuildKeyChord hwnd key scan ext m (Some out) capacity = (n, Some out')" "n \<noteq> 0"
  shows "n \<le> 10 \<and> n \<le> capacity \<and> replay (take n out') [] = Some [] \<and>
     (\<forall>p \<in> set (take n out'). kp_hwnd p = hwnd)"
proof -
  from assms have "\<not> modifier_key key" and n: "n = 2 + 2 * chord_count m" "n \<le> capacity"
    and o: "take n out' = chord_events hwnd key scan ext m"
    by (auto simp: build_chord_cases split: if_splits)
  then show ?thesis
    using replay_chord_events chord_count_le [of m]
    by (auto simp: chord_events_def mod_events_def)
qed

theorem build_chord_balanced_witness:
  "\<exists>out'. JuiceBuildKeyChord 7 0x41 0x1e False 5 (Some (replicate 10 zero_packet)) 10 = (6, Some out') \<and>
     replay (take 6 out') [] = Some [] \<and> (\<forall>p \<in> set (take 6 out'). kp_hwnd p = 7)"
proof -
  have c: "chord_count 5 = 2"
    by code_simp
  obtain out' where r: "JuiceBuildKeyChord 7 0x41 0x1e False 5 (Some (replicate 10 zero_packet)) 10 = (6, Some out')"
    by (simp add: build_chord_cases c chord_rejected_def modifier_key_def)
  with build_chord_balanced [OF r] show ?thesis by auto
qed

end
