(* ===== verification/Jit_Ack.thy ===== *)
theory Jit_Ack
  imports Juice_Prelude
begin

text \<open>
  \<^verbatim>\<open>app/JuiceJITAck.h\<close>: the matcher that recognises the launch-owned acknowledgement line in
  the runtime's output, fed in arbitrary chunks and using constant memory.  The locale
  \<open>chunk_feeder\<close> is the contract of such an incremental consumer; the matcher is an instance,
  and its lemmas relate it to the plain list of complete lines of the whole stream.
\<close>

section \<open>Incremental consumers\<close>

locale chunk_feeder =
  fixes feed :: "'s \<Rightarrow> 'b list \<Rightarrow> bool \<times> 's"
  assumes feed_Nil: "feed s [] = (False, s)"
    and feed_append: "feed s (xs @ ys) =
      (case feed s xs of (True, t) \<Rightarrow> (True, t) | (False, t) \<Rightarrow> feed t ys)"
begin

primrec feed_all :: "'s \<Rightarrow> 'b list list \<Rightarrow> bool \<times> 's" where
  "feed_all s [] = (False, s)"
| "feed_all s (c # cs) = (case feed s c of (True, t) \<Rightarrow> (True, t) | (False, t) \<Rightarrow> feed_all t cs)"

lemma feed_all_concat: "feed_all s cs = feed s (concat cs)"
  by (induction cs arbitrary: s) (auto simp: feed_Nil feed_append split: prod.splits bool.splits)

end

section \<open>The matcher\<close>

record jit_ack =
  ack_expected :: bytes
  ack_length :: nat
  ack_matched :: nat
  ack_discarded :: bool
  ack_carriage :: bool

definition ack_zero :: jit_ack where
  "ack_zero = \<lparr>ack_expected = replicate 128 0, ack_length = 0, ack_matched = 0,
     ack_discarded = False, ack_carriage = False\<rparr>"

definition printable :: "u8 \<Rightarrow> bool" where
  "printable c \<longleftrightarrow> \<not> (c < 0x20 \<or> c > 0x7e)"

definition JuiceJITAckInit :: "jit_ack option \<Rightarrow> bytes option \<Rightarrow> nat \<Rightarrow> bool \<times> jit_ack option" where
  "JuiceJITAckInit state expected len =
     (case state of None \<Rightarrow> (False, None) | Some _ \<Rightarrow>
       (case expected of None \<Rightarrow> (False, Some ack_zero) | Some bs \<Rightarrow>
         if len = 0 \<or> len \<ge> 128 then (False, Some ack_zero)
         else if \<exists>i \<in> set [0..<len]. \<not> printable (byte_at bs i) then (False, Some ack_zero)
         else (True, Some (ack_zero\<lparr>ack_expected := take len bs @ replicate (128 - len) 0,
                 ack_length := len\<rparr>))))"

text \<open>One byte of the loop; the flag says that a complete marker line was just terminated.\<close>

definition ack_byte :: "jit_ack \<Rightarrow> u8 \<Rightarrow> bool \<times> jit_ack" where
  "ack_byte st c =
     (if c = 10 then
        (\<not> ack_discarded st \<and> ack_matched st = ack_length st,
         st\<lparr>ack_matched := 0, ack_discarded := False, ack_carriage := False\<rparr>)
      else if \<not> ack_discarded st then
        (False,
         if c = 13 \<and> ack_matched st = ack_length st \<and> \<not> ack_carriage st
         then st\<lparr>ack_carriage := True\<rparr>
         else if \<not> ack_carriage st \<and> ack_matched st < ack_length st \<and>
           c = byte_at (ack_expected st) (ack_matched st)
         then st\<lparr>ack_matched := ack_matched st + 1\<rparr>
         else st\<lparr>ack_discarded := True\<rparr>)
      else (False, st))"

fun ack_loop :: "jit_ack \<Rightarrow> bytes \<Rightarrow> bool \<times> jit_ack" where
  "ack_loop st [] = (False, st)"
| "ack_loop st (c # cs) =
     (case ack_byte st c of (True, st') \<Rightarrow> (True, st') | (False, st') \<Rightarrow> ack_loop st' cs)"

definition JuiceJITAckFeed :: "jit_ack option \<Rightarrow> bytes option \<Rightarrow> nat \<Rightarrow> bool \<times> jit_ack option" where
  "JuiceJITAckFeed state data len =
     (case state of None \<Rightarrow> (False, None) | Some st \<Rightarrow>
       if ack_length st = 0 \<or> ack_length st \<ge> 128 then (False, Some st)
       else (case data of
           None \<Rightarrow> if len \<noteq> 0 then (False, Some (st\<lparr>ack_discarded := True\<rparr>)) else (False, Some st)
         | Some bs \<Rightarrow> (case ack_loop st (take len bs) of (r, st') \<Rightarrow> (r, Some st'))))"

interpretation ack: chunk_feeder ack_loop
proof
  show "ack_loop s [] = (False, s)" for s
    by simp
  show "ack_loop s (xs @ ys) =
    (case ack_loop s xs of (True, t) \<Rightarrow> (True, t) | (False, t) \<Rightarrow> ack_loop t ys)" for s xs ys
    by (induction s xs rule: ack_loop.induct) (auto split: prod.splits bool.splits)
qed

section \<open>Complete lines of a stream\<close>

fun complete_lines :: "bytes \<Rightarrow> bytes \<Rightarrow> bytes list" where
  "complete_lines cur [] = []"
| "complete_lines cur (c # cs) =
     (if c = 10 then cur # complete_lines [] cs else complete_lines (cur @ [c]) cs)"

definition marker_line :: "bytes \<Rightarrow> bytes \<Rightarrow> bool" where
  "marker_line m line \<longleftrightarrow> line = m \<or> line = m @ [13]"

text \<open>How the matcher's fields describe the unterminated line \<open>cur\<close> read so far.\<close>

definition ack_rep :: "bytes \<Rightarrow> bytes \<Rightarrow> jit_ack \<Rightarrow> bool" where
  "ack_rep m cur st \<longleftrightarrow>
     ack_length st = length m \<and> take (length m) (ack_expected st) = m \<and>
     (if ack_discarded st then \<not> is_prefix cur (m @ [13])
      else if ack_carriage st then cur = m @ [13] \<and> ack_matched st = length m
      else ack_matched st \<le> length m \<and> cur = take (ack_matched st) m)"

lemma is_prefix_snoc:
  "is_prefix (xs @ [c]) ys \<longleftrightarrow> is_prefix xs ys \<and> length xs < length ys \<and> ys ! length xs = c"
proof (cases "length xs < length ys")
  case True
  then show ?thesis by (auto simp: is_prefix_def take_Suc_conv_app_nth)
next
  case False
  then have "length (take (Suc (length xs)) ys) \<noteq> length (xs @ [c])" by simp
  then have "take (Suc (length xs)) ys \<noteq> xs @ [c]" by metis
  with False show ?thesis by (simp add: is_prefix_def)
qed

lemma ack_rep_expected: "ack_rep m cur st \<Longrightarrow> i < length m \<Longrightarrow> byte_at (ack_expected st) i = m ! i"
  by (metis ack_rep_def byte_at_nth byte_at_take)

lemma ack_byte_other:
  assumes rep: "ack_rep m cur st" and c: "c \<noteq> 10" and m: "13 \<notin> set m"
  shows "fst (ack_byte st c) = False \<and> ack_rep m (cur @ [c]) (snd (ack_byte st c))"
proof (cases "ack_discarded st")
  case True
  with rep c show ?thesis by (auto simp: ack_byte_def ack_rep_def is_prefix_snoc)
next
  case False
  show ?thesis
  proof (cases "ack_carriage st")
    case True
    with False rep c show ?thesis
      by (auto simp: ack_byte_def ack_rep_def is_prefix_def)
  next
    case nocr: False
    from False nocr rep have k: "ack_matched st \<le> length m" "cur = take (ack_matched st) m"
      by (simp_all add: ack_rep_def)
    show ?thesis
    proof (cases "ack_matched st = length m")
      case True
      with False nocr rep c k show ?thesis
        by (auto simp: ack_byte_def ack_rep_def is_prefix_snoc nth_append)
    next
      case short: False
      with k have lt: "ack_matched st < length m" by simp
      then have e: "byte_at (ack_expected st) (ack_matched st) = m ! ack_matched st"
        using ack_rep_expected [OF rep] by simp
      from lt m have "m ! ack_matched st \<noteq> 13" by (metis nth_mem)
      with False nocr rep c k lt e show ?thesis
        by (auto simp: ack_byte_def ack_rep_def is_prefix_snoc nth_append take_Suc_conv_app_nth)
    qed
  qed
qed

lemma take_eq_full: "k \<le> length m \<Longrightarrow> take k m = m \<longleftrightarrow> k = length m"
  by (auto simp: take_all_iff)

lemma take_neq_snoc: "take k m \<noteq> m @ [c]"
  by (auto dest: arg_cong [where f = length])

lemma ack_byte_newline:
  assumes rep: "ack_rep m cur st"
  shows "fst (ack_byte st 10) = marker_line m cur \<and> ack_rep m [] (snd (ack_byte st 10))"
proof -
  have "fst (ack_byte st 10) = marker_line m cur"
    using rep take_neq_snoc [of "ack_matched st" m 13]
    by (auto simp: ack_byte_def ack_rep_def marker_line_def is_prefix_appendI take_eq_full split: if_splits)
  moreover have "ack_rep m [] (snd (ack_byte st 10))"
    using rep by (simp add: ack_byte_def ack_rep_def)
  ultimately show ?thesis ..
qed

lemma ack_loop_lines:
  assumes "ack_rep m cur st" "13 \<notin> set m"
  shows "fst (ack_loop st bs) \<longleftrightarrow> (\<exists>line \<in> set (complete_lines cur bs). marker_line m line)"
  using assms
proof (induction st bs arbitrary: cur rule: ack_loop.induct)
  case (1 st)
  then show ?case by simp
next
  case (2 st c cs)
  show ?case
  proof (cases "c = 10")
    case True
    with ack_byte_newline [OF "2.prems"(1)] "2.IH" "2.prems"(2) show ?thesis
      by (cases "ack_byte st c") (auto split: bool.splits)
  next
    case False
    with ack_byte_other [OF "2.prems"(1) False "2.prems"(2)] "2.IH" "2.prems"(2) show ?thesis
      by (cases "ack_byte st c") (auto split: bool.splits)
  qed
qed

lemma ack_init_cases:
  "JuiceJITAckInit (Some st0) (Some m) (length m) =
     (if m \<noteq> [] \<and> length m < 128 \<and> list_all printable m
      then (True, Some (ack_zero\<lparr>ack_expected := m @ replicate (128 - length m) 0, ack_length := length m\<rparr>))
      else (False, Some ack_zero))"
  by (auto simp: JuiceJITAckInit_def list_all_length)

lemma ack_init_rep:
  "ack_rep m [] (ack_zero\<lparr>ack_expected := m @ pad, ack_length := length m\<rparr>)"
  by (simp add: ack_rep_def ack_zero_def)

lemma printable_no_cr: "list_all printable m \<Longrightarrow> 13 \<notin> set m"
  by (auto simp: list_all_iff printable_def)

lemma ack_byte_length: "ack_length (snd (ack_byte st c)) = ack_length st"
  by (simp add: ack_byte_def)

lemma ack_loop_length: "ack_length (snd (ack_loop st bs)) = ack_length st"
proof (induction st bs rule: ack_loop.induct)
  case (2 st c cs)
  then show ?case
    using ack_byte_length [of st c] by (auto split: prod.splits bool.splits)
qed simp

text \<open>The reader that owns a session feeds each chunk it receives and stops when the marker is seen.\<close>

fun ack_session :: "jit_ack option \<Rightarrow> bytes list \<Rightarrow> bool" where
  "ack_session st [] = False"
| "ack_session st (c # cs) =
     (case JuiceJITAckFeed st (Some c) (length c) of (True, _) \<Rightarrow> True | (False, st') \<Rightarrow> ack_session st' cs)"

lemma ack_session_feed_all:
  "0 < ack_length st \<Longrightarrow> ack_length st < 128 \<Longrightarrow>
   ack_session (Some st) cs \<longleftrightarrow> fst (ack.feed_all st cs)"
proof (induction cs arbitrary: st)
  case (Cons c cs)
  then show ?case
    using ack_loop_length [of st c]
    by (auto simp: JuiceJITAckFeed_def split: prod.splits bool.splits)
qed simp

section \<open>Properties\<close>

text \<open>
  C12: However the runtime's output is cut into chunks, a session started for the marker \<open>m\<close>
  acknowledges exactly when the concatenated output contains a complete line, terminated by
  LF or CRLF, that is the marker and nothing else.  Prefixes, suffixes, unterminated
  markers and NUL bytes never count.
\<close>

theorem ack_session_exact:
  assumes init: "JuiceJITAckInit (Some st0) (Some m) (length m) = (True, Some st)"
  shows "ack_session (Some st) chunks \<longleftrightarrow>
    (\<exists>line \<in> set (complete_lines [] (concat chunks)). line = m \<or> line = m @ [13])"
proof -
  from init have m: "m \<noteq> []" "length m < 128" "13 \<notin> set m"
    and st: "st = ack_zero\<lparr>ack_expected := m @ replicate (128 - length m) 0, ack_length := length m\<rparr>"
    by (auto simp: ack_init_cases printable_no_cr split: if_splits)
  have "ack_session (Some st) chunks \<longleftrightarrow> fst (ack_loop st (concat chunks))"
    using m by (simp add: st ack_session_feed_all ack.feed_all_concat)
  with ack_loop_lines [of m "[]" st "concat chunks"] m(3) show ?thesis
    by (simp add: st ack_init_rep marker_line_def)
qed

theorem ack_session_exact_witness:
  "\<exists>st. JuiceJITAckInit (Some ack_zero) (Some [74, 33]) 2 = (True, Some st) \<and>
     ack_session (Some st) [[88, 10, 74], [33, 13], [10]] \<and>
     \<not> ack_session (Some st) [[88, 74, 33, 10], [74, 33]]"
proof -
  obtain st where st: "JuiceJITAckInit (Some ack_zero) (Some [74, 33]) (length [74, 33 :: u8]) = (True, Some st)"
    using ack_init_cases [of ack_zero "[74, 33]"] by (auto simp: printable_def)
  have "ack_session (Some st) [[88, 10, 74], [33, 13], [10]]"
    "\<not> ack_session (Some st) [[88, 74, 33, 10], [74, 33]]"
    by (simp_all add: ack_session_exact [OF st] del: ack_session.simps)
  with st show ?thesis by (auto simp: numeral_2_eq_2 simp del: ack_session.simps)
qed

end
