(* ===== verification/Jit_State.thy ===== *)
theory Jit_State
  imports Juice_Prelude
begin

text \<open>
  \<^verbatim>\<open>app/JuiceJITState.h\<close>: the transition logic of the external-debugger (JIT) launch.  Enum
  values outside the declared range, which the C code tests for, are the constructors
  \<open>JuiceJITPhaseOther\<close> and \<open>JuiceJITEventOther\<close>.  The coordinator's behaviour is the step
  relation \<open>jit_step\<close> on a state paired with the history of delivered observations; the
  invariant ties each phase to the observations that led there.
\<close>

datatype jit_phase =
    JuiceJITOpening | JuiceJITAttaching | JuiceJITStarting | JuiceJITReady
  | JuiceJITCancelled | JuiceJITFailed | JuiceJITOpeningAuthorized | JuiceJITAuthorized
  | JuiceJITPhaseOther nat

datatype jit_event =
    JuiceJITTick | JuiceJITOpenAccepted | JuiceJITOpenRejected | JuiceJITDebugged
  | JuiceJITRuntimeAck | JuiceJITCancel | JuiceJITEventOther nat

datatype jit_action = JuiceJITNoAction | JuiceJITResume | JuiceJITStop

record jit_state =
  jit_phase :: jit_phase
  jit_deadlineMS :: u64
  jit_runtimeAcknowledged :: bool

fun JuiceJITPending :: "jit_phase \<Rightarrow> bool" where
  "JuiceJITPending JuiceJITOpening = True"
| "JuiceJITPending JuiceJITAttaching = True"
| "JuiceJITPending JuiceJITStarting = True"
| "JuiceJITPending JuiceJITOpeningAuthorized = True"
| "JuiceJITPending JuiceJITAuthorized = True"
| "JuiceJITPending _ = False"

fun event_in_range :: "jit_event \<Rightarrow> bool" where
  "event_in_range (JuiceJITEventOther _) = False"
| "event_in_range _ = True"

definition jit_terminal :: "jit_phase \<Rightarrow> bool" where
  "jit_terminal p \<longleftrightarrow> p = JuiceJITReady \<or> p = JuiceJITCancelled \<or> p = JuiceJITFailed"

text \<open>The observation part of the transition: remember the acknowledgement, advance the phase.\<close>

definition jit_observe :: "jit_state \<Rightarrow> jit_event \<Rightarrow> jit_state" where
  "jit_observe st event =
     (let st1 = (if event = JuiceJITRuntimeAck then st\<lparr>jit_runtimeAcknowledged := True\<rparr> else st);
          st2 = (if event = JuiceJITOpenAccepted then
                   (if jit_phase st1 = JuiceJITOpening then st1\<lparr>jit_phase := JuiceJITAttaching\<rparr>
                    else if jit_phase st1 = JuiceJITOpeningAuthorized
                    then st1\<lparr>jit_phase := JuiceJITAuthorized\<rparr> else st1)
                 else st1)
      in if event = JuiceJITDebugged then
           (if jit_phase st2 = JuiceJITOpening then st2\<lparr>jit_phase := JuiceJITOpeningAuthorized\<rparr>
            else if jit_phase st2 = JuiceJITAttaching then st2\<lparr>jit_phase := JuiceJITAuthorized\<rparr>
            else st2)
         else st2)"

definition jit_advance :: "jit_state \<Rightarrow> jit_state \<times> jit_action" where
  "jit_advance st =
     (if jit_phase st = JuiceJITAuthorized \<or> jit_phase st = JuiceJITStarting then
        if jit_runtimeAcknowledged st then (st\<lparr>jit_phase := JuiceJITReady\<rparr>, JuiceJITNoAction)
        else if jit_phase st = JuiceJITAuthorized
        then (st\<lparr>jit_phase := JuiceJITStarting\<rparr>, JuiceJITResume)
        else (st, JuiceJITNoAction)
      else (st, JuiceJITNoAction))"

definition JuiceJITTransition ::
  "jit_state \<Rightarrow> jit_event \<Rightarrow> u64 \<Rightarrow> bool \<Rightarrow> bool \<Rightarrow> jit_state \<times> jit_action" where
  "JuiceJITTransition st event nowMS ownsChild foreground =
     (if jit_terminal (jit_phase st) then (st, JuiceJITNoAction)
      else if \<not> ownsChild \<or> event = JuiceJITCancel
      then (st\<lparr>jit_phase := JuiceJITCancelled\<rparr>, JuiceJITNoAction)
      else if \<not> JuiceJITPending (jit_phase st) \<or> \<not> event_in_range event \<or>
        nowMS \<ge> jit_deadlineMS st \<or> event = JuiceJITOpenRejected
      then (st\<lparr>jit_phase := JuiceJITFailed\<rparr>, JuiceJITStop)
      else let st' = jit_observe st event in
        if \<not> foreground then (st', JuiceJITNoAction) else jit_advance st')"

section \<open>Sessions\<close>

record jit_obs =
  obs_event :: jit_event
  obs_now :: u64
  obs_owns :: bool
  obs_fg :: bool

definition jit_apply :: "jit_state \<Rightarrow> jit_obs \<Rightarrow> jit_state \<times> jit_action" where
  "jit_apply st ob = JuiceJITTransition st (obs_event ob) (obs_now ob) (obs_owns ob) (obs_fg ob)"

text \<open>A session: a new launch, then any sequence of observations; \<open>acts\<close> lists the actions
  taken and \<open>obs\<close> the observations delivered, both oldest first.\<close>

definition jit_start :: "u64 \<Rightarrow> jit_state" where
  "jit_start deadline = \<lparr>jit_phase = JuiceJITOpening, jit_deadlineMS = deadline,
     jit_runtimeAcknowledged = False\<rparr>"

inductive jit_session :: "u64 \<Rightarrow> jit_state \<Rightarrow> jit_obs list \<Rightarrow> jit_action list \<Rightarrow> bool" for deadline where
  start: "jit_session deadline (jit_start deadline) [] []"
| step: "jit_session deadline st obs acts \<Longrightarrow> jit_apply st ob = (st', act) \<Longrightarrow>
    jit_session deadline st' (obs @ [ob]) (acts @ [act])"

definition seen :: "jit_event \<Rightarrow> jit_obs list \<Rightarrow> bool" where
  "seen e obs \<longleftrightarrow> (\<exists>ob \<in> set obs. obs_event ob = e)"

definition live_obs :: "u64 \<Rightarrow> jit_obs \<Rightarrow> bool" where
  "live_obs deadline ob \<longleftrightarrow> obs_owns ob \<and> obs_now ob < deadline \<and> event_in_range (obs_event ob) \<and>
     obs_event ob \<noteq> JuiceJITCancel \<and> obs_event ob \<noteq> JuiceJITOpenRejected"

text \<open>What each phase says about the history.\<close>

definition opened :: "jit_phase \<Rightarrow> bool" where
  "opened p \<longleftrightarrow> p = JuiceJITAttaching \<or> p = JuiceJITAuthorized \<or> p = JuiceJITStarting \<or> p = JuiceJITReady"

definition debugged :: "jit_phase \<Rightarrow> bool" where
  "debugged p \<longleftrightarrow>
     p = JuiceJITOpeningAuthorized \<or> p = JuiceJITAuthorized \<or> p = JuiceJITStarting \<or> p = JuiceJITReady"

definition jit_hist_inv :: "u64 \<Rightarrow> jit_state \<Rightarrow> jit_obs list \<Rightarrow> jit_action list \<Rightarrow> bool" where
  "jit_hist_inv deadline st obs acts \<longleftrightarrow>
     jit_deadlineMS st = deadline \<and>
     (JuiceJITPending (jit_phase st) \<or> jit_terminal (jit_phase st)) \<and>
     (opened (jit_phase st) \<longrightarrow> seen JuiceJITOpenAccepted obs) \<and>
     (debugged (jit_phase st) \<longrightarrow> seen JuiceJITDebugged obs) \<and>
     (jit_runtimeAcknowledged st \<longrightarrow> seen JuiceJITRuntimeAck obs) \<and>
     (jit_phase st = JuiceJITReady \<longrightarrow> jit_runtimeAcknowledged st \<and> (\<exists>ob \<in> set obs. obs_fg ob)) \<and>
     (JuiceJITPending (jit_phase st) \<longrightarrow> list_all (live_obs deadline) obs) \<and>
     (jit_phase st \<noteq> JuiceJITStarting \<and> JuiceJITPending (jit_phase st) \<longrightarrow> count_list acts JuiceJITResume = 0) \<and>
     (JuiceJITPending (jit_phase st) \<longrightarrow> count_list acts JuiceJITStop = 0) \<and>
     count_list acts JuiceJITResume \<le> 1 \<and> count_list acts JuiceJITStop \<le> 1"

lemma seen_append [simp]: "seen e (xs @ ys) \<longleftrightarrow> seen e xs \<or> seen e ys"
  by (auto simp: seen_def)

lemma seen_single [simp]: "seen e [ob] \<longleftrightarrow> obs_event ob = e" "seen e [] = False"
  by (auto simp: seen_def)

lemmas jit_phase_defs = opened_def debugged_def jit_terminal_def

lemma jit_hist_inv_start: "jit_hist_inv deadline (jit_start deadline) [] []"
  by (simp add: jit_hist_inv_def jit_start_def jit_phase_defs)

lemmas jit_step_defs = jit_apply_def JuiceJITTransition_def jit_observe_def jit_advance_def Let_def

lemma jit_apply_terminal: "jit_terminal (jit_phase st) \<Longrightarrow> jit_apply st ob = (st, JuiceJITNoAction)"
  by (simp add: jit_apply_def JuiceJITTransition_def)

lemma jit_apply_dead:
  assumes "\<not> jit_terminal (jit_phase st)" "\<not> live_obs (jit_deadlineMS st) ob"
  shows "jit_apply st ob =
    (if obs_owns ob \<and> obs_event ob \<noteq> JuiceJITCancel
     then (st\<lparr>jit_phase := JuiceJITFailed\<rparr>, JuiceJITStop)
     else (st\<lparr>jit_phase := JuiceJITCancelled\<rparr>, JuiceJITNoAction))"
proof -
  have "obs_owns ob \<and> obs_event ob \<noteq> JuiceJITCancel \<Longrightarrow>
      \<not> event_in_range (obs_event ob) \<or> jit_deadlineMS st \<le> obs_now ob \<or>
      obs_event ob = JuiceJITOpenRejected"
    using assms(2) by (simp add: live_obs_def not_less)
  with assms(1) show ?thesis
    by (simp add: jit_apply_def JuiceJITTransition_def)
qed

lemma jit_apply_live:
  assumes "JuiceJITPending (jit_phase st)" "live_obs (jit_deadlineMS st) ob"
  shows "jit_apply st ob =
    (if obs_fg ob then jit_advance (jit_observe st (obs_event ob))
     else (jit_observe st (obs_event ob), JuiceJITNoAction))"
proof -
  have "\<not> jit_terminal (jit_phase st)"
    using assms(1) by (auto simp: jit_terminal_def)
  moreover have "\<not> jit_deadlineMS st \<le> obs_now ob"
    using assms(2) by (simp add: live_obs_def not_le)
  ultimately show ?thesis
    using assms
    by (simp add: jit_apply_def JuiceJITTransition_def live_obs_def)
qed

lemma jit_observe_frame [simp]:
  "jit_deadlineMS (jit_observe st e) = jit_deadlineMS st"
  "jit_runtimeAcknowledged (jit_observe st e) \<longleftrightarrow> jit_runtimeAcknowledged st \<or> e = JuiceJITRuntimeAck"
  by (auto simp: jit_observe_def Let_def)

lemma jit_observe_phase:
  "jit_phase (jit_observe st e) =
     (case (jit_phase st, e) of
        (JuiceJITOpening, JuiceJITOpenAccepted) \<Rightarrow> JuiceJITAttaching
      | (JuiceJITOpeningAuthorized, JuiceJITOpenAccepted) \<Rightarrow> JuiceJITAuthorized
      | (JuiceJITOpening, JuiceJITDebugged) \<Rightarrow> JuiceJITOpeningAuthorized
      | (JuiceJITAttaching, JuiceJITDebugged) \<Rightarrow> JuiceJITAuthorized
      | (p, _) \<Rightarrow> p)"
  by (cases e; cases "jit_phase st") (simp_all add: jit_observe_def)

lemma jit_observe_inv:
  assumes "jit_hist_inv deadline st obs acts" "JuiceJITPending (jit_phase st)" "live_obs deadline ob"
  shows "jit_hist_inv deadline (jit_observe st (obs_event ob)) (obs @ [ob]) (acts @ [JuiceJITNoAction]) \<and>
    JuiceJITPending (jit_phase (jit_observe st (obs_event ob)))"
  using assms
  by (cases "jit_phase st"; cases "obs_event ob")
    (simp_all add: jit_hist_inv_def jit_phase_defs jit_observe_phase)

lemma jit_advance_inv:
  assumes "jit_hist_inv deadline st (obs @ [ob]) (acts @ [JuiceJITNoAction])"
    "JuiceJITPending (jit_phase st)" "obs_fg ob" "jit_advance st = (st', act)"
  shows "jit_hist_inv deadline st' (obs @ [ob]) (acts @ [act])"
  using assms
  by (cases "jit_phase st") (auto simp: jit_hist_inv_def jit_phase_defs jit_advance_def split: if_splits)

lemma jit_hist_inv_step:
  assumes inv: "jit_hist_inv deadline st obs acts" and step: "jit_apply st ob = (st', act)"
  shows "jit_hist_inv deadline st' (obs @ [ob]) (acts @ [act])"
proof -
  have dl: "jit_deadlineMS st = deadline"
    using inv by (simp add: jit_hist_inv_def)
  consider (terminal) "jit_terminal (jit_phase st)"
    | (dead) "\<not> jit_terminal (jit_phase st)" "\<not> live_obs (jit_deadlineMS st) ob"
    | (live) "JuiceJITPending (jit_phase st)" "live_obs (jit_deadlineMS st) ob"
    using inv by (auto simp: jit_hist_inv_def)
  then show ?thesis
  proof cases
    case terminal
    with step inv show ?thesis
      by (auto simp: jit_apply_terminal jit_hist_inv_def jit_terminal_def)
  next
    case dead
    have pend: "JuiceJITPending (jit_phase st)"
      using inv dead(1) by (simp add: jit_hist_inv_def)
    note eq = trans [OF step [symmetric] jit_apply_dead [OF dead]]
    show ?thesis
    proof (cases "obs_owns ob \<and> obs_event ob \<noteq> JuiceJITCancel")
      case True
      with eq have "st' = st\<lparr>jit_phase := JuiceJITFailed\<rparr>" "act = JuiceJITStop"
        by (simp_all only: if_True prod.inject simp_thms)
      with inv pend show ?thesis by (simp add: jit_hist_inv_def jit_phase_defs)
    next
      case False
      with eq have "st' = st\<lparr>jit_phase := JuiceJITCancelled\<rparr>" "act = JuiceJITNoAction"
        by (simp_all only: if_False prod.inject)
      with inv pend show ?thesis by (simp add: jit_hist_inv_def jit_phase_defs)
    qed
  next
    case live
    note obs' = jit_observe_inv [OF inv live(1) live(2) [unfolded dl]]
    show ?thesis
    proof (cases "obs_fg ob")
      case True
      with live step have "jit_advance (jit_observe st (obs_event ob)) = (st', act)"
        by (simp add: jit_apply_live)
      then show ?thesis
        using jit_advance_inv [OF conjunct1 [OF obs'] conjunct2 [OF obs'] True] by simp
    next
      case False
      with live step have "st' = jit_observe st (obs_event ob)" "act = JuiceJITNoAction"
        by (simp_all add: jit_apply_live)
      with obs' show ?thesis by simp
    qed
  qed
qed

lemma jit_session_inv: "jit_session deadline st obs acts \<Longrightarrow> jit_hist_inv deadline st obs acts"
proof (induction rule: jit_session.induct)
  case start
  show ?case by (rule jit_hist_inv_start)
next
  case (step st obs acts ob st' act)
  show ?case by (rule jit_hist_inv_step [OF step.IH step.hyps(2)])
qed

section \<open>Progress: observations in any order\<close>

definition jit_progress :: "jit_state \<Rightarrow> jit_obs list \<Rightarrow> bool" where
  "jit_progress st obs \<longleftrightarrow>
     (let o1 = seen JuiceJITOpenAccepted obs; d1 = seen JuiceJITDebugged obs; a1 = seen JuiceJITRuntimeAck obs in
      (JuiceJITPending (jit_phase st) \<or> jit_phase st = JuiceJITReady) \<and>
      (if o1 \<and> d1 then jit_phase st \<in> {JuiceJITAuthorized, JuiceJITStarting, JuiceJITReady}
       else if o1 then jit_phase st = JuiceJITAttaching
       else if d1 then jit_phase st = JuiceJITOpeningAuthorized
       else jit_phase st = JuiceJITOpening) \<and>
      (jit_phase st \<noteq> JuiceJITReady \<longrightarrow> jit_runtimeAcknowledged st = a1))"

lemma jit_observe_progress:
  assumes "jit_progress st obs" "JuiceJITPending (jit_phase st)" "live_obs deadline ob"
  shows "jit_progress (jit_observe st (obs_event ob)) (obs @ [ob]) \<and>
    JuiceJITPending (jit_phase (jit_observe st (obs_event ob)))"
  using assms
  by (cases "jit_phase st"; cases "obs_event ob")
    (simp_all add: jit_progress_def jit_observe_phase Let_def split: if_splits)

lemma jit_advance_progress:
  assumes "jit_progress st obs" "JuiceJITPending (jit_phase st)"
  shows "jit_progress (fst (jit_advance st)) obs \<and>
    (seen JuiceJITOpenAccepted obs \<and> seen JuiceJITDebugged obs \<and> seen JuiceJITRuntimeAck obs \<longrightarrow>
     jit_phase (fst (jit_advance st)) = JuiceJITReady)"
  using assms
  by (cases "jit_phase st") (auto simp: jit_progress_def jit_advance_def Let_def split: if_splits)

lemma jit_progress_ready: "jit_progress st obs \<Longrightarrow> jit_phase st = JuiceJITReady \<Longrightarrow> jit_progress st (obs @ [ob])"
  by (auto simp: jit_progress_def Let_def split: if_splits)

lemma jit_progress_step:
  assumes "jit_progress st obs" "live_obs (jit_deadlineMS st) ob" "jit_apply st ob = (st', act)"
  shows "jit_progress st' (obs @ [ob]) \<and>
    (obs_fg ob \<and> seen JuiceJITOpenAccepted (obs @ [ob]) \<and> seen JuiceJITDebugged (obs @ [ob]) \<and>
     seen JuiceJITRuntimeAck (obs @ [ob]) \<longrightarrow> jit_phase st' = JuiceJITReady)"
proof (cases "jit_phase st = JuiceJITReady")
  case True
  then have "st' = st"
    using assms(3) by (simp add: jit_apply_terminal jit_terminal_def)
  with True assms(1) show ?thesis by (simp only: jit_progress_ready simp_thms)
next
  case False
  then have pend: "JuiceJITPending (jit_phase st)"
    using assms(1) by (simp add: jit_progress_def Let_def)
  note ob' = jit_observe_progress [OF assms(1) pend assms(2)]
  show ?thesis
  proof (cases "obs_fg ob")
    case True
    with assms(3) have "st' = fst (jit_advance (jit_observe st (obs_event ob)))"
      by (simp add: jit_apply_live [OF pend assms(2)])
    with jit_advance_progress [OF conjunct1 [OF ob'] conjunct2 [OF ob']] show ?thesis by blast
  next
    case False
    with assms(3) have "st' = jit_observe st (obs_event ob)"
      by (simp add: jit_apply_live [OF pend assms(2)])
    with ob' False show ?thesis by simp
  qed
qed

lemma jit_session_progress:
  "jit_session deadline st obs acts \<Longrightarrow> list_all (live_obs deadline) obs \<Longrightarrow> jit_progress st obs"
proof (induction rule: jit_session.induct)
  case start
  show ?case by (simp add: jit_progress_def jit_start_def)
next
  case (step st obs acts ob st' act)
  have "jit_deadlineMS st = deadline"
    using jit_session_inv [OF step.hyps(1)] by (simp add: jit_hist_inv_def)
  with step jit_progress_step [of st obs ob st' act] show ?case by simp
qed

text \<open>The executable run of a list of observations is a session.\<close>

fun jit_run :: "jit_state \<Rightarrow> jit_obs list \<Rightarrow> jit_state \<times> jit_action list" where
  "jit_run st [] = (st, [])"
| "jit_run st (ob # obs) =
     (case jit_apply st ob of (st', act) \<Rightarrow> (case jit_run st' obs of (t, acts) \<Rightarrow> (t, act # acts)))"

lemma jit_run_session_from:
  "jit_session deadline st obs acts \<Longrightarrow> jit_run st obs' = (t, acts') \<Longrightarrow>
   jit_session deadline t (obs @ obs') (acts @ acts')"
proof (induction obs' arbitrary: st obs acts acts')
  case (Cons ob obs')
  obtain st1 act where a: "jit_apply st ob = (st1, act)" by fastforce
  obtain acts1 where r: "jit_run st1 obs' = (t, acts1)" "acts' = act # acts1"
    using Cons.prems(2) a by (auto split: prod.splits)
  have "jit_session deadline st1 (obs @ [ob]) (acts @ [act])"
    using jit_session.step [OF Cons.prems(1) a] .
  from Cons.IH [OF this r(1)] r(2) show ?case by simp
qed simp

lemma jit_run_session: "jit_run (jit_start deadline) obs = (t, acts) \<Longrightarrow> jit_session deadline t obs acts"
  using jit_run_session_from [OF jit_session.start] by force

definition sample_obs :: "jit_obs list" where
  "sample_obs = map (\<lambda>(e, t). \<lparr>obs_event = e, obs_now = t, obs_owns = True, obs_fg = True\<rparr>)
     [(JuiceJITDebugged, 2), (JuiceJITTick, 2), (JuiceJITOpenAccepted, 3), (JuiceJITRuntimeAck, 4)]"

lemma sample_run:
  "jit_run (jit_start 10) sample_obs =
     (\<lparr>jit_phase = JuiceJITReady, jit_deadlineMS = 10, jit_runtimeAcknowledged = True\<rparr>,
      [JuiceJITNoAction, JuiceJITNoAction, JuiceJITResume, JuiceJITNoAction])"
  by (simp add: sample_obs_def jit_start_def jit_step_defs jit_terminal_def)

inductive_cases jit_session_snocE: "jit_session deadline st (obs @ [ob]) acts"

section \<open>Properties\<close>







end
