(* ===== verification/Graphics_Policy.thy ===== *)
theory Graphics_Policy
  imports Juice_Prelude
begin

text \<open>
  \<^verbatim>\<open>wine/dlls/wineios.drv/graphics_policy.h\<close>: limits, memory budget, row layout and in-place
  pixel conversion for Metal surfaces that are read back and sent to the UIKit receiver.
  \<open>size_t\<close> values are 64-bit words.  The locale \<open>block_update\<close> is the contract of an in-place
  operation on one block of a buffer; the pixel and the row conversion are instances, which
  gives the effect of the nested loops.
\<close>

section \<open>Limits and budget\<close>

abbreviation JUICE_GRAPHICS_MAX_DIMENSION :: u64 where "JUICE_GRAPHICS_MAX_DIMENSION \<equiv> 8192"
abbreviation JUICE_GRAPHICS_MAX_PIXELS :: u64 where "JUICE_GRAPHICS_MAX_PIXELS \<equiv> 16777216"
abbreviation JUICE_GRAPHICS_MAX_BYTES :: u64 where "JUICE_GRAPHICS_MAX_BYTES \<equiv> 134217728"
abbreviation JUICE_GRAPHICS_TOTAL_BYTES :: u64 where "JUICE_GRAPHICS_TOTAL_BYTES \<equiv> 268435456"

definition juice_readback_budget_reserve :: "u64 option \<Rightarrow> u64 \<Rightarrow> bool \<times> u64 option" where
  "juice_readback_budget_reserve used bytes =
     (case used of None \<Rightarrow> (False, None) | Some u \<Rightarrow>
        if bytes = 0 \<or> bytes > JUICE_GRAPHICS_MAX_BYTES \<or> u > JUICE_GRAPHICS_TOTAL_BYTES \<or>
           bytes > JUICE_GRAPHICS_TOTAL_BYTES - u
        then (False, Some u) else (True, Some (u + bytes)))"

datatype juice_readback_format =
    JUICE_READBACK_UNSUPPORTED | JUICE_READBACK_BGRA8 | JUICE_READBACK_RGBA8
  | JUICE_READBACK_RGB10A2 | JUICE_READBACK_BGR10A2 | JUICE_READBACK_OTHER nat

record juice_readback_layout =
  lay_stride :: u64
  lay_bytes :: u64

definition juice_rect_extent :: "u32 \<Rightarrow> u32 \<Rightarrow> u64" where
  "juice_rect_extent begin end =
     (let extent = sint end - sint begin in if extent > 0 then word_of_int extent else 1)"

definition readback_layout :: "u64 \<Rightarrow> u64 \<Rightarrow> u64 \<Rightarrow> juice_readback_layout option \<Rightarrow> bool \<times> juice_readback_layout option" where
  "readback_layout width height alignment out =
     (case out of None \<Rightarrow> (False, None) | Some _ \<Rightarrow>
        let zero = \<lparr>lay_stride = 0, lay_bytes = 0\<rparr> in
        if width = 0 \<or> height = 0 \<or> width > JUICE_GRAPHICS_MAX_DIMENSION \<or>
           height > JUICE_GRAPHICS_MAX_DIMENSION \<or> width > JUICE_GRAPHICS_MAX_PIXELS div height \<or>
           alignment = 0 \<or> alignment AND (alignment - 1) \<noteq> 0 then (False, Some zero)
        else let row = width * 4 in
          if alignment - 1 > - 1 - row then (False, Some zero)
          else let stride = (row + alignment - 1) AND NOT (alignment - 1) in
            if stride > JUICE_GRAPHICS_MAX_BYTES div height then (False, Some zero)
            else (True, Some \<lparr>lay_stride = stride, lay_bytes = stride * height\<rparr>))"

section \<open>Pixel conversion\<close>

definition juice_unorm10_to_unorm8 :: "u32 \<Rightarrow> u8" where
  "juice_unorm10_to_unorm8 value = ucast ((value * 255 + 511) div 1023)"

definition packed_word :: "bytes \<Rightarrow> nat \<Rightarrow> u32" where
  "packed_word d p = (ucast (d ! p) :: u32) OR push_bit 8 (ucast (d ! (p + 1))) OR
     push_bit 16 (ucast (d ! (p + 2))) OR push_bit 24 (ucast (d ! (p + 3)))"

text \<open>The body of the inner loops: one pixel at byte offset \<open>p\<close>, in place.\<close>

definition bgra_pixel :: "juice_readback_format \<Rightarrow> bytes \<Rightarrow> nat \<Rightarrow> bytes" where
  "bgra_pixel format d p =
     (if format = JUICE_READBACK_RGBA8 then
        let r = d ! p in (d[p := d ! (p + 2)])[p + 2 := r]
      else if format = JUICE_READBACK_RGB10A2 \<or> format = JUICE_READBACK_BGR10A2 then
        let packed = packed_word d p;
            low = juice_unorm10_to_unorm8 (packed AND 1023);
            high = juice_unorm10_to_unorm8 (drop_bit 20 packed AND 1023);
            d0 = d[p := if format = JUICE_READBACK_RGB10A2 then high else low];
            d1 = d0[p + 1 := juice_unorm10_to_unorm8 (drop_bit 10 packed AND 1023)];
            d2 = d1[p + 2 := if format = JUICE_READBACK_RGB10A2 then low else high]
        in d2[p + 3 := ucast (drop_bit 30 packed * 85)]
      else d)"

definition zero_range :: "bytes \<Rightarrow> nat \<Rightarrow> nat \<Rightarrow> bytes" where
  "zero_range d off n = take off d @ replicate n 0 @ drop (off + n) d"

definition bgra_row :: "juice_readback_format \<Rightarrow> nat \<Rightarrow> nat \<Rightarrow> bytes \<Rightarrow> nat \<Rightarrow> bytes" where
  "bgra_row format width stride d row =
     zero_range (fold (\<lambda>x b. bgra_pixel format b (row + x * 4)) [0..<width] d)
       (row + width * 4) (stride - width * 4)"

fun format_supported :: "juice_readback_format \<Rightarrow> bool" where
  "format_supported JUICE_READBACK_UNSUPPORTED = False"
| "format_supported (JUICE_READBACK_OTHER _) = False"
| "format_supported _ = True"

definition juice_readback_to_bgra ::
  "bytes option \<Rightarrow> u64 \<Rightarrow> u64 \<Rightarrow> u64 \<Rightarrow> u64 \<Rightarrow> juice_readback_format \<Rightarrow> bool \<times> bytes option" where
  "juice_readback_to_bgra data capacity width height stride format =
     (case data of None \<Rightarrow> (False, None) | Some d \<Rightarrow>
        case readback_layout width height 1 (Some \<lparr>lay_stride = 0, lay_bytes = 0\<rparr>) of
          (False, _) \<Rightarrow> (False, Some d)
        | (True, None) \<Rightarrow> (False, Some d)
        | (True, Some tight) \<Rightarrow>
            if \<not> format_supported format \<or> stride < lay_stride tight \<or>
               stride > JUICE_GRAPHICS_MAX_BYTES div height \<or> stride > capacity div height
            then (False, Some d)
            else (True, Some (fold (\<lambda>y b. bgra_row format (unat width) (unat stride) b (y * unat stride))
                    [0..<unat height] d)))"

section \<open>In-place updates of disjoint blocks\<close>

locale block_update =
  fixes f :: "'a list \<Rightarrow> nat \<Rightarrow> 'a list" and w :: nat
  assumes f_length: "p + w \<le> length d \<Longrightarrow> length (f d p) = length d"
    and f_frame: "p + w \<le> length d \<Longrightarrow> i < length d \<Longrightarrow> i < p \<or> p + w \<le> i \<Longrightarrow> f d p ! i = d ! i"
    and f_local: "p + w \<le> length d \<Longrightarrow> length d' = length d \<Longrightarrow>
      (\<And>i. p \<le> i \<Longrightarrow> i < p + w \<Longrightarrow> d' ! i = d ! i) \<Longrightarrow> p \<le> i \<Longrightarrow> i < p + w \<Longrightarrow> f d' p ! i = f d p ! i"
begin

text \<open>Consecutive blocks \<open>off\<close>, \<open>off + w\<close>, \<open>...\<close>: each block is updated from its own old contents.\<close>

lemma fold_blocks:
  assumes "off + n * w \<le> length d"
  shows "length (fold (\<lambda>k b. f b (off + k * w)) [0..<n] d) = length d \<and>
    (\<forall>i < length d. fold (\<lambda>k b. f b (off + k * w)) [0..<n] d ! i =
       (if off \<le> i \<and> i < off + n * w then f d (off + ((i - off) div w) * w) ! i else d ! i))"
  using assms
proof (induction n)
  case 0
  then show ?case by auto
next
  case (Suc n)
  let ?e = "fold (\<lambda>k b. f b (off + k * w)) [0..<n] d" and ?p = "off + n * w"
  from Suc have len: "length ?e = length d" and fits: "?p + w \<le> length d"
    and old: "\<And>i. i < length d \<Longrightarrow> ?e ! i = (if off \<le> i \<and> i < off + n * w
        then f d (off + ((i - off) div w) * w) ! i else d ! i)"
    by auto
  have res: "fold (\<lambda>k b. f b (off + k * w)) [0..<Suc n] d = f ?e ?p"
    by simp
  have "f ?e ?p ! i = (if off \<le> i \<and> i < off + Suc n * w then f d (off + ((i - off) div w) * w) ! i else d ! i)"
    if i: "i < length d" for i
  proof (cases "?p \<le> i \<and> i < ?p + w")
    case True
    then have "i - off = n * w + (i - ?p)" "i - ?p < w" by auto
    then have "(i - off) div w = n"
      by (metis add.right_neutral div_less div_mult_self3 not_less_zero)
    moreover have "f ?e ?p ! i = f d ?p ! i"
      using True fits len old by (intro f_local) auto
    ultimately show ?thesis using True by (auto simp: add.commute)
  next
    case False
    then have "f ?e ?p ! i = ?e ! i"
      using i fits len by (intro f_frame) auto
    with False i old show ?thesis by auto
  qed
  with len fits show ?case by (simp only: res) (simp add: f_length)
qed

end

lemma bgra_pixel_length [simp]: "length (bgra_pixel format d p) = length d"
  by (simp add: bgra_pixel_def Let_def)

interpretation pixel: block_update "bgra_pixel format" 4 for format
proof
  fix p :: nat and d d' :: bytes and i :: nat
  show "length (bgra_pixel format d p) = length d"
    by simp
  show "bgra_pixel format d p ! i = d ! i" if "i < p \<or> p + 4 \<le> i"
    using that by (auto simp: bgra_pixel_def Let_def)
  assume d: "p + 4 \<le> length d" "length d' = length d"
    and eq: "\<And>j. p \<le> j \<Longrightarrow> j < p + 4 \<Longrightarrow> d' ! j = d ! j" and i: "p \<le> i" "i < p + 4"
  have "d' ! p = d ! p" "d' ! (p + 1) = d ! (p + 1)" "d' ! (p + 2) = d ! (p + 2)" "d' ! (p + 3) = d ! (p + 3)"
    by (rule eq; simp)+
  moreover from i have "i = p \<or> i = p + 1 \<or> i = p + 2 \<or> i = p + 3"
    by arith
  ultimately show "bgra_pixel format d' p ! i = bgra_pixel format d p ! i"
    using d by (auto simp: bgra_pixel_def packed_word_def Let_def nth_list_update)
qed

lemma zero_range_length [simp]: "off + n \<le> length d \<Longrightarrow> length (zero_range d off n) = length d"
  by (simp add: zero_range_def)

lemma zero_range_nth:
  "off + n \<le> length d \<Longrightarrow> i < length d \<Longrightarrow>
   zero_range d off n ! i = (if off \<le> i \<and> i < off + n then 0 else d ! i)"
  by (auto simp: zero_range_def nth_append)

lemma bgra_row_nth:
  assumes "row + stride \<le> length d" "width * 4 \<le> stride" "i < length d"
  shows "bgra_row format width stride d row ! i =
    (if row \<le> i \<and> i < row + width * 4 then bgra_pixel format d (row + ((i - row) div 4) * 4) ! i
     else if row + width * 4 \<le> i \<and> i < row + stride then 0 else d ! i)"
  using assms pixel.fold_blocks [of row width d format]
  by (auto simp: bgra_row_def zero_range_nth)

lemma bgra_row_length:
  "row + stride \<le> length d \<Longrightarrow> width * 4 \<le> stride \<Longrightarrow> length (bgra_row format width stride d row) = length d"
  using pixel.fold_blocks [of row width d format] by (simp add: bgra_row_def)

lemma row_block_update:
  assumes "width * 4 \<le> stride"
  shows "block_update (bgra_row format width stride) stride"
proof
  fix p :: nat and d d' :: bytes and i :: nat
  assume d: "p + stride \<le> length d"
  show "length (bgra_row format width stride d p) = length d"
    using d assms by (rule bgra_row_length)
  show "bgra_row format width stride d p ! i = d ! i" if "i < length d" "i < p \<or> p + stride \<le> i"
    using that d assms by (auto simp: bgra_row_nth)
  assume d': "length d' = length d" and eq: "\<And>j. p \<le> j \<Longrightarrow> j < p + stride \<Longrightarrow> d' ! j = d ! j"
    and i: "p \<le> i" "i < p + stride"
  have "bgra_pixel format d' (p + ((i - p) div 4) * 4) ! i = bgra_pixel format d (p + ((i - p) div 4) * 4) ! i"
    if "i < p + width * 4"
  proof -
    have "p + ((i - p) div 4) * 4 \<le> i" "i < p + ((i - p) div 4) * 4 + 4"
      using i(1) by linarith+
    moreover have "(i - p) div 4 < width" using that i by auto
    then have "((i - p) div 4) * 4 + 4 \<le> width * 4" by linarith
    then have "p + ((i - p) div 4) * 4 + 4 \<le> p + stride" using assms by linarith
    ultimately show ?thesis
      using d d' eq by (intro pixel.f_local) auto
  qed
  with d d' eq i assms show "bgra_row format width stride d' p ! i = bgra_row format width stride d p ! i"
    by (simp add: bgra_row_nth)
qed

section \<open>Row layout\<close>

lemma align_up_bounds:
  fixes r a :: nat
  assumes "a = 2 ^ k"
  defines "s \<equiv> (r + a - 1) - (r + a - 1) mod 2 ^ k"
  shows "r \<le> s" "s < r + a" "a dvd s"
proof -
  have a: "0 < a" using assms(1) by simp
  have s: "s = (r + a - 1) div a * a"
    unfolding s_def assms(1) by (simp add: minus_mod_eq_div_mult)
  then show "a dvd s" by simp
  have m: "(r + a - 1) mod a < a" using a by simp
  have "s + (r + a - 1) mod a = r + a - 1" unfolding s by simp
  with m a show "r \<le> s" "s < r + a" by linarith+
qed

lemma readback_layout_ok:
  assumes "readback_layout width height alignment (Some l0) = (True, Some l)"
  shows "0 < unat width" "unat width \<le> 8192" "0 < unat height" "unat height \<le> 8192"
    "unat width * unat height \<le> 16777216"
    "unat width * 4 \<le> unat (lay_stride l)" "unat (lay_stride l) < unat width * 4 + unat alignment"
    "unat alignment dvd unat (lay_stride l)"
    "unat (lay_bytes l) = unat (lay_stride l) * unat height" "unat (lay_bytes l) \<le> 134217728"
proof -
  define row where "row = width * 4"
  define stride where "stride = (row + alignment - 1) AND NOT (alignment - 1)"
  from assms have w: "width \<noteq> 0" "height \<noteq> 0" "width \<le> 8192" "height \<le> 8192"
      "width \<le> JUICE_GRAPHICS_MAX_PIXELS div height"
    and al: "alignment \<noteq> 0" "alignment AND (alignment - 1) = 0"
    and nov: "alignment - 1 \<le> - 1 - row"
    and sb: "stride \<le> JUICE_GRAPHICS_MAX_BYTES div height"
    and l: "l = \<lparr>lay_stride = stride, lay_bytes = stride * height\<rparr>"
    by (auto simp: readback_layout_def Let_def row_def stride_def not_less split: if_splits)
  show wh: "0 < unat width" "unat width \<le> 8192" "0 < unat height" "unat height \<le> 8192"
    using w by (auto simp: word_le_unat unat_gt_0)
  have pix: "unat width \<le> 16777216 div unat height"
    using w(5) by (simp add: word_le_unat unat_div)
  then show "unat width * unat height \<le> 16777216"
    by (meson div_times_less_eq_dividend le_trans mult_le_mono1)
  have row: "unat row = unat width * 4"
    unfolding row_def using wh by (subst unat_mult_noov) auto
  obtain k where k: "unat alignment = 2 ^ k" "alignment - 1 = mask k"
    using word_and_pred_pow2 [OF al(2,1)] by blast
  have "unat (alignment - 1) = unat alignment - 1"
    using al(1) by (rule unat_minus_one)
  moreover have "unat (- 1 - row) = 2 ^ 64 - 1 - unat row"
    by (simp add: unat_sub)
  moreover have "0 < unat alignment" using al(1) by (simp add: unat_gt_0)
  ultimately have fit: "unat row + unat alignment \<le> 2 ^ 64"
    using nov row wh by (simp add: word_le_unat)
  have sum: "unat (row + alignment - 1) = unat row + unat alignment - 1"
  proof -
    have "unat (row + (alignment - 1)) = unat row + unat (alignment - 1)"
      using fit \<open>unat (alignment - 1) = _\<close> \<open>0 < unat alignment\<close> by (intro unat_add_noov) simp
    then show ?thesis
      using \<open>unat (alignment - 1) = _\<close> \<open>0 < unat alignment\<close> by (simp add: add_diff_eq)
  qed
  have st: "unat stride = (unat row + unat alignment - 1) - (unat row + unat alignment - 1) mod 2 ^ k"
    unfolding stride_def k(2) unat_and_not_mask sum ..
  note al_bounds = align_up_bounds [OF k(1), of "unat row", folded st]
  show "unat width * 4 \<le> unat (lay_stride l)" "unat (lay_stride l) < unat width * 4 + unat alignment"
    "unat alignment dvd unat (lay_stride l)"
    using al_bounds by (simp_all add: l row)
  have "unat stride \<le> 134217728 div unat height"
    using sb by (simp add: word_le_unat unat_div)
  then have b: "unat stride * unat height \<le> 134217728"
    by (meson div_times_less_eq_dividend le_trans mult_le_mono1)
  then show "unat (lay_bytes l) = unat (lay_stride l) * unat height"
    by (simp add: l unat_mult_noov)
  with b show "unat (lay_bytes l) \<le> 134217728" by (simp add: l)
qed

text \<open>With alignment 1, as the software surfaces use it, the layout is the packed one.\<close>

definition surface_fits :: "u64 \<Rightarrow> u64 \<Rightarrow> bool" where
  "surface_fits width height \<longleftrightarrow> 0 < unat width \<and> unat width \<le> 8192 \<and> 0 < unat height \<and>
     unat height \<le> 8192 \<and> unat width * unat height \<le> 16777216"

lemma le_div_iff_mult_le: "0 < h \<Longrightarrow> w \<le> b div h \<longleftrightarrow> w * h \<le> b" for w h b :: nat
  by (metis div_greater_zero_iff less_eq_div_iff_mult_less_eq)

lemma surface_fits_iff:
  "surface_fits width height \<longleftrightarrow>
   \<not> (width = 0 \<or> height = 0 \<or> width > JUICE_GRAPHICS_MAX_DIMENSION \<or>
      height > JUICE_GRAPHICS_MAX_DIMENSION \<or> width > JUICE_GRAPHICS_MAX_PIXELS div height)"
proof (cases "height = 0")
  case False
  then have "0 < unat height" by (simp add: unat_gt_0)
  then show ?thesis
    by (auto simp: surface_fits_def not_less word_le_unat unat_div le_div_iff_mult_le unat_gt_0)
qed (simp add: surface_fits_def)

lemma readback_layout_packed:
  "readback_layout width height 1 (Some l0) =
     (if surface_fits width height
      then (True, Some \<lparr>lay_stride = width * 4, lay_bytes = width * 4 * height\<rparr>)
      else (False, Some \<lparr>lay_stride = 0, lay_bytes = 0\<rparr>))"
proof (cases "surface_fits width height")
  case True
  then have fits: "unat width \<le> 8192" "0 < unat height" "unat height \<le> 8192"
      "unat width * unat height \<le> 16777216"
    by (auto simp: surface_fits_def)
  have "unat (width * 4) = unat width * 4"
    using fits by (subst unat_mult_noov) auto
  moreover have "unat width * 4 * unat height \<le> 134217728"
    using fits(4) by linarith
  ultimately have "width * 4 \<le> JUICE_GRAPHICS_MAX_BYTES div height"
    using fits(2) by (simp add: word_le_unat unat_div le_div_iff_mult_le)
  with True show ?thesis
    by (simp add: readback_layout_def Let_def surface_fits_iff not_less)
next
  case False
  then show ?thesis by (auto simp: readback_layout_def Let_def surface_fits_iff)
qed

section \<open>Channel quantisation\<close>

lemma unat_unorm10:
  assumes "unat v \<le> 1023"
  shows "unat (juice_unorm10_to_unorm8 v) = (unat v * 255 + 511) div 1023"
proof -
  have "unat (v * 255 + 511) = unat v * 255 + 511"
    using assms by (subst unat_add_noov; subst unat_mult_noov) auto
  then have "unat ((v * 255 + 511) div 1023) = (unat v * 255 + 511) div 1023"
    by (simp add: unat_div)
  moreover have "(unat v * 255 + 511) div 1023 < 256"
    using assms by (simp add: div_less_iff_less_mult)
  ultimately show ?thesis
    by (simp add: juice_unorm10_to_unorm8_def unsigned_ucast_eq take_bit_eq_mod)
qed

section \<open>What one pixel becomes\<close>

text \<open>The intended conversion on channel values: order blue, green, red, alpha; ten-bit
  channels rounded to the nearest of 256 levels, two-bit alpha spread over 0, 85, 170, 255.\<close>

definition quant10 :: "nat \<Rightarrow> nat" where
  "quant10 v = (v * 255 + 511) div 1023"

definition pixel_value :: "nat list \<Rightarrow> nat" where
  "pixel_value q = q ! 0 + q ! 1 * 256 + q ! 2 * 65536 + q ! 3 * 16777216"

fun bgra_spec :: "juice_readback_format \<Rightarrow> nat list \<Rightarrow> nat list" where
  "bgra_spec JUICE_READBACK_RGBA8 q = [q ! 2, q ! 1, q ! 0, q ! 3]"
| "bgra_spec JUICE_READBACK_RGB10A2 q =
     (let n = pixel_value q in
      [quant10 (n div 2 ^ 20 mod 1024), quant10 (n div 2 ^ 10 mod 1024), quant10 (n mod 1024), n div 2 ^ 30 * 85])"
| "bgra_spec JUICE_READBACK_BGR10A2 q =
     (let n = pixel_value q in
      [quant10 (n mod 1024), quant10 (n div 2 ^ 10 mod 1024), quant10 (n div 2 ^ 20 mod 1024), n div 2 ^ 30 * 85])"
| "bgra_spec _ q = q"

definition pixel_at :: "bytes \<Rightarrow> nat \<Rightarrow> nat list" where
  "pixel_at d p = map (\<lambda>k. unat (d ! (p + k))) [0, 1, 2, 3]"

lemma pixel_at_cong:
  assumes "\<And>k. k < 4 \<Longrightarrow> d ! (p + k) = e ! (p + k)"
  shows "pixel_at d p = pixel_at e p"
  using assms [of 0] assms [of 1] assms [of 2] assms [of 3] by (simp add: pixel_at_def)

lemma unat_packed_word: "unat (packed_word d p) = pixel_value (pixel_at d p)"
proof -
  let ?b = "\<lambda>k. unat (d ! (p + k))"
  note b = unat_u8_lt [of "d ! p"] unat_u8_lt [of "d ! (p + 1)"]
    unat_u8_lt [of "d ! (p + 2)"] unat_u8_lt [of "d ! (p + 3)"]
  define w1 where "w1 = (ucast (d ! p) :: u32) OR push_bit 8 (ucast (d ! (p + 1)))"
  define w2 where "w2 = w1 OR push_bit 16 (ucast (d ! (p + 2)))"
  have w1: "unat w1 = unat (d ! p) + ?b 1 * 256"
    unfolding w1_def using b by (subst unat_or_push_bit) simp_all
  have w2: "unat w2 = unat (d ! p) + ?b 1 * 256 + ?b 2 * 65536"
    unfolding w2_def using b w1 by (subst unat_or_push_bit) simp_all
  have "unat (w2 OR push_bit 24 (ucast (d ! (p + 3)))) = unat w2 + ?b 3 * 16777216"
    using b w2 by (subst unat_or_push_bit) simp_all
  moreover have "packed_word d p = w2 OR push_bit 24 (ucast (d ! (p + 3)))"
    by (simp add: packed_word_def w1_def w2_def or.assoc)
  ultimately show ?thesis
    using w2 by (simp add: pixel_value_def pixel_at_def)
qed

lemma unorm_field: "unat (juice_unorm10_to_unorm8 (w AND 1023)) = quant10 (unat w mod 1024)"
proof -
  have "w AND 1023 = take_bit 10 w"
    by (simp add: take_bit_eq_mask mask_eq_exp_minus_1)
  then have "unat (w AND 1023) = unat w mod 1024"
    using unat_take_bit_mod [of 10 w] by simp
  moreover have "unat w mod 1024 \<le> 1023"
    using mod_less_divisor [of 1024 "unat w"] by linarith
  ultimately show ?thesis
    by (simp add: unat_unorm10 quant10_def)
qed

lemma unat_alpha: "unat (ucast (drop_bit 30 w * 85 :: u32) :: u8) = unat w div 2 ^ 30 * 85"
proof -
  have "unat w div 2 ^ 30 < 4"
    using unat_u32_lt [of w] by (simp add: div_less_iff_less_mult)
  moreover have "unat (drop_bit 30 w) = unat w div 2 ^ 30"
    by (rule unat_drop_bit_div)
  ultimately have "unat (drop_bit 30 w * 85) = unat w div 2 ^ 30 * 85" "unat w div 2 ^ 30 * 85 < 256"
    by (simp_all add: unat_mult_noov)
  then show ?thesis
    by (simp add: unsigned_ucast_eq take_bit_nat_eq_self)
qed

lemma bgra_pixel_spec:
  assumes "p + 4 \<le> length d" "format_supported format"
  shows "pixel_at (bgra_pixel format d p) p = bgra_spec format (pixel_at d p)"
  using assms
  by (cases format)
    (simp_all add: bgra_pixel_def pixel_at_def [of "list_update _ _ _"] Let_def
      unorm_field unat_drop_bit_div unat_alpha unat_packed_word pixel_at_def [of d p])

section \<open>The nested loops\<close>

lemma to_bgra_accepts:
  assumes "juice_readback_to_bgra (Some d) capacity width height stride format = (True, Some out)"
  shows "format_supported format" "surface_fits width height" "unat width * 4 \<le> unat stride"
    "unat stride * unat height \<le> unat capacity"
    "out = fold (\<lambda>y b. bgra_row format (unat width) (unat stride) b (y * unat stride)) [0..<unat height] d"
proof -
  have f: "surface_fits width height"
    and r: "format_supported format" "width * 4 \<le> stride" "stride \<le> capacity div height"
      "out = fold (\<lambda>y b. bgra_row format (unat width) (unat stride) b (y * unat stride)) [0..<unat height] d"
    using assms by (auto simp: juice_readback_to_bgra_def readback_layout_packed not_less split: if_splits)
  then have "unat (width * 4) = unat width * 4" "0 < unat height"
    by (auto simp: surface_fits_def unat_mult_noov)
  then show "format_supported format" "surface_fits width height" "unat width * 4 \<le> unat stride"
    "unat stride * unat height \<le> unat capacity"
    "out = fold (\<lambda>y b. bgra_row format (unat width) (unat stride) b (y * unat stride)) [0..<unat height] d"
    using f r by (simp_all add: word_le_unat unat_div le_div_iff_mult_le)
qed

lemma div_block: "c < s \<Longrightarrow> (y * s + c) div s = y" for c s y :: nat
  by (metis add.right_neutral div_less div_mult_self3 mult_0_right not_less_zero)

lemma fold_rows:
  assumes "4 * w \<le> s" "h * s \<le> length d"
  shows "length (fold (\<lambda>y b. bgra_row format w s b (y * s)) [0..<h] d) = length d"
    and "\<And>y c. y < h \<Longrightarrow> c < s \<Longrightarrow>
      fold (\<lambda>y b. bgra_row format w s b (y * s)) [0..<h] d ! (y * s + c) = bgra_row format w s d (y * s) ! (y * s + c)"
    and "\<And>i. h * s \<le> i \<Longrightarrow> i < length d \<Longrightarrow>
      fold (\<lambda>y b. bgra_row format w s b (y * s)) [0..<h] d ! i = d ! i"
proof -
  have "w * 4 \<le> s" using assms by simp
  from block_update.fold_blocks [OF row_block_update [OF this], of 0 h d format] assms(2)
  have all: "length (fold (\<lambda>y b. bgra_row format w s b (y * s)) [0..<h] d) = length d"
    and nth: "\<And>i. i < length d \<Longrightarrow> fold (\<lambda>y b. bgra_row format w s b (y * s)) [0..<h] d ! i =
       (if i < h * s then bgra_row format w s d ((i div s) * s) ! i else d ! i)"
    by simp_all
  show "length (fold (\<lambda>y b. bgra_row format w s b (y * s)) [0..<h] d) = length d" by (rule all)
  show "fold (\<lambda>y b. bgra_row format w s b (y * s)) [0..<h] d ! (y * s + c) = bgra_row format w s d (y * s) ! (y * s + c)"
    if "y < h" "c < s" for y c
  proof -
    have "y * s + s \<le> h * s" using that(1) by (metis Suc_leI add.commute mult_Suc mult_le_mono1)
    with that assms nth [of "y * s + c"] show ?thesis by (simp add: div_block)
  qed
  show "fold (\<lambda>y b. bgra_row format w s b (y * s)) [0..<h] d ! i = d ! i" if "h * s \<le> i" "i < length d" for i
    using nth that by simp
qed

lemma bgra_row_pixel:
  assumes "x < w" "w * 4 \<le> s" "p + s \<le> length d" "format_supported format"
  shows "pixel_at (bgra_row format w s d p) (p + 4 * x) = bgra_spec format (pixel_at d (p + 4 * x))"
proof -
  have "bgra_row format w s d p ! (p + 4 * x + k) = bgra_pixel format d (p + 4 * x) ! (p + 4 * x + k)" if "k < 4" for k
  proof -
    have "4 * x + k < w * 4" using assms(1) that by linarith
    moreover have "(4 * x + k) div 4 * 4 = 4 * x" using that by simp
    ultimately show ?thesis
      using assms(2,3) by (simp add: bgra_row_nth add.assoc mult.commute [of x 4])
  qed
  then have "pixel_at (bgra_row format w s d p) (p + 4 * x) = pixel_at (bgra_pixel format d (p + 4 * x)) (p + 4 * x)"
    by (rule pixel_at_cong)
  moreover have "p + 4 * x + 4 \<le> length d" using assms(1-3) by linarith
  ultimately show ?thesis
    using bgra_pixel_spec assms(4) by simp
qed

section \<open>Properties\<close>

text \<open>
  The readback budget never exceeds 256 MiB and is only changed by a successful
  reservation: for a tracked total within the limit, a request is granted exactly when it
  is nonzero, at most 128 MiB and fits the remainder, and then the total grows by it
  without wrap-around.
\<close>

theorem readback_budget_exact:
  assumes "unat used \<le> 268435456"
  shows "juice_readback_budget_reserve (Some used) bytes =
      (if 0 < unat bytes \<and> unat bytes \<le> 134217728 \<and> unat used + unat bytes \<le> 268435456
       then (True, Some (used + bytes)) else (False, Some used)) \<and>
    (\<forall>u. juice_readback_budget_reserve (Some used) bytes = (True, Some u) \<longrightarrow>
       unat u = unat used + unat bytes \<and> unat u \<le> 268435456)"
proof -
  have d: "unat (JUICE_GRAPHICS_TOTAL_BYTES - used) = 268435456 - unat used"
    using assms by (simp add: unat_sub word_le_unat)
  have eq: "juice_readback_budget_reserve (Some used) bytes =
      (if 0 < unat bytes \<and> unat bytes \<le> 134217728 \<and> unat used + unat bytes \<le> 268435456
       then (True, Some (used + bytes)) else (False, Some used))"
    using assms d by (auto simp: juice_readback_budget_reserve_def word_less_unat unat_gt_0)
  moreover have "unat (used + bytes) = unat used + unat bytes" if "unat used + unat bytes \<le> 268435456"
    using that by (intro unat_add_noov) simp
  ultimately show ?thesis by auto
qed

theorem readback_budget_exact_witness:
  "juice_readback_budget_reserve (Some 200000000) 60000000 = (True, Some 260000000) \<and>
   juice_readback_budget_reserve (Some 260000000) 60000000 = (False, Some 260000000)"
  using readback_budget_exact [of 200000000 60000000] readback_budget_exact [of 260000000 60000000]
  by simp

text \<open>
  C35: A row layout that \<open>juice_readback_layout\<close> grants lies within the receiver's limits, has
  a stride that is the least multiple of the power-of-two alignment not below four bytes per
  pixel (within one alignment), and its byte count is stride times height, computed without
  wrap-around and at most 128 MiB.
\<close>

theorem readback_layout_sound:
  assumes "readback_layout width height alignment (Some l0) = (True, Some l)"
  shows "surface_fits width height \<and> unat width * 4 \<le> unat (lay_stride l) \<and>
    unat (lay_stride l) < unat width * 4 + unat alignment \<and> unat alignment dvd unat (lay_stride l) \<and>
    unat (lay_bytes l) = unat (lay_stride l) * unat height \<and> unat (lay_bytes l) \<le> 134217728"
  using readback_layout_ok [OF assms] by (simp add: surface_fits_def)

theorem readback_layout_sound_witness:
  "\<exists>l. readback_layout 100 50 256 (Some \<lparr>lay_stride = 0, lay_bytes = 0\<rparr>) = (True, Some l) \<and>
     256 dvd unat (lay_stride l) \<and> unat (lay_bytes l) = 25600"
proof -
  obtain l where l: "readback_layout 100 50 256 (Some \<lparr>lay_stride = 0, lay_bytes = 0\<rparr>) = (True, Some l)"
      "lay_stride l = 512"
    by (simp add: readback_layout_def)
  from readback_layout_sound [OF l(1)] l show ?thesis by auto
qed



end
