(* ===== verification/Presentation_Policy.thy ===== *)
theory Presentation_Policy
  imports Juice_Prelude
begin

text \<open>
  The integer part of \<^verbatim>\<open>app/JuicePresentationPolicy.c\<close>: validation of a received frame's
  pixel layout, the frame-rate policy, and the pacing of CPU snapshots with the shared
  snapshot rate.  The two floating-point geometry functions of the file are not modelled.
\<close>

section \<open>Frame validation\<close>

definition JuicePixelLayoutValid :: "u32 \<Rightarrow> u32 \<Rightarrow> u32 \<Rightarrow> u64 \<Rightarrow> u64 option \<Rightarrow> bool \<times> u64 option" where
  "JuicePixelLayoutValid width height stride available required =
     (let zeroed = map_option (\<lambda>_. 0) required in
      if sint width \<le> 0 \<or> sint height \<le> 0 \<or> sint width > 8192 \<or> sint height > 8192 then (False, zeroed)
      else if (ucast width :: u64) * ucast height > 16777216 then (False, zeroed)
      else if (ucast stride :: u64) < ucast width * 4 then (False, zeroed)
      else let bytes = (ucast stride :: u64) * ucast height in
        if bytes > 134217728 \<or> bytes > available then (False, zeroed)
        else (True, map_option (\<lambda>_. bytes) required))"

section \<open>Frame rate\<close>

definition JuicePresentationFPS :: "u32 \<Rightarrow> u32 \<Rightarrow> u32 \<Rightarrow> bool \<Rightarrow> bool \<Rightarrow> u32" where
  "JuicePresentationFPS requested maximum thermal lowPower active =
     (if \<not> active then 0
      else let
        maximum = (if maximum = 0 \<or> maximum > 240 then 60 else maximum);
        fps = (if requested = 0 then (if maximum < 120 then maximum else 120)
               else if requested \<noteq> 15 \<and> requested \<noteq> 30 \<and> requested \<noteq> 60 \<and> requested \<noteq> 120 then 60
               else requested);
        fps = (if fps > maximum then maximum else fps);
        fps = (if (lowPower \<or> thermal \<ge> 2) \<and> fps > 30 then 30 else fps)
      in if thermal \<ge> 3 \<and> fps > 15 then 15 else fps)"

section \<open>Snapshot pacing\<close>

definition JuiceSnapshotDelay :: "u64 \<Rightarrow> u64 \<Rightarrow> u32 \<Rightarrow> u64" where
  "JuiceSnapshotDelay previous now fps =
     (if previous = 0 \<or> now < previous then 0
      else let
        fps = (if fps = 0 then 15 else fps);
        fps = (if fps > 240 then 240 else fps);
        interval = (1000000000 :: u64) div ucast fps;
        elapsed = now - previous
      in if elapsed \<ge> interval then 0 else interval - elapsed)"

text \<open>The process-wide snapshot rate, initially 60.\<close>

definition snapshotFPS_init :: u32 where
  "snapshotFPS_init = 60"

definition JuiceSetSnapshotFPS :: "u32 \<Rightarrow> u32 \<Rightarrow> u32" where
  "JuiceSetSnapshotFPS snapshotFPS fps = (if fps > 240 then 240 else fps)"

definition JuiceGetSnapshotFPS :: "u32 \<Rightarrow> u32" where
  "JuiceGetSnapshotFPS snapshotFPS = snapshotFPS"

section \<open>Lemmas\<close>

lemma unat_ucast_mult:
  assumes "unat (a :: u32) * unat (b :: u32) < 2 ^ 64"
  shows "unat ((ucast a :: u64) * ucast b) = unat a * unat b"
  using assms by (simp add: unat_mult_noov)

lemma u32_mult_fits: "unat (a :: u32) * unat (b :: u32) < 2 ^ 64"
proof -
  have "unat a * unat b < 4294967296 * 4294967296"
    using unat_u32_lt [of a] unat_u32_lt [of b] by (intro mult_strict_mono) auto
  then show ?thesis by simp
qed

lemma unat_ucast_times4: "unat ((ucast (a :: u32) :: u64) * 4) = unat a * 4"
  using unat_u32_lt [of a] by (simp add: unat_mult_noov)

definition frame_fits :: "nat \<Rightarrow> nat \<Rightarrow> nat \<Rightarrow> nat \<Rightarrow> bool" where
  "frame_fits width height stride available \<longleftrightarrow>
     0 < width \<and> width \<le> 8192 \<and> 0 < height \<and> height \<le> 8192 \<and> width * height \<le> 16777216 \<and>
     4 * width \<le> stride \<and> stride * height \<le> 134217728 \<and> stride * height \<le> available"

lemma sint_range_unat:
  "\<not> (sint (w :: u32) \<le> 0 \<or> sint w > 8192) \<longleftrightarrow> 0 < unat w \<and> unat w \<le> 8192"
proof
  assume "\<not> (sint w \<le> 0 \<or> sint w > 8192)"
  then have "0 < sint w" "sint w \<le> 8192" by simp_all
  moreover from this(1) have "sint w = int (unat w)" by (rule sint_u32_pos)
  ultimately show "0 < unat w \<and> unat w \<le> 8192" by linarith
next
  assume "0 < unat w \<and> unat w \<le> 8192"
  moreover from this have "sint w = int (unat w)" by (intro sint_u32_small) simp
  ultimately show "\<not> (sint w \<le> 0 \<or> sint w > 8192)" by linarith
qed

lemma pixel_layout_cases:
  "JuicePixelLayoutValid width height stride available required =
     (if frame_fits (unat width) (unat height) (unat stride) (unat available)
      then (True, map_option (\<lambda>_. ucast stride * ucast height) required)
      else (False, map_option (\<lambda>_. 0) required))"
proof -
  have m: "unat ((ucast width :: u64) * ucast height) = unat width * unat height"
      "unat ((ucast stride :: u64) * ucast height) = unat stride * unat height"
    by (rule unat_ucast_mult [OF u32_mult_fits])+
  note dims = sint_range_unat [of width] sint_range_unat [of height]
  show ?thesis
  proof (cases "sint width \<le> 0 \<or> sint height \<le> 0 \<or> sint width > 8192 \<or> sint height > 8192")
    case True
    with dims have "\<not> frame_fits (unat width) (unat height) (unat stride) (unat available)"
      by (auto simp: frame_fits_def)
    with True show ?thesis by (simp only: JuicePixelLayoutValid_def Let_def if_True if_False)
  next
    case False
    with dims have "0 < unat width \<and> unat width \<le> 8192 \<and> 0 < unat height \<and> unat height \<le> 8192" by blast
    then have "frame_fits (unat width) (unat height) (unat stride) (unat available) \<longleftrightarrow>
        \<not> (ucast width :: u64) * ucast height > 16777216 \<and> \<not> (ucast stride :: u64) < ucast width * 4 \<and>
        \<not> ((ucast stride :: u64) * ucast height > 134217728 \<or> ucast stride * ucast height > available)"
      by (auto simp: frame_fits_def word_less_unat m unat_ucast_times4)
    with False show ?thesis
      by (simp add: JuicePixelLayoutValid_def Let_def del: not_less)
  qed
qed

lemma snapshot_interval_bounds:
  "4166666 \<le> 1000000000 div (if unat (r :: u32) = 0 then 15 else min 240 (unat r)) \<and>
   1000000000 div (if unat r = 0 then 15 else min 240 (unat r)) \<le> (1000000000 :: nat)"
proof -
  have "(4166666 :: nat) \<le> 1000000000 div k" if "0 < k" "k \<le> 240" for k :: nat
    using div_le_mono2 [of k 240 1000000000] that by simp
  then show ?thesis by (simp add: min_def)
qed

lemma snapshot_delay_nat:
  assumes "previous \<noteq> 0" "previous \<le> now"
  shows "unat (JuiceSnapshotDelay previous now (JuiceGetSnapshotFPS (JuiceSetSnapshotFPS old r))) =
     1000000000 div (if unat r = 0 then 15 else min 240 (unat r)) - (unat now - unat previous)"
proof -
  define f where "f = (let r = (if r > 240 then 240 else r); r = (if r = 0 then 15 else r) in (if r > 240 then 240 else r))"
  have f: "unat f = (if unat r = 0 then 15 else min 240 (unat r))"
    by (auto simp: f_def Let_def word_less_unat unat_eq_0)
  have i: "unat ((1000000000 :: u64) div ucast f) = 1000000000 div unat f"
    by (simp add: unat_div)
  have e: "unat (now - previous) = unat now - unat previous"
    using assms(2) by (rule unat_sub)
  have "JuiceSnapshotDelay previous now (JuiceGetSnapshotFPS (JuiceSetSnapshotFPS old r)) =
     (if now - previous \<ge> 1000000000 div ucast f then 0 else 1000000000 div ucast f - (now - previous))"
    using assms by (simp only: JuiceSnapshotDelay_def JuiceGetSnapshotFPS_def JuiceSetSnapshotFPS_def f_def
        Let_def not_less [symmetric] if_False simp_thms)
  then show ?thesis
    by (simp add: word_le_unat i e f unat_sub del: not_le)
qed

section \<open>Properties\<close>

text \<open>
  C36: A received frame is accepted exactly when its dimensions, pixel count, stride and byte
  count are within the limits and the whole of it was received; the reported size is then
  the exact product, and every pixel of every row lies inside the received bytes.
\<close>

theorem pixel_layout_exact:
  "(fst (JuicePixelLayoutValid width height stride available (Some r)) \<longleftrightarrow>
      frame_fits (unat width) (unat height) (unat stride) (unat available)) \<and>
   (\<forall>n. JuicePixelLayoutValid width height stride available (Some r) = (True, Some n) \<longrightarrow>
      unat n = unat stride * unat height \<and>
      (\<forall>y x. y < unat height \<and> x < unat width \<longrightarrow> y * unat stride + 4 * x + 4 \<le> unat available))"
proof -
  have inside: "y * unat stride + 4 * x + 4 \<le> unat available"
    if "frame_fits (unat width) (unat height) (unat stride) (unat available)" "y < unat height" "x < unat width" for y x
  proof -
    have "Suc y * unat stride \<le> unat height * unat stride"
      using that(2) by (intro mult_le_mono1) simp
    with that show ?thesis by (simp add: frame_fits_def mult.commute)
  qed
  show ?thesis
    unfolding pixel_layout_cases
    using unat_ucast_mult [OF u32_mult_fits, of stride height] inside by (auto split: if_splits)
qed

theorem pixel_layout_exact_witness:
  "\<exists>n. JuicePixelLayoutValid 2 3 8 24 (Some 7) = (True, Some n) \<and> unat n = 24"
proof -
  obtain n where n: "JuicePixelLayoutValid 2 3 8 24 (Some 7) = (True, Some n)"
    by (simp add: pixel_layout_cases frame_fits_def)
  with pixel_layout_exact [of 2 3 8 24 7] show ?thesis by auto
qed



text \<open>
  Pacing of snapshots at the process-wide rate: whatever rate was set, after a snapshot
  at \<open>previous\<close> and a request at \<open>now\<close> not before it, waiting the returned delay ends at
  least one interval after \<open>previous\<close> and at most one interval after \<open>now\<close>; no delay is asked
  for when the interval has already passed, and the interval is between 1/240 and 1 second
  (a rate of zero is paced at 15).
\<close>

theorem snapshot_delay_paces:
  fixes previous now :: u64 and requested old :: u32
  assumes "previous \<noteq> 0" "previous \<le> now"
  defines "rate \<equiv> JuiceGetSnapshotFPS (JuiceSetSnapshotFPS old requested)"
  defines "interval \<equiv> 1000000000 div (if unat requested = 0 then 15 else min 240 (unat requested))"
  defines "delay \<equiv> unat (JuiceSnapshotDelay previous now rate)"
  shows "4166666 \<le> interval \<and> interval \<le> 1000000000 \<and>
         delay \<le> interval \<and> unat previous + interval \<le> unat now + delay \<and>
         (delay = 0 \<longleftrightarrow> unat previous + interval \<le> unat now)"
  using snapshot_delay_nat [OF assms(1,2), of old requested] snapshot_interval_bounds [of requested]
    assms(2)
  by (auto simp: rate_def interval_def delay_def word_le_unat)

theorem snapshot_delay_paces_witness:
  "unat (JuiceSnapshotDelay 1000 2000 (JuiceGetSnapshotFPS (JuiceSetSnapshotFPS 60 0))) \<le> 66666666 \<and>
   1000 + 66666666 \<le> 2000 + unat (JuiceSnapshotDelay 1000 2000 (JuiceGetSnapshotFPS (JuiceSetSnapshotFPS 60 0)))"
  using snapshot_delay_paces [of 1000 2000 0 60] by simp

end
