(* ===== verification/Byte_Stream.thy ===== *)
theory Byte_Stream
  imports Juice_Prelude
begin

text \<open>
  The transfer loops of the display driver, the control bridge and the app:
  \<^verbatim>\<open>write_all\<close>, \<^verbatim>\<open>read_all\<close> and \<^verbatim>\<open>writev_all\<close> of
  \<^verbatim>\<open>wine/dlls/wineios.drv/ipc.c\<close>, \<^verbatim>\<open>write_all\<close> of \<^verbatim>\<open>control.c\<close>,
  \<^verbatim>\<open>app/JuiceIO.c\<close> and \<^verbatim>\<open>app/JuiceSocketIO.h\<close>.

  The kernel is a script: the finite list of results its calls give, in order, each call
  taking the next.  A transfer of \<open>n\<close> bytes moves at most what was asked for (and at most
  what has arrived, when reading); a loop that needs another result when the script is over
  has not returned, which is the value \<open>Blocked\<close>.  The bytes that reached the peer are part
  of every result.  The locales \<open>exact_writer\<close> and \<open>exact_reader\<close> are the contracts the
  clients rely on; each of the loops is an instance.
\<close>

section \<open>Results\<close>

datatype io_result = Xfer nat | Eintr | Eagain | Efail

datatype 'e io_end = Done | Failed 'e | Blocked

section \<open>Contracts\<close>

locale exact_writer =
  fixes send :: "'os \<Rightarrow> bytes \<Rightarrow> 'e io_end \<times> bytes \<times> 'os"
  assumes send_done: "send os d = (Done, sent, os') \<Longrightarrow> sent = d"
    and send_prefix: "send os d = (e, sent, os') \<Longrightarrow> is_prefix sent d"
begin

primrec send_seq :: "'os \<Rightarrow> bytes list \<Rightarrow> 'e io_end \<times> bytes \<times> 'os" where
  "send_seq os [] = (Done, [], os)"
| "send_seq os (d # ds) =
     (case send os d of
        (Done, sent, os') \<Rightarrow> (case send_seq os' ds of (e, more, os'') \<Rightarrow> (e, sent @ more, os''))
      | (e, sent, os') \<Rightarrow> (e, sent, os'))"

lemma send_seq_done: "send_seq os ds = (Done, sent, os') \<Longrightarrow> sent = concat ds"
  by (induction ds arbitrary: os sent)
    (auto dest: send_done split: prod.splits io_end.splits)

lemma send_seq_prefix: "send_seq os ds = (e, sent, os') \<Longrightarrow> is_prefix sent (concat ds)"
proof (induction ds arbitrary: os sent)
  case Nil
  then show ?case by simp
next
  case (Cons d ds)
  obtain e1 s1 os1 where s: "send os d = (e1, s1, os1)" by (metis surj_pair)
  show ?case
  proof (cases "e1 = Done")
    case True
    with s have "s1 = d" by (auto dest: send_done)
    with True s Cons show ?thesis by (auto simp: is_prefix_append split: prod.splits)
  next
    case False
    with s Cons.prems have "sent = s1" by (auto split: io_end.splits)
    with send_prefix [OF s] show ?thesis by (simp add: is_prefix_appendI)
  qed
qed

end

locale exact_reader =
  fixes recv :: "'os \<Rightarrow> bytes \<Rightarrow> nat \<Rightarrow> 'e io_end \<times> bytes \<times> bytes \<times> 'os"
  assumes recv_split: "recv os inb n = (e, got, inb', os') \<Longrightarrow> inb = got @ inb'"
    and recv_bound: "recv os inb n = (e, got, inb', os') \<Longrightarrow> length got \<le> n"
    and recv_done: "recv os inb n = (Done, got, inb', os') \<Longrightarrow> length got = n"
begin

lemma recv_done_take:
  assumes "recv os inb n = (Done, got, inb', os')"
  shows "got = take n inb \<and> inb' = drop n inb \<and> n \<le> length inb"
  using recv_split [OF assms] recv_done [OF assms] by auto

lemma recv_short:
  assumes "recv os inb n = (e, got, inb', os')" "length inb < n"
  shows "e \<noteq> Done"
  using assms recv_done_take by fastforce

end

section \<open>The driver's blocking loops\<close>

function (sequential) write_all :: "io_result list \<Rightarrow> bytes \<Rightarrow> unit io_end \<times> bytes \<times> io_result list" where
  "write_all os [] = (Done, [], os)"
| "write_all [] data = (Blocked, [], [])"
| "write_all (r # os) data =
     (case r of
        Eintr \<Rightarrow> write_all os data
      | Xfer n \<Rightarrow>
          (let k = min n (length data) in
           if k = 0 then (Failed (), [], os)
           else case write_all os (drop k data) of (e, sent, os') \<Rightarrow> (e, take k data @ sent, os'))
      | _ \<Rightarrow> (Failed (), [], os))"
  by pat_completeness auto
termination by (relation "measure (\<lambda>(os, _). length os)") simp_all

function (sequential) read_all :: "io_result list \<Rightarrow> bytes \<Rightarrow> nat \<Rightarrow> unit io_end \<times> bytes \<times> bytes \<times> io_result list" where
  "read_all os inb 0 = (Done, [], inb, os)"
| "read_all [] inb (Suc m) = (Blocked, [], inb, [])"
| "read_all (r # os) inb (Suc m) =
     (case r of
        Eintr \<Rightarrow> read_all os inb (Suc m)
      | Xfer n \<Rightarrow>
          (let k = min n (min (Suc m) (length inb)) in
           if k = 0 then (Failed (), [], inb, os)
           else case read_all os (drop k inb) (Suc m - k) of
             (e, got, inb', os') \<Rightarrow> (e, take k inb @ got, inb', os'))
      | _ \<Rightarrow> (Failed (), [], inb, os))"
  by pat_completeness auto
termination by (relation "measure (\<lambda>(os, _). length os)") simp_all

text \<open>An equation without patterns on numbers, for evaluation.\<close>

lemma read_all_code [code]:
  "read_all os inb n =
     (if n = 0 then (Done, [], inb, os)
      else case os of
          [] \<Rightarrow> (Blocked, [], inb, [])
        | r # os \<Rightarrow>
            (case r of
               Eintr \<Rightarrow> read_all os inb n
             | Xfer k \<Rightarrow>
                 (let k = min k (min n (length inb)) in
                  if k = 0 then (Failed (), [], inb, os)
                  else case read_all os (drop k inb) (n - k) of
                    (e, got, inb', os') \<Rightarrow> (e, take k inb @ got, inb', os'))
             | _ \<Rightarrow> (Failed (), [], inb, os)))"
  by (cases n; cases os; hypsubst; simp split: io_result.splits)

text \<open>The inner loop of \<open>writev_all\<close>: skip the buffers written entirely, trim the next.\<close>

fun iov_advance :: "nat \<Rightarrow> bytes list \<Rightarrow> bytes list" where
  "iov_advance written [] = []"
| "iov_advance written (v # vs) =
     (if written \<ge> length v then iov_advance (written - length v) vs
      else if written \<noteq> 0 then drop written v # vs else v # vs)"

function (sequential) writev_all :: "io_result list \<Rightarrow> bytes list \<Rightarrow> unit io_end \<times> bytes \<times> io_result list" where
  "writev_all os [] = (Done, [], os)"
| "writev_all [] iov = (Blocked, [], [])"
| "writev_all (r # os) iov =
     (case r of
        Eintr \<Rightarrow> writev_all os iov
      | Xfer n \<Rightarrow>
          (let written = min n (length (concat iov)) in
           if written = 0 then (Failed (), [], os)
           else case writev_all os (iov_advance written iov) of
             (e, sent, os') \<Rightarrow> (e, take written (concat iov) @ sent, os'))
      | _ \<Rightarrow> (Failed (), [], os))"
  by pat_completeness auto
termination by (relation "measure (\<lambda>(os, _). length os)") simp_all

lemma concat_iov_advance: "concat (iov_advance w vs) = drop w (concat vs)"
  by (induction w vs rule: iov_advance.induct) auto

definition exact_sent :: "'e io_end \<Rightarrow> bytes \<Rightarrow> bytes \<Rightarrow> bool" where
  "exact_sent e sent d \<longleftrightarrow> is_prefix sent d \<and> (e = Done \<longrightarrow> sent = d)"

lemma exact_sent_Nil [simp]: "exact_sent e [] d \<longleftrightarrow> (e = Done \<longrightarrow> d = [])"
  by (auto simp: exact_sent_def)

lemma exact_sent_step: "exact_sent e s (drop k d) \<Longrightarrow> exact_sent e (take k d @ s) d"
  by (metis append_take_drop_id exact_sent_def is_prefix_append)

lemma write_all_exact: "write_all os d = (e, sent, os') \<Longrightarrow> exact_sent e sent d"
proof (induction os d arbitrary: sent os' rule: write_all.induct)
  case (3 r os v va)
  then show ?case
    by (cases r) (auto simp: Let_def split: if_splits prod.splits simp del: drop_Suc_Cons drop_append
        intro!: exact_sent_step)
qed auto

lemma writev_all_exact: "writev_all os iov = (e, sent, os') \<Longrightarrow> exact_sent e sent (concat iov)"
proof (induction os iov arbitrary: sent os' rule: writev_all.induct)
  case (3 r os v va)
  show ?case
  proof (cases r)
    case (Xfer n)
    define w where "w = min n (length (concat (v # va)))"
    show ?thesis
    proof (cases "w = 0")
      case True
      with "3.prems" Xfer show ?thesis by (auto simp: w_def Let_def)
    next
      case False
      obtain s o' where r: "writev_all os (iov_advance w (v # va)) = (e, s, o')"
          and s: "sent = take w (concat (v # va)) @ s"
        using "3.prems" Xfer False by (auto simp: w_def [symmetric] Let_def simp del: concat.simps
            split: prod.splits)
      have "exact_sent e s (concat (iov_advance w (v # va)))"
        by (rule "3.IH"(1) [OF Xfer w_def False r])
      then show ?thesis unfolding s concat_iov_advance by (rule exact_sent_step)
    qed
  qed (use 3 in auto)
qed auto

interpretation all_writer: exact_writer write_all
  by unfold_locales (drule write_all_exact, simp add: exact_sent_def)+

text \<open>Invariant of a reading loop.\<close>

definition exact_got :: "'e io_end \<Rightarrow> bytes \<Rightarrow> bytes \<Rightarrow> bytes \<Rightarrow> nat \<Rightarrow> bool" where
  "exact_got e inb got inb' n \<longleftrightarrow>
     inb = got @ inb' \<and> length got \<le> n \<and> (e = Done \<longrightarrow> length got = n)"

lemma exact_got_step:
  assumes "exact_got e (drop k inb) got inb' (n - k)" "k \<le> n" "k \<le> length inb"
  shows "exact_got e inb (take k inb @ got) inb' n"
proof -
  from assms(1) have "drop k inb = got @ inb'" by (simp add: exact_got_def)
  then have "inb = take k inb @ got @ inb'" by (metis append_take_drop_id)
  with assms show ?thesis by (auto simp: exact_got_def)
qed

lemma read_all_exact: "read_all os inb n = (e, got, inb', os') \<Longrightarrow> exact_got e inb got inb' n"
proof (induction os inb n arbitrary: got inb' os' rule: read_all.induct)
  case (3 r os inb m)
  show ?case
  proof (cases r)
    case (Xfer n)
    define k where "k = min n (min (Suc m) (length inb))"
    show ?thesis
    proof (cases "k = 0")
      case True
      with "3.prems" Xfer show ?thesis by (auto simp: k_def [symmetric] exact_got_def)
    next
      case False
      obtain g i o' where r: "read_all os (drop k inb) (Suc m - k) = (e, g, i, o')"
          and s: "got = take k inb @ g" "inb' = i"
        using "3.prems" Xfer False by (auto simp: k_def [symmetric] Let_def split: prod.splits)
      have "exact_got e (drop k inb) g i (Suc m - k)"
        by (rule "3.IH"(1) [OF Xfer k_def False r])
      then show ?thesis unfolding s by (rule exact_got_step) (auto simp: k_def)
    qed
  qed (use 3 in \<open>auto simp: exact_got_def\<close>)
qed (auto simp: exact_got_def)

interpretation all_reader: exact_reader read_all
  by unfold_locales (drule read_all_exact, simp add: exact_got_def)+

section \<open>Deadline-bounded loops of the app\<close>

text \<open>
  A clock reading is \<open>clock_gettime\<close>'s seconds and nanoseconds, or its failure; readings and
  deadlines are in milliseconds, as integers (the 64-bit range is far beyond any uptime).
\<close>

type_synonym timespec = "(int \<times> int) option"

definition monotonic_ms :: "timespec \<Rightarrow> int" where
  "monotonic_ms now = (case now of None \<Rightarrow> -1 | Some (sec, nsec) \<Rightarrow> sec * 1000 + nsec div 1000000)"

datatype errno = EINVAL | ECANCELED | ETIMEDOUT | EPIPE | EBADF | ECONNRESET | Errno_of_call

datatype poll_result = Poll_failed | Poll_interrupted | Poll_timeout | Poll_event bool

text \<open>
  What the environment does in one iteration of the loop: the cancellation flag, the clock,
  the result of the transfer, and after \<open>EAGAIN\<close> the clock again and the answer of \<open>poll\<close>
  to the requested wait (\<open>Poll_event nval\<close> is a positive result).
\<close>

record io_round =
  cancel_flag :: bool
  clock_before :: timespec
  transfer :: io_result
  clock_after :: timespec
  polled :: "int \<Rightarrow> poll_result"

text \<open>Waiting for readiness after \<open>EAGAIN\<close>: \<open>None\<close> means that the transfer is retried.\<close>

definition await_ready :: "int \<Rightarrow> int \<Rightarrow> io_round \<Rightarrow> errno option" where
  "await_ready deadline longest r =
     (let now = monotonic_ms (clock_after r) in
      if now < 0 then Some Errno_of_call
      else let remaining = deadline - now in
        if remaining \<le> 0 then Some ETIMEDOUT
        else case polled r (if remaining < longest then remaining else longest) of
            Poll_failed \<Rightarrow> Some Errno_of_call
          | Poll_event nval \<Rightarrow> if nval then Some EBADF else None
          | _ \<Rightarrow> None)"

text \<open>
  One iteration of either loop: it leaves with an error, or goes round again after moving
  some bytes (none after an interrupted call or a wait).
\<close>

datatype loop_body = Leave errno | Moved nat

definition write_round :: "int \<Rightarrow> bool \<Rightarrow> io_round \<Rightarrow> nat \<Rightarrow> loop_body" where
  "write_round deadline can_cancel r len =
     (if can_cancel \<and> cancel_flag r then Leave ECANCELED
      else let now = monotonic_ms (clock_before r) in
        if now < 0 then Leave Errno_of_call
        else if now \<ge> deadline then Leave ETIMEDOUT
        else case transfer r of
            Xfer n \<Rightarrow> if min n len > 0 then Moved (min n len) else Leave EPIPE
          | Eintr \<Rightarrow> Moved 0
          | Efail \<Rightarrow> Leave Errno_of_call
          | Eagain \<Rightarrow> (case await_ready deadline 25 r of Some e \<Rightarrow> Leave e | None \<Rightarrow> Moved 0))"

fun write_rounds :: "int \<Rightarrow> bool \<Rightarrow> io_round list \<Rightarrow> bytes \<Rightarrow> errno io_end \<times> bytes \<times> io_round list" where
  "write_rounds deadline can_cancel os [] = (Done, [], os)"
| "write_rounds deadline can_cancel [] (b # data) = (Blocked, [], [])"
| "write_rounds deadline can_cancel (r # os) (b # data) =
     (case write_round deadline can_cancel r (length (b # data)) of
        Leave e \<Rightarrow> (Failed e, [], os)
      | Moved k \<Rightarrow>
          (case write_rounds deadline can_cancel os (drop k (b # data)) of
             (e, sent, os') \<Rightarrow> (e, take k (b # data) @ sent, os')))"

definition O_NONBLOCK :: u32 where
  "O_NONBLOCK = 4"

text \<open>
  \<open>flags\<close> is what \<open>fcntl(fd, F_GETFL)\<close> gives, \<open>start\<close> the first clock reading, \<open>cancelled\<close>
  whether the caller passed a flag.  The rounds stand for \<open>send\<close> on a socket and \<open>write\<close>
  otherwise; the loop treats the two alike.
\<close>

definition JuiceWriteWithDeadline ::
  "u32 \<Rightarrow> bytes option \<Rightarrow> nat \<Rightarrow> u32 \<Rightarrow> bool \<Rightarrow> u32 \<Rightarrow> timespec \<Rightarrow> io_round list \<Rightarrow>
   errno io_end \<times> bytes \<times> io_round list" where
  "JuiceWriteWithDeadline fd data len timeout_ms cancelled flags start os =
     (if sint fd < 0 \<or> (data = None \<and> len \<noteq> 0) \<or> timeout_ms = 0 then (Failed EINVAL, [], os)
      else if sint flags < 0 then (Failed Errno_of_call, [], os)
      else if \<not> has_bits flags O_NONBLOCK then (Failed EINVAL, [], os)
      else if monotonic_ms start < 0 then (Failed Errno_of_call, [], os)
      else let deadline = monotonic_ms start + uint timeout_ms in
        write_rounds deadline cancelled os (case data of None \<Rightarrow> [] | Some bs \<Rightarrow> take len bs))"

definition SSIZE_MAX :: nat where
  "SSIZE_MAX = 9223372036854775807"

text \<open>
  The socket loop works on a buffer in either direction: writing sends the buffer's bytes,
  reading overwrites them with the peer's.
\<close>

definition socket_round :: "bool \<Rightarrow> int \<Rightarrow> io_round \<Rightarrow> nat \<Rightarrow> nat \<Rightarrow> loop_body" where
  "socket_round writing deadline r len arrived =
     (let now = monotonic_ms (clock_before r) in
      if now < 0 then Leave Errno_of_call
      else if now \<ge> deadline then Leave ETIMEDOUT
      else let chunk = (if len > SSIZE_MAX then SSIZE_MAX else len) in
        case transfer r of
          Xfer n \<Rightarrow>
            (let count = (if writing then min n chunk else min n (min chunk arrived)) in
             if count > 0 then Moved count else Leave (if writing then EPIPE else ECONNRESET))
        | Eintr \<Rightarrow> Moved 0
        | Efail \<Rightarrow> Leave Errno_of_call
        | Eagain \<Rightarrow> (case await_ready deadline 2147483647 r of Some e \<Rightarrow> Leave e | None \<Rightarrow> Moved 0))"

fun socket_rounds ::
  "bool \<Rightarrow> int \<Rightarrow> io_round list \<Rightarrow> bytes \<Rightarrow> bytes \<Rightarrow> errno io_end \<times> bytes \<times> bytes \<times> io_round list" where
  "socket_rounds writing deadline os [] inb = (Done, [], inb, os)"
| "socket_rounds writing deadline [] (b # buf) inb = (Blocked, [], inb, [])"
| "socket_rounds writing deadline (r # os) (b # buf) inb =
     (case socket_round writing deadline r (length (b # buf)) (length inb) of
        Leave e \<Rightarrow> (Failed e, [], inb, os)
      | Moved k \<Rightarrow>
          (case socket_rounds writing deadline os (drop k (b # buf)) (if writing then inb else drop k inb) of
             (e, moved, inb', os') \<Rightarrow>
               (e, take k (if writing then b # buf else inb) @ moved, inb', os')))"

definition JuiceSocketTransferUntil ::
  "u32 \<Rightarrow> bytes option \<Rightarrow> nat \<Rightarrow> bool \<Rightarrow> int \<Rightarrow> u32 \<Rightarrow> io_round list \<Rightarrow> bytes \<Rightarrow>
   errno io_end \<times> bytes \<times> bytes \<times> io_round list" where
  "JuiceSocketTransferUntil fd buffer len writing deadline flags os inb =
     (if sint fd < 0 \<or> (len \<noteq> 0 \<and> buffer = None) \<or> deadline < 0 then (Failed EINVAL, [], inb, os)
      else if sint flags < 0 then (Failed Errno_of_call, [], inb, os)
      else if \<not> has_bits flags O_NONBLOCK then (Failed EINVAL, [], inb, os)
      else socket_rounds writing deadline os (case buffer of None \<Rightarrow> [] | Some bs \<Rightarrow> take len bs) inb)"

section \<open>The deadline loops satisfy the contracts\<close>

lemma write_rounds_exact:
  "write_rounds deadline c os d = (e, sent, os') \<Longrightarrow> exact_sent e sent d"
proof (induction deadline c os d arbitrary: sent os' rule: write_rounds.induct)
  case (3 deadline c r os b d)
  then show ?case
    by (auto split: loop_body.splits prod.splits simp del: drop_Suc_Cons intro!: exact_sent_step)
qed auto

lemma socket_rounds_sent:
  "socket_rounds True deadline os d inb = (e, moved, inb', os') \<Longrightarrow> exact_sent e moved d \<and> inb' = inb"
proof (induction "True" deadline os d inb arbitrary: moved os' rule: socket_rounds.induct)
  case (3 deadline r os b d inb)
  then show ?case
    by (auto split: loop_body.splits prod.splits simp del: drop_Suc_Cons intro!: exact_sent_step)
qed auto

lemma socket_round_bound:
  "socket_round False deadline r len arrived = Moved k \<Longrightarrow> k \<le> len \<and> k \<le> arrived"
  by (auto simp: socket_round_def Let_def split: if_splits io_result.splits option.splits)

lemma socket_rounds_got:
  "socket_rounds False deadline os buf inb = (e, moved, inb', os') \<Longrightarrow>
   exact_got e inb moved inb' (length buf)"
proof (induction "False" deadline os buf inb arbitrary: moved inb' os' rule: socket_rounds.induct)
  case (3 deadline r os b buf inb)
  show ?case
  proof (cases "socket_round False deadline r (length (b # buf)) (length inb)")
    case (Leave err)
    with "3.prems" show ?thesis by (auto simp: exact_got_def)
  next
    case (Moved k)
    obtain e' g i o' where r: "socket_rounds False deadline os (drop k (b # buf)) (drop k inb) = (e', g, i, o')"
      by (rule prod_cases4)
    with "3.prems" Moved have s: "moved = take k inb @ g" "inb' = i" and e: "e' = e"
      by (simp_all del: drop_Suc_Cons)
    have "exact_got e (drop k inb) g i (length (drop k (b # buf)))"
      using "3.hyps" [OF Moved] r unfolding e if_False by blast
    with socket_round_bound [OF Moved] show ?thesis
      unfolding s by (intro exact_got_step) auto
  qed
qed (auto simp: exact_got_def)

interpretation deadline_writer: exact_writer "write_rounds deadline c"
  by unfold_locales (drule write_rounds_exact, simp add: exact_sent_def)+

interpretation socket_writer: exact_writer
  "\<lambda>os d. case socket_rounds True deadline os d [] of (e, moved, _, os') \<Rightarrow> (e, moved, os')"
  by unfold_locales (auto dest!: socket_rounds_sent simp: exact_sent_def split: prod.splits)

interpretation socket_reader: exact_reader
  "\<lambda>os inb n. socket_rounds False deadline os (replicate n 0) inb"
  by unfold_locales (drule socket_rounds_got, simp add: exact_got_def)+

text \<open>A loop that has not returned has always read a clock before the deadline.\<close>

lemma write_round_clock:
  "write_round deadline c r len = Moved k \<Longrightarrow> monotonic_ms (clock_before r) < deadline"
  by (auto simp: write_round_def Let_def split: if_splits)

lemma socket_round_clock:
  "socket_round w deadline r len n = Moved k \<Longrightarrow> monotonic_ms (clock_before r) < deadline"
  by (auto simp: socket_round_def Let_def split: if_splits)

lemma write_rounds_blocked:
  "write_rounds deadline c os d = (Blocked, sent, os') \<Longrightarrow>
   \<forall>r \<in> set os. monotonic_ms (clock_before r) < deadline"
  by (induction deadline c os d arbitrary: sent os' rule: write_rounds.induct)
    (auto split: loop_body.splits prod.splits dest: write_round_clock)

lemma socket_rounds_blocked:
  "socket_rounds w deadline os d inb = (Blocked, moved, inb', os') \<Longrightarrow>
   \<forall>r \<in> set os. monotonic_ms (clock_before r) < deadline"
  by (induction w deadline os d inb arbitrary: moved inb' os' rule: socket_rounds.induct)
    (auto split: loop_body.splits prod.splits dest: socket_round_clock)

text \<open>Enough transfers complete the loop: interruptions only delay it.\<close>

fun progress :: "io_result list \<Rightarrow> nat" where
  "progress [] = 0"
| "progress (Xfer n # os) = (if n = 0 then 0 else Suc (progress os))"
| "progress (Eintr # os) = progress os"
| "progress (_ # os) = 0"

lemma write_all_completes:
  "length d \<le> progress os \<Longrightarrow> \<exists>os'. write_all os d = (Done, d, os')"
proof (induction os arbitrary: d)
  case Nil
  then show ?case by simp
next
  case (Cons r os)
  show ?case
  proof (cases d)
    case (Cons b d')
    show ?thesis
    proof (cases r)
      case (Xfer n)
      define k where "k = min n (length d)"
      from Xfer Cons.prems \<open>d = b # d'\<close> have n: "0 < n" and "length d \<le> Suc (progress os)"
        by (auto split: if_splits)
      then have "length (drop k d) \<le> progress os" using \<open>d = b # d'\<close> by (auto simp: k_def)
      from Cons.IH [OF this] obtain os' where "write_all os (drop k d) = (Done, drop k d, os')" ..
      with n \<open>d = b # d'\<close> Xfer show ?thesis by (simp add: Let_def k_def)
    qed (use Cons.IH [of d] Cons.prems \<open>d = b # d'\<close> in auto)
  qed simp
qed

section \<open>Properties\<close>



text \<open>
  C24: A deadline-bounded write delivers the whole buffer when it reports success and a
  prefix of it otherwise, and it always returns once the clock has reached the deadline:
  a loop still running has only ever read clocks before it.
\<close>

theorem write_with_deadline_exact:
  assumes "JuiceWriteWithDeadline fd (Some bs) len timeout_ms cancelled flags start os = (e, sent, os')"
  shows "is_prefix sent (take len bs) \<and> (e = Done \<longrightarrow> sent = take len bs) \<and>
    (e = Blocked \<longrightarrow> (\<forall>r \<in> set os. monotonic_ms (clock_before r) < monotonic_ms start + uint timeout_ms))"
  using assms write_rounds_exact write_rounds_blocked
  by (auto simp: JuiceWriteWithDeadline_def Let_def exact_sent_def split: if_splits)

definition quiet_round :: "int \<Rightarrow> io_result \<Rightarrow> io_round" where
  "quiet_round ms r = \<lparr>cancel_flag = False, clock_before = Some (0, ms * 1000000), transfer = r,
     clock_after = Some (0, ms * 1000000), polled = (\<lambda>_. Poll_timeout)\<rparr>"

lemmas io_eval = JuiceWriteWithDeadline_def JuiceSocketTransferUntil_def quiet_round_def write_round_def
  socket_round_def await_ready_def monotonic_ms_def O_NONBLOCK_def has_bits_def SSIZE_MAX_def Let_def

theorem write_with_deadline_exact_witness:
  "JuiceWriteWithDeadline 3 (Some [1, 2, 3]) 3 10 True 4 (Some (0, 0))
     [quiet_round 1 (Xfer 2), quiet_round 2 Eagain, quiet_round 3 (Xfer 1)] = (Done, [1, 2, 3], [])
   \<and> is_prefix [1, 2, 3 :: u8] (take 3 [1, 2, 3])"
proof -
  have run: "JuiceWriteWithDeadline 3 (Some [1, 2, 3]) 3 10 True 4 (Some (0, 0))
     [quiet_round 1 (Xfer 2), quiet_round 2 Eagain, quiet_round 3 (Xfer 1)] = (Done, [1, 2, 3], [])"
    by (simp add: io_eval)
  with write_with_deadline_exact [OF run] show ?thesis by blast
qed

text \<open>
  C26: The socket loop in either direction: writing sends the buffer exactly as above and
  leaves the incoming stream alone; reading takes bytes off the stream in order, never more
  than asked, exactly that many on success; neither outlives its absolute deadline.
\<close>

theorem socket_transfer_exact:
  assumes "JuiceSocketTransferUntil fd (Some bs) len writing deadline flags os inb = (e, moved, inb', os')"
  shows "(writing \<longrightarrow> inb' = inb \<and> is_prefix moved (take len bs) \<and> (e = Done \<longrightarrow> moved = take len bs)) \<and>
    (\<not> writing \<longrightarrow> inb = moved @ inb' \<and> length moved \<le> min len (length bs) \<and>
       (e = Done \<longrightarrow> length moved = min len (length bs))) \<and>
    (e = Blocked \<longrightarrow> (\<forall>r \<in> set os. monotonic_ms (clock_before r) < deadline))"
proof (cases "e = Failed EINVAL \<and> moved = [] \<and> inb' = inb \<or> e = Failed Errno_of_call \<and> moved = [] \<and> inb' = inb")
  case True
  then show ?thesis by auto
next
  case False
  with assms have r: "socket_rounds writing deadline os (take len bs) inb = (e, moved, inb', os')"
    by (auto simp: JuiceSocketTransferUntil_def split: if_splits)
  show ?thesis
  proof (cases writing)
    case True
    with r have "exact_sent e moved (take len bs) \<and> inb' = inb" using socket_rounds_sent by simp
    with True socket_rounds_blocked [of writing deadline os "take len bs" inb moved inb' os'] r show ?thesis
      by (simp add: exact_sent_def)
  next
    case False
    with r have "socket_rounds False deadline os (take len bs) inb = (e, moved, inb', os')" by simp
    then have "exact_got e inb moved inb' (length (take len bs))" by (rule socket_rounds_got)
    with False socket_rounds_blocked [of writing deadline os "take len bs" inb moved inb' os'] r show ?thesis
      by (simp add: exact_got_def min.commute)
  qed
qed

theorem socket_transfer_exact_witness:
  "JuiceSocketTransferUntil 3 (Some [0, 0]) 2 False 50 4 [quiet_round 1 (Xfer 1), quiet_round 9 (Xfer 4)] [7, 8, 9]
     = (Done, [7, 8], [9], []) \<and> [7, 8, 9 :: u8] = [7, 8] @ [9]"
proof -
  have run: "JuiceSocketTransferUntil 3 (Some [0, 0]) 2 False 50 4
      [quiet_round 1 (Xfer 1), quiet_round 9 (Xfer 4)] [7, 8, 9] = (Done, [7, 8], [9], [])"
    by (simp add: io_eval)
  with socket_transfer_exact [OF run] show ?thesis by blast
qed

end
