(* ===== verification/Display_Wire.thy ===== *)
theory Display_Wire
  imports Byte_Stream
begin

text \<open>
  The display protocol between the Wine driver and the app, \<^verbatim>\<open>struct juice_ios_msg\<close> of
  \<^verbatim>\<open>wine/dlls/wineios.drv/ipc.h\<close> with its constants: the 48 bytes a message has in memory
  (four of them padding before the 64-bit field, kept as \<open>msg_pad\<close>) and the streams of
  messages, each followed by the payload its \<open>msg_size\<close> announces.
\<close>

section \<open>Integers in byte order\<close>

definition put32 :: "u32 \<Rightarrow> bytes" where
  "put32 w = [ucast w, ucast (drop_bit 8 w), ucast (drop_bit 16 w), ucast (drop_bit 24 w)]"

definition put64 :: "u64 \<Rightarrow> bytes" where
  "put64 w = put32 (ucast w) @ put32 (ucast (drop_bit 32 w))"

definition le64 :: "bytes \<Rightarrow> nat \<Rightarrow> u64" where
  "le64 bs i = ucast (le32 bs i) OR push_bit 32 (ucast (le32 bs (i + 4)))"

lemma length_put32 [simp]: "length (put32 w) = 4"
  by (simp add: put32_def)

lemma length_put64 [simp]: "length (put64 w) = 8"
  by (simp add: put64_def)

lemma join_bytes:
  "ucast (ucast (w :: u32) :: u8) OR push_bit 8 (ucast (ucast (drop_bit 8 w) :: u8)) =
   (ucast w :: u16)"
  by (rule bit_word_eqI) (auto simp: bit_simps)

lemma le32_bytes:
  "(ucast ((ucast (ucast w :: u8) OR push_bit 8 (ucast (ucast (drop_bit 8 w) :: u8))) :: u16) :: u32) OR
    push_bit 16 (ucast ((ucast (ucast (drop_bit 16 w) :: u8) OR
      push_bit 8 (ucast (ucast (drop_bit 24 w) :: u8))) :: u16)) = (w :: u32)"
proof -
  have "ucast (ucast (drop_bit 16 w) :: u8) OR push_bit 8 (ucast (ucast (drop_bit 24 w) :: u8)) =
      (ucast (drop_bit 16 w) :: u16)"
    using join_bytes [of "drop_bit 16 w"] by simp
  moreover have "(ucast (ucast w :: u16) :: u32) OR push_bit 16 (ucast (ucast (drop_bit 16 w) :: u16)) = w"
    by (rule bit_word_eqI) (auto simp: bit_simps)
  ultimately show ?thesis by (simp only: join_bytes)
qed

lemma le32_put32: "le32 (pre @ put32 w @ post) (length pre) = w"
  using le32_bytes [of w]
  by (simp add: le32_def le16_def byte_at_append put32_def byte_at_def nth_append)

lemma le32_put32_at: "i = length pre \<Longrightarrow> le32 (pre @ put32 w @ post) i = w"
  by (simp add: le32_put32)

lemma le64_halves:
  "(ucast (ucast w :: u32) :: u64) OR push_bit 32 (ucast (ucast (drop_bit 32 w) :: u32)) = (w :: u64)"
  by (rule bit_word_eqI) (auto simp: bit_simps)

lemma le64_put64_at: "i = length pre \<Longrightarrow> le64 (pre @ put64 w @ post) i = w"
  using le32_put32_at [of i pre "ucast w" "put32 (ucast (drop_bit 32 w)) @ post"]
    le32_put32_at [of "i + 4" "pre @ put32 (ucast w)" "ucast (drop_bit 32 w)" post]
  by (simp add: le64_def put64_def le64_halves)

section \<open>Messages\<close>

record juice_ios_msg =
  msg_magic :: u32
  msg_type :: u32
  msg_size :: u32
  msg_pad :: u32
  msg_hwnd :: u64
  msg_x :: u32
  msg_y :: u32
  msg_width :: u32
  msg_height :: u32
  msg_stride :: u32
  msg_flags :: u32

definition encode_msg :: "juice_ios_msg \<Rightarrow> bytes" where
  "encode_msg m = put32 (msg_magic m) @ put32 (msg_type m) @ put32 (msg_size m) @ put32 (msg_pad m) @
     put64 (msg_hwnd m) @ put32 (msg_x m) @ put32 (msg_y m) @ put32 (msg_width m) @
     put32 (msg_height m) @ put32 (msg_stride m) @ put32 (msg_flags m)"

definition decode_msg :: "bytes \<Rightarrow> juice_ios_msg" where
  "decode_msg bs = \<lparr>msg_magic = le32 bs 0, msg_type = le32 bs 4, msg_size = le32 bs 8,
     msg_pad = le32 bs 12, msg_hwnd = le64 bs 16, msg_x = le32 bs 24, msg_y = le32 bs 28,
     msg_width = le32 bs 32, msg_height = le32 bs 36, msg_stride = le32 bs 40, msg_flags = le32 bs 44\<rparr>"

definition MSG_BYTES :: nat where
  "MSG_BYTES = 48"

lemma length_encode_msg [simp]: "length (encode_msg m) = MSG_BYTES"
  by (simp add: encode_msg_def MSG_BYTES_def)

lemma decode_encode_append: "decode_msg (encode_msg m @ rest) = m"
proof -
  define a where "a = put32 (msg_magic m)"
  define b where "b = a @ put32 (msg_type m)"
  define c where "c = b @ put32 (msg_size m)"
  define d where "d = c @ put32 (msg_pad m)"
  define e where "e = d @ put64 (msg_hwnd m)"
  define f where "f = e @ put32 (msg_x m)"
  define g where "g = f @ put32 (msg_y m)"
  define h where "h = g @ put32 (msg_width m)"
  define i where "i = h @ put32 (msg_height m)"
  define j where "j = i @ put32 (msg_stride m)"
  note defs = a_def b_def c_def d_def e_def f_def g_def h_def i_def j_def
  have fields: "le32 (encode_msg m @ rest) 0 = msg_magic m" "le32 (encode_msg m @ rest) 4 = msg_type m"
      "le32 (encode_msg m @ rest) 8 = msg_size m" "le32 (encode_msg m @ rest) 12 = msg_pad m"
      "le64 (encode_msg m @ rest) 16 = msg_hwnd m" "le32 (encode_msg m @ rest) 24 = msg_x m"
      "le32 (encode_msg m @ rest) 28 = msg_y m" "le32 (encode_msg m @ rest) 32 = msg_width m"
      "le32 (encode_msg m @ rest) 36 = msg_height m" "le32 (encode_msg m @ rest) 40 = msg_stride m"
      "le32 (encode_msg m @ rest) 44 = msg_flags m"
    using le32_put32_at [of 0 "[]" "msg_magic m"] le32_put32_at [of 4 a "msg_type m"]
      le32_put32_at [of 8 b "msg_size m"] le32_put32_at [of 12 c "msg_pad m"]
      le64_put64_at [of 16 d "msg_hwnd m"] le32_put32_at [of 24 e "msg_x m"]
      le32_put32_at [of 28 f "msg_y m"] le32_put32_at [of 32 g "msg_width m"]
      le32_put32_at [of 36 h "msg_height m"] le32_put32_at [of 40 i "msg_stride m"]
      le32_put32_at [of 44 j "msg_flags m"]
    by (simp_all add: encode_msg_def defs)
  then show ?thesis by (simp add: decode_msg_def fields)
qed

lemma decode_encode: "decode_msg (encode_msg m) = m"
  using decode_encode_append [of m "[]"] by simp

section \<open>Protocol constants\<close>

definition JUICE_IOS_MAGIC :: u32 where [wire_simps]: "JUICE_IOS_MAGIC = 0x4a554943"
definition JUICE_IOS_HELLO :: u32 where [wire_simps]: "JUICE_IOS_HELLO = 1"
definition JUICE_IOS_WINDOW :: u32 where [wire_simps]: "JUICE_IOS_WINDOW = 3"
definition JUICE_IOS_DESTROY :: u32 where [wire_simps]: "JUICE_IOS_DESTROY = 4"
definition JUICE_IOS_FRAME :: u32 where [wire_simps]: "JUICE_IOS_FRAME = 5"
definition JUICE_IOS_INPUT :: u32 where [wire_simps]: "JUICE_IOS_INPUT = 100"
definition JUICE_IOS_TEXT :: u32 where [wire_simps]: "JUICE_IOS_TEXT = 101"
definition JUICE_IOS_KEY :: u32 where [wire_simps]: "JUICE_IOS_KEY = 102"
definition JUICE_IOS_HARDWARE_KEY :: u32 where [wire_simps]: "JUICE_IOS_HARDWARE_KEY = 103"
definition JUICE_IOS_LEFT_DOWN :: u32 where [wire_simps]: "JUICE_IOS_LEFT_DOWN = 1"
definition JUICE_IOS_LEFT_UP :: u32 where [wire_simps]: "JUICE_IOS_LEFT_UP = 2"
definition JUICE_IOS_RIGHT_DOWN :: u32 where [wire_simps]: "JUICE_IOS_RIGHT_DOWN = 4"
definition JUICE_IOS_RIGHT_UP :: u32 where [wire_simps]: "JUICE_IOS_RIGHT_UP = 8"
definition JUICE_IOS_WHEEL :: u32 where [wire_simps]: "JUICE_IOS_WHEEL = 0x10"
definition JUICE_IOS_HWHEEL :: u32 where [wire_simps]: "JUICE_IOS_HWHEEL = 0x20"
definition JUICE_IOS_COORDS_DESKTOP :: u32 where [wire_simps]: "JUICE_IOS_COORDS_DESKTOP = 0x40000000"
definition JUICE_IOS_FRAME_DIRTY :: u32 where [wire_simps]: "JUICE_IOS_FRAME_DIRTY = 0x20000000"
definition JUICE_IOS_KEY_DOWN :: u32 where [wire_simps]: "JUICE_IOS_KEY_DOWN = 1"
definition JUICE_IOS_KEY_UP :: u32 where [wire_simps]: "JUICE_IOS_KEY_UP = 2"
definition JUICE_IOS_KEY_EXTENDED :: u32 where [wire_simps]: "JUICE_IOS_KEY_EXTENDED = 4"

section \<open>Streams of messages\<close>

type_synonym packet = "juice_ios_msg \<times> bytes"

definition packet_ok :: "packet \<Rightarrow> bool" where
  "packet_ok p \<longleftrightarrow> unat (msg_size (fst p)) = length (snd p)"

definition packet_bytes :: "packet \<Rightarrow> bytes" where
  "packet_bytes p = encode_msg (fst p) @ snd p"

definition stream_bytes :: "packet list \<Rightarrow> bytes" where
  "stream_bytes ps = concat (map packet_bytes ps)"

text \<open>Cutting a stream back into packets, as a reader of the protocol does.\<close>

function split_stream :: "bytes \<Rightarrow> packet list \<times> bytes" where
  "split_stream bs =
     (if length bs < MSG_BYTES then ([], bs)
      else let m = decode_msg bs; n = MSG_BYTES + unat (msg_size m) in
        if length bs < n then ([], bs)
        else case split_stream (drop n bs) of
          (ps, rest) \<Rightarrow> ((m, take (unat (msg_size m)) (drop MSG_BYTES bs)) # ps, rest))"
  by pat_completeness auto
termination by (relation "measure length") (auto simp: MSG_BYTES_def)

declare split_stream.simps [simp del]

lemma stream_bytes_simps [simp]:
  "stream_bytes [] = []" "stream_bytes (p # ps) = packet_bytes p @ stream_bytes ps"
  "stream_bytes (ps @ qs) = stream_bytes ps @ stream_bytes qs"
  by (simp_all add: stream_bytes_def)

lemma split_packet:
  assumes "packet_ok p"
  shows "split_stream (packet_bytes p @ rest) = (p # fst (split_stream rest), snd (split_stream rest))"
  using assms
  by (subst split_stream.simps)
    (simp add: packet_bytes_def packet_ok_def decode_encode_append Let_def split: prod.split)

lemma split_stream_bytes:
  "\<forall>p \<in> set ps. packet_ok p \<Longrightarrow>
   split_stream (stream_bytes ps @ rest) = (ps @ fst (split_stream rest), snd (split_stream rest))"
  by (induction ps) (simp_all add: split_packet)

lemma split_stream_Nil [simp]: "split_stream [] = ([], [])"
  by (subst split_stream.simps) (simp add: MSG_BYTES_def)

end
