(* ===== verification/Ios_Ipc.thy ===== *)
theory Ios_Ipc
  imports Display_Wire "HOL-Library.Code_Target_Nat"
begin

text \<open>
  The sending side of the display transport, \<^verbatim>\<open>wine/dlls/wineios.drv/ipc.c\<close>: the connection
  with its generation counter, the table of windows whose complete framebuffer the receiver
  holds, and the messages for windows and frames.  The input side of the file is in
  \<open>Ios_Input\<close>.

  The state holds the file's static variables and what the kernel keeps for it: the bytes
  the peer of the open connection has been sent (\<open>wire\<close>), those of earlier connections
  (\<open>closed_wires\<close>), and the scripts of connection attempts, writes and allocations.  Each call
  is atomic: the code holds \<^verbatim>\<open>ipc_lock\<close> around every use of the connection.  \<open>None\<close> is a call
  that has not returned (its script of the kernel's answers is over).
\<close>

section \<open>State\<close>

datatype conn_result = No_socket | Refused | Accepted nat

datatype queue_result = Handle_failed | Request_failed | Registered

record RECT =
  rc_left :: u32
  rc_top :: u32
  rc_right :: u32
  rc_bottom :: u32

record ipc_state =
  ipc_fd :: int
  ipc_path :: string
  ipc_width :: u32
  ipc_height :: u32
  ipc_dpi :: u32
  ipc_generation :: u32
  surface_generations :: "(u64 \<times> u32) list"
  queue_generation :: "nat \<Rightarrow> u32"
  wire :: bytes
  closed_wires :: "bytes list"
  conn_script :: "conn_result list"
  write_script :: "io_result list"
  malloc_script :: "bool list"
  queue_script :: "queue_result list"
  own_pid :: u32
  stack_pad :: u32

definition ipc_start :: "conn_result list \<Rightarrow> io_result list \<Rightarrow> bool list \<Rightarrow> queue_result list \<Rightarrow> u32 \<Rightarrow> u32 \<Rightarrow> ipc_state" where
  "ipc_start conns writes mallocs queues pid pad =
     \<lparr>ipc_fd = -1, ipc_path = [], ipc_width = 1024, ipc_height = 768, ipc_dpi = 96,
      ipc_generation = 0, surface_generations = [], queue_generation = (\<lambda>_. 0), wire = [],
      closed_wires = [], conn_script = conns, write_script = writes, malloc_script = mallocs,
      queue_script = queues, own_pid = pid, stack_pad = pad\<rparr>"

section \<open>Writing to the connection\<close>

definition ipc_io :: "unit io_end \<times> bytes \<times> io_result list \<Rightarrow> ipc_state \<Rightarrow> (bool \<times> ipc_state) option" where
  "ipc_io r s = (case r of (e, sent, os) \<Rightarrow>
     let s' = s\<lparr>write_script := os, wire := wire s @ sent\<rparr> in
     case e of Done \<Rightarrow> Some (True, s') | Failed _ \<Rightarrow> Some (False, s') | Blocked \<Rightarrow> None)"

definition ipc_write :: "bytes \<Rightarrow> ipc_state \<Rightarrow> (bool \<times> ipc_state) option" where
  "ipc_write d s = ipc_io (write_all (write_script s) d) s"

definition ipc_writev :: "bytes list \<Rightarrow> ipc_state \<Rightarrow> (bool \<times> ipc_state) option" where
  "ipc_writev iov s = ipc_io (writev_all (write_script s) iov) s"

definition disconnect_ipc_locked :: "ipc_state \<Rightarrow> ipc_state" where
  "disconnect_ipc_locked s =
     (let s' = (if ipc_fd s \<ge> 0 then s\<lparr>wire := [], closed_wires := wire s # closed_wires s\<rparr> else s)
      in s'\<lparr>ipc_fd := -1\<rparr>)"

definition disconnect_ipc_fd :: "int \<Rightarrow> u32 \<Rightarrow> ipc_state \<Rightarrow> ipc_state" where
  "disconnect_ipc_fd fd generation s =
     (if ipc_fd s = fd \<and> ipc_generation s = generation then disconnect_ipc_locked s else s)"

section \<open>Windows whose framebuffer the receiver holds\<close>

definition surface_has_baseline_locked :: "u64 \<Rightarrow> ipc_state \<Rightarrow> bool" where
  "surface_has_baseline_locked hwnd s =
     (case map_of (surface_generations s) hwnd of None \<Rightarrow> False | Some g \<Rightarrow> g = ipc_generation s)"

fun set_entry :: "u64 \<Rightarrow> u32 \<Rightarrow> (u64 \<times> u32) list \<Rightarrow> (u64 \<times> u32) list option" where
  "set_entry hwnd g [] = None"
| "set_entry hwnd g ((h, g') # es) =
     (if h = hwnd then Some ((h, g) # es)
      else case set_entry hwnd g es of None \<Rightarrow> None | Some es' \<Rightarrow> Some ((h, g') # es'))"

fun drop_entry :: "u64 \<Rightarrow> (u64 \<times> u32) list \<Rightarrow> (u64 \<times> u32) list" where
  "drop_entry hwnd [] = []"
| "drop_entry hwnd ((h, g) # es) = (if h = hwnd then es else (h, g) # drop_entry hwnd es)"

definition mark_surface_baseline_locked :: "u64 \<Rightarrow> ipc_state \<Rightarrow> ipc_state" where
  "mark_surface_baseline_locked hwnd s =
     (case set_entry hwnd (ipc_generation s) (surface_generations s) of
        Some es \<Rightarrow> s\<lparr>surface_generations := es\<rparr>
      | None \<Rightarrow>
          let allocated = (case malloc_script s of [] \<Rightarrow> True | b # _ \<Rightarrow> b);
              s' = s\<lparr>malloc_script := tl (malloc_script s)\<rparr>
          in if allocated
             then s'\<lparr>surface_generations := (hwnd, ipc_generation s) # surface_generations s\<rparr>
             else s')"

definition forget_surface_locked :: "u64 \<Rightarrow> ipc_state \<Rightarrow> ipc_state" where
  "forget_surface_locked hwnd s = s\<lparr>surface_generations := drop_entry hwnd (surface_generations s)\<rparr>"

section \<open>Connecting\<close>

definition hello_msg :: "ipc_state \<Rightarrow> juice_ios_msg" where
  "hello_msg s = \<lparr>msg_magic = JUICE_IOS_MAGIC, msg_type = JUICE_IOS_HELLO, msg_size = 0, msg_pad = 0,
     msg_hwnd = 0, msg_x = 0, msg_y = 0, msg_width = ipc_width s, msg_height = ipc_height s,
     msg_stride = ipc_dpi s, msg_flags = own_pid s\<rparr>"

definition connect_ipc_locked :: "ipc_state \<Rightarrow> (bool \<times> ipc_state) option" where
  "connect_ipc_locked s =
     (if ipc_fd s \<ge> 0 then Some (True, s)
      else if ipc_path s = [] then Some (False, s)
      else case conn_script s of
          [] \<Rightarrow> None
        | c # cs \<Rightarrow>
            (let s = s\<lparr>conn_script := cs\<rparr> in
             case c of
               No_socket \<Rightarrow> Some (False, s)
             | Refused \<Rightarrow> Some (False, s)
             | Accepted fd \<Rightarrow>
                 (case write_all (write_script s) (encode_msg (hello_msg s)) of
                    (Blocked, sent, os) \<Rightarrow> None
                  | (Failed _, sent, os) \<Rightarrow>
                      Some (False, s\<lparr>write_script := os, closed_wires := sent # closed_wires s\<rparr>)
                  | (Done, sent, os) \<Rightarrow>
                      let g = ipc_generation s + 1; g = (if g = 0 then g + 1 else g) in
                      Some (True, s\<lparr>write_script := os, wire := sent, ipc_fd := int fd, ipc_generation := g\<rparr>))))"

section \<open>Registering the connection with the message queue\<close>

text \<open>The two lock sections of \<^verbatim>\<open>ios_ipc_register_queue\<close>, with the server request between them.\<close>

definition register_pending :: "nat \<Rightarrow> ipc_state \<Rightarrow> (int \<times> u32) option" where
  "register_pending tid s =
     (if ipc_fd s < 0 \<or> queue_generation s tid = ipc_generation s then None
      else Some (ipc_fd s, ipc_generation s))"

definition register_commit :: "nat \<Rightarrow> int \<Rightarrow> u32 \<Rightarrow> ipc_state \<Rightarrow> ipc_state" where
  "register_commit tid fd generation s =
     (if ipc_fd s = fd \<and> ipc_generation s = generation
      then s\<lparr>queue_generation := (queue_generation s)(tid := generation)\<rparr> else s)"

definition ios_ipc_register_queue :: "nat \<Rightarrow> ipc_state \<Rightarrow> ipc_state" where
  "ios_ipc_register_queue tid s =
     (case register_pending tid s of
        None \<Rightarrow> s
      | Some (fd, generation) \<Rightarrow>
          let s' = s\<lparr>queue_script := tl (queue_script s)\<rparr> in
          case (case queue_script s of [] \<Rightarrow> Registered | q # _ \<Rightarrow> q) of
            Handle_failed \<Rightarrow> s'
          | Request_failed \<Rightarrow> s'
          | Registered \<Rightarrow> register_commit tid fd generation s')"

section \<open>Messages without pixels\<close>

definition header_msg :: "u32 \<Rightarrow> u64 \<Rightarrow> RECT option \<Rightarrow> u32 \<Rightarrow> u32 \<Rightarrow> u32 \<Rightarrow> u32 \<Rightarrow> juice_ios_msg" where
  "header_msg type hwnd rect len stride flags pad =
     (let (x, y, w, h) = (case rect of None \<Rightarrow> (0, 0, 0, 0)
         | Some r \<Rightarrow> (rc_left r, rc_top r, rc_right r - rc_left r, rc_bottom r - rc_top r)) in
      \<lparr>msg_magic = JUICE_IOS_MAGIC, msg_type = type, msg_size = len, msg_pad = pad, msg_hwnd = hwnd,
       msg_x = x, msg_y = y, msg_width = w, msg_height = h, msg_stride = stride, msg_flags = flags\<rparr>)"

text \<open>Every caller of \<^verbatim>\<open>send_msg\<close> passes an empty payload.\<close>

definition send_msg ::
  "nat \<Rightarrow> u32 \<Rightarrow> u64 \<Rightarrow> RECT option \<Rightarrow> bytes \<Rightarrow> u32 \<Rightarrow> u32 \<Rightarrow> ipc_state \<Rightarrow> ipc_state option" where
  "send_msg tid type hwnd rect payload stride flags s =
     (let msg = header_msg type hwnd rect (of_nat (length payload)) stride flags (stack_pad s) in
      case connect_ipc_locked s of
        None \<Rightarrow> None
      | Some (False, s) \<Rightarrow> Some s
      | Some (True, s) \<Rightarrow>
          (case ipc_write (encode_msg msg) s of
             None \<Rightarrow> None
           | Some (False, s) \<Rightarrow> Some (disconnect_ipc_locked s)
           | Some (True, s) \<Rightarrow>
               if payload = [] then Some (ios_ipc_register_queue tid s)
               else case ipc_write payload s of
                   None \<Rightarrow> None
                 | Some (False, s) \<Rightarrow> Some (disconnect_ipc_locked s)
                 | Some (True, s) \<Rightarrow> Some (ios_ipc_register_queue tid s)))"

definition SUN_PATH :: nat where
  "SUN_PATH = 104"

definition ios_ipc_init :: "nat \<Rightarrow> string option \<Rightarrow> u32 \<Rightarrow> u32 \<Rightarrow> u32 \<Rightarrow> ipc_state \<Rightarrow> ipc_state option" where
  "ios_ipc_init tid path width height dpi s =
     (case path of None \<Rightarrow> Some s | Some p \<Rightarrow>
       if p = [] \<or> length p \<ge> SUN_PATH then Some s
       else case connect_ipc_locked (s\<lparr>ipc_path := p, ipc_width := width, ipc_height := height, ipc_dpi := dpi\<rparr>) of
           None \<Rightarrow> None
         | Some (connected, s) \<Rightarrow> Some (if connected then ios_ipc_register_queue tid s else s))"

definition ios_ipc_window :: "nat \<Rightarrow> u64 \<Rightarrow> RECT option \<Rightarrow> bool \<Rightarrow> ipc_state \<Rightarrow> ipc_state option" where
  "ios_ipc_window tid hwnd rect visible s =
     send_msg tid JUICE_IOS_WINDOW hwnd rect [] 0 (if visible then 1 else 0) s"

definition ios_ipc_destroy :: "nat \<Rightarrow> u64 \<Rightarrow> ipc_state \<Rightarrow> ipc_state option" where
  "ios_ipc_destroy tid hwnd s =
     map_option (forget_surface_locked hwnd) (send_msg tid JUICE_IOS_DESTROY hwnd None [] 0 0 s)"

section \<open>Frames\<close>

definition clip_dirty :: "u32 \<Rightarrow> u32 \<Rightarrow> RECT option \<Rightarrow> RECT" where
  "clip_dirty width height dirty =
     (let c = \<lparr>rc_left = 0, rc_top = 0, rc_right = width, rc_bottom = height\<rparr>;
          c = (case dirty of None \<Rightarrow> c | Some d \<Rightarrow>
            \<lparr>rc_left = (if sint (rc_left d) > sint (rc_left c) then rc_left d else rc_left c),
             rc_top = (if sint (rc_top d) > sint (rc_top c) then rc_top d else rc_top c),
             rc_right = (if sint (rc_right d) < sint (rc_right c) then rc_right d else rc_right c),
             rc_bottom = (if sint (rc_bottom d) < sint (rc_bottom c) then rc_bottom d else rc_bottom c)\<rparr>)
      in \<lparr>rc_left = (if sint (rc_left c) < 0 then 0 else rc_left c),
          rc_top = (if sint (rc_top c) < 0 then 0 else rc_top c),
          rc_right = (if sint (rc_right c) > sint width then width else rc_right c),
          rc_bottom = (if sint (rc_bottom c) > sint height then height else rc_bottom c)\<rparr>)"

definition dirty_rows :: "bytes \<Rightarrow> u32 \<Rightarrow> RECT \<Rightarrow> bytes list" where
  "dirty_rows source stride c =
     map (\<lambda>row. sub_list ((unat (rc_top c) + row) * unat stride + unat (rc_left c) * 4)
                 (unat (rc_right c - rc_left c) * 4) source)
       [0..<unat (rc_bottom c - rc_top c)]"

text \<open>The loop over batches of at most 64 rows.\<close>

function send_rows :: "bytes list \<Rightarrow> ipc_state \<Rightarrow> (bool \<times> ipc_state) option" where
  "send_rows rows s =
     (if rows = [] then Some (True, s)
      else case ipc_writev (take 64 rows) s of
          None \<Rightarrow> None
        | Some (False, s) \<Rightarrow> Some (False, s)
        | Some (True, s) \<Rightarrow> send_rows (drop 64 rows) s)"
  by pat_completeness auto
termination by (relation "measure (\<lambda>(rows, _). length rows)") auto

declare send_rows.simps [simp del]

definition dirty_msg :: "u64 \<Rightarrow> RECT \<Rightarrow> u32 \<Rightarrow> juice_ios_msg" where
  "dirty_msg hwnd c pad =
     (let w = rc_right c - rc_left c; h = rc_bottom c - rc_top c; row_bytes = unat w * 4 in
      \<lparr>msg_magic = JUICE_IOS_MAGIC, msg_type = JUICE_IOS_FRAME, msg_size = of_nat (row_bytes * unat h),
       msg_pad = pad, msg_hwnd = hwnd, msg_x = rc_left c, msg_y = rc_top c, msg_width = w,
       msg_height = h, msg_stride = of_nat row_bytes, msg_flags = JUICE_IOS_FRAME_DIRTY\<rparr>)"

definition full_msg :: "u64 \<Rightarrow> u32 \<Rightarrow> u32 \<Rightarrow> u32 \<Rightarrow> u32 \<Rightarrow> juice_ios_msg" where
  "full_msg hwnd width height stride pad =
     \<lparr>msg_magic = JUICE_IOS_MAGIC, msg_type = JUICE_IOS_FRAME, msg_size = of_nat (unat stride * unat height),
      msg_pad = pad, msg_hwnd = hwnd, msg_x = 0, msg_y = 0, msg_width = width, msg_height = height,
      msg_stride = stride, msg_flags = 0\<rparr>"

definition send_frame :: "juice_ios_msg \<Rightarrow> (ipc_state \<Rightarrow> (bool \<times> ipc_state) option) \<Rightarrow> ipc_state \<Rightarrow>
    (bool \<times> ipc_state) option" where
  "send_frame msg body s =
     (case ipc_write (encode_msg msg) s of
        None \<Rightarrow> None
      | Some (False, s) \<Rightarrow> Some (False, s)
      | Some (True, s) \<Rightarrow> body s)"

text \<open>The choice made under the lock: a packed dirty rectangle, or the complete framebuffer.\<close>

definition send_surface :: "u64 \<Rightarrow> bytes \<Rightarrow> u32 \<Rightarrow> u32 \<Rightarrow> u32 \<Rightarrow> RECT \<Rightarrow> ipc_state \<Rightarrow> (bool \<times> ipc_state) option" where
  "send_surface hwnd source width height stride c s =
     (let full_size = unat stride * unat height;
          dirty_width = rc_right c - rc_left c;
          dirty_height = rc_bottom c - rc_top c;
          payload_size = unat dirty_width * 4 * unat dirty_height;
          partial = (rc_left c \<noteq> 0 \<or> rc_top c \<noteq> 0 \<or> dirty_width \<noteq> width \<or> dirty_height \<noteq> height);
          partial = (if \<not> surface_has_baseline_locked hwnd s then False else partial)
      in if partial \<and> payload_size < full_size
         then send_frame (dirty_msg hwnd c (stack_pad s)) (send_rows (dirty_rows source stride c)) s
         else send_frame (full_msg hwnd width height stride (stack_pad s))
                (ipc_write (take full_size source)) s)"

definition ios_ipc_present ::
  "nat \<Rightarrow> u64 \<Rightarrow> bytes option \<Rightarrow> u32 \<Rightarrow> u32 \<Rightarrow> u32 \<Rightarrow> RECT option \<Rightarrow> ipc_state \<Rightarrow> ipc_state option" where
  "ios_ipc_present tid hwnd bits width height stride dirty s =
     (case bits of None \<Rightarrow> Some s | Some source \<Rightarrow>
      if width = 0 \<or> height = 0 \<or> stride < width * 4 then Some s
      else if unat stride * unat height > 4294967295 then Some s
      else let c = clip_dirty width height dirty in
      if sint (rc_right c) \<le> sint (rc_left c) \<or> sint (rc_bottom c) \<le> sint (rc_top c) then Some s
      else case connect_ipc_locked s of
          None \<Rightarrow> None
        | Some (False, s) \<Rightarrow> Some s
        | Some (True, s) \<Rightarrow>
            (case send_surface hwnd source width height stride c s of
               None \<Rightarrow> None
             | Some (True, s) \<Rightarrow> Some (ios_ipc_register_queue tid (mark_surface_baseline_locked hwnd s))
             | Some (False, s) \<Rightarrow> Some (disconnect_ipc_locked s)))"

section \<open>What reaches the peer\<close>

text \<open>\<open>writes d s r\<close>: the result \<open>r\<close> of sending \<open>d\<close> in state \<open>s\<close> changed nothing but the wire.\<close>

definition writes :: "bytes \<Rightarrow> ipc_state \<Rightarrow> bool \<times> ipc_state \<Rightarrow> bool" where
  "writes d s r \<longleftrightarrow> (\<exists>os sent. snd r = s\<lparr>write_script := os, wire := wire s @ sent\<rparr> \<and>
     is_prefix sent d \<and> (fst r \<longrightarrow> sent = d))"

lemma writesI:
  "\<lbrakk>s' = s\<lparr>write_script := os, wire := wire s @ sent\<rparr>; is_prefix sent d; b \<Longrightarrow> sent = d\<rbrakk> \<Longrightarrow> writes d s (b, s')"
  by (auto simp: writes_def)

lemma writesE:
  assumes "writes d s (b, s')"
  obtains os sent where "s' = s\<lparr>write_script := os, wire := wire s @ sent\<rparr>" "is_prefix sent d" "b \<longrightarrow> sent = d"
  using assms by (auto simp: writes_def)

lemma ipc_io_writes:
  assumes "\<And>e sent os. r = (e, sent, os) \<Longrightarrow> exact_sent e sent d" "ipc_io r s = Some (b, s')"
  shows "writes d s (b, s')"
proof -
  obtain e sent os where r: "r = (e, sent, os)" by (rule prod_cases3)
  from assms(1) [OF r] have x: "is_prefix sent d" "e = Done \<Longrightarrow> sent = d" by (simp_all add: exact_sent_def)
  from assms(2) r have "s' = s\<lparr>write_script := os, wire := wire s @ sent\<rparr>" "b \<Longrightarrow> e = Done"
    by (simp_all add: ipc_io_def Let_def split: io_end.splits)
  with x show ?thesis by (intro writesI [where os = os and sent = sent]) blast+
qed

lemma ipc_write_writes: "ipc_write d s = Some (b, s') \<Longrightarrow> writes d s (b, s')"
  unfolding ipc_write_def by (rule ipc_io_writes) (auto dest: write_all_exact)

lemma ipc_writev_writes: "ipc_writev iov s = Some (b, s') \<Longrightarrow> writes (concat iov) s (b, s')"
  unfolding ipc_writev_def by (rule ipc_io_writes) (auto dest: writev_all_exact)

lemma writes_seq:
  assumes "writes d s (True, s1)" "writes d' s1 (b, s2)"
  shows "writes (d @ d') s (b, s2)"
proof -
  from assms(1) obtain os sent1 where 1: "s1 = s\<lparr>write_script := os, wire := wire s @ sent1\<rparr>"
      and "is_prefix sent1 d" and d: "True \<longrightarrow> sent1 = d"
    by (rule writesE)
  from assms(2) obtain os' sent where 2: "s2 = s1\<lparr>write_script := os', wire := wire s1 @ sent\<rparr>"
      and 3: "is_prefix sent d'" "b \<longrightarrow> sent = d'"
    by (rule writesE)
  show ?thesis
  proof (rule writesI)
    show "s2 = s\<lparr>write_script := os', wire := wire s @ (d @ sent)\<rparr>" using d by (simp add: 1 2)
  qed (simp_all add: 3)
qed

lemma writes_stop:
  assumes "writes d s (False, s')"
  shows "writes (d @ d') s (False, s')"
proof -
  from assms obtain os sent where "s' = s\<lparr>write_script := os, wire := wire s @ sent\<rparr>" "is_prefix sent d"
    by (rule writesE)
  then show ?thesis by (rule writesI [OF _ is_prefix_appendI]) simp
qed

lemma writes_Nil: "writes [] s (True, s)"
  by (rule writesI [where os = "write_script s" and sent = "[]"]) auto

lemma send_rows_writes: "send_rows rows s = Some (b, s') \<Longrightarrow> writes (concat rows) s (b, s')"
proof (induction rows s rule: send_rows.induct)
  case (1 rows s)
  show ?case
  proof (cases "rows = []")
    case True
    with 1 show ?thesis by (simp add: send_rows.simps writes_Nil)
  next
    case False
    with "1.prems" obtain ok s1 where w: "ipc_writev (take 64 rows) s = Some (ok, s1)"
      by (subst (asm) send_rows.simps) (auto split: option.splits)
    have split: "concat rows = concat (take 64 rows) @ concat (drop 64 rows)"
      by (metis append_take_drop_id concat_append)
    show ?thesis
    proof (cases ok)
      case True
      with w False "1.prems" have "send_rows (drop 64 rows) s1 = Some (b, s')"
        by (subst (asm) send_rows.simps) simp
      then have ih: "writes (concat (drop 64 rows)) s1 (b, s')"
        using True by (intro "1.IH" [OF False w refl]) simp_all
      show ?thesis
        unfolding split using ipc_writev_writes [OF w] True by (intro writes_seq [OF _ ih]) simp
    next
      case fail: False
      with w False "1.prems" have "b = False" "s' = s1"
        by (subst (asm) send_rows.simps, simp)+
      with ipc_writev_writes [OF w] fail show ?thesis unfolding split by (simp add: writes_stop)
    qed
  qed
qed

lemma send_frame_writes:
  assumes "send_frame msg body s = Some (b, s')"
    and "\<And>s b s'. body s = Some (b, s') \<Longrightarrow> writes d s (b, s')"
  shows "writes (packet_bytes (msg, d)) s (b, s')"
proof -
  from assms(1) obtain ok s1 where w: "ipc_write (encode_msg msg) s = Some (ok, s1)"
    by (auto simp: send_frame_def split: option.splits)
  show ?thesis
  proof (cases ok)
    case True
    with w assms(1) have "body s1 = Some (b, s')" by (simp add: send_frame_def)
    then have body: "writes d s1 (b, s')" by (rule assms(2))
    from ipc_write_writes [OF w] True have "writes (encode_msg msg @ d) s (b, s')"
      by (intro writes_seq [OF _ body]) simp
    then show ?thesis by (simp add: packet_bytes_def)
  next
    case False
    with w assms(1) have "b = False" "s' = s1" by (simp_all add: send_frame_def)
    with ipc_write_writes [OF w] False show ?thesis by (simp add: packet_bytes_def writes_stop)
  qed
qed

section \<open>The protocol a receiver relies on\<close>

definition is_dirty :: "juice_ios_msg \<Rightarrow> bool" where
  "is_dirty m \<longleftrightarrow> msg_type m = JUICE_IOS_FRAME \<and> has_bits (msg_flags m) JUICE_IOS_FRAME_DIRTY"

text \<open>The windows of which a receiver holds a complete framebuffer.\<close>

definition learn :: "packet \<Rightarrow> u64 set \<Rightarrow> u64 set" where
  "learn p K = (if msg_type (fst p) = JUICE_IOS_DESTROY then K - {msg_hwnd (fst p)}
     else if msg_type (fst p) = JUICE_IOS_FRAME \<and> \<not> is_dirty (fst p) then insert (msg_hwnd (fst p)) K
     else K)"

fun known :: "u64 set \<Rightarrow> packet list \<Rightarrow> u64 set" where
  "known K [] = K"
| "known K (p # ps) = known (learn p K) ps"

fun baselined :: "u64 set \<Rightarrow> packet list \<Rightarrow> bool" where
  "baselined K [] = True"
| "baselined K (p # ps) \<longleftrightarrow> (is_dirty (fst p) \<longrightarrow> msg_hwnd (fst p) \<in> K) \<and> baselined (learn p K) ps"

lemma known_append [simp]: "known K (ps @ qs) = known (known K ps) qs"
  by (induction ps arbitrary: K) auto

lemma baselined_append [simp]: "baselined K (ps @ qs) \<longleftrightarrow> baselined K ps \<and> baselined (known K ps) qs"
  by (induction ps arbitrary: K) auto

definition good_stream :: "packet list \<Rightarrow> bool" where
  "good_stream ps \<longleftrightarrow> ps \<noteq> [] \<and> msg_type (fst (hd ps)) = JUICE_IOS_HELLO \<and>
     (\<forall>p \<in> set ps. packet_ok p \<and> msg_magic (fst p) = JUICE_IOS_MAGIC) \<and> baselined {} ps"

lemma good_stream_snoc:
  "good_stream ps \<Longrightarrow> good_stream (ps @ [p]) \<longleftrightarrow>
   packet_ok p \<and> msg_magic (fst p) = JUICE_IOS_MAGIC \<and> (is_dirty (fst p) \<longrightarrow> msg_hwnd (fst p) \<in> known {} ps)"
  by (auto simp: good_stream_def hd_append)

section \<open>Invariant\<close>

text \<open>
  Excluding the windows in \<open>X\<close> (a window between its DESTROY message and its removal from
  the table), a window with a baseline in the current generation is known to the receiver.
  The last conjunct bounds the connection attempts so that generations are never reused.
\<close>

definition entries_ok :: "ipc_state \<Rightarrow> bool" where
  "entries_ok s \<longleftrightarrow> distinct (map fst (surface_generations s)) \<and>
     (\<forall>e \<in> set (surface_generations s). snd e \<le> ipc_generation s) \<and>
     unat (ipc_generation s) + length (conn_script s) < 2 ^ 32"

definition wire_ok :: "u64 set \<Rightarrow> ipc_state \<Rightarrow> bool" where
  "wire_ok X s \<longleftrightarrow>
     (if ipc_fd s \<ge> 0
      then \<exists>ps. wire s = stream_bytes ps \<and> good_stream ps \<and>
        (\<forall>h. h \<notin> X \<and> surface_has_baseline_locked h s \<longrightarrow> h \<in> known {} ps)
      else wire s = [])"

definition closed_ok :: "ipc_state \<Rightarrow> bool" where
  "closed_ok s \<longleftrightarrow> (\<forall>w \<in> set (closed_wires s). \<exists>ps. good_stream ps \<and> is_prefix w (stream_bytes ps))"

definition ipc_inv :: "u64 set \<Rightarrow> ipc_state \<Rightarrow> bool" where
  "ipc_inv X s \<longleftrightarrow> entries_ok s \<and> wire_ok X s \<and> closed_ok s"

lemma ipc_invI:
  assumes "entries_ok s" "closed_ok s" "ipc_fd s \<ge> 0" "wire s = stream_bytes ps" "good_stream ps"
    "\<And>h. h \<notin> X \<Longrightarrow> surface_has_baseline_locked h s \<Longrightarrow> h \<in> known {} ps"
  shows "ipc_inv X s"
  unfolding ipc_inv_def wire_ok_def using assms by auto

lemma ipc_inv_weaken: "ipc_inv {} s \<Longrightarrow> ipc_inv X s"
  unfolding ipc_inv_def wire_ok_def by (cases "ipc_fd s \<ge> 0") (simp_all, blast)

lemma ipc_inv_cong:
  assumes "ipc_inv X s" "ipc_fd s' = ipc_fd s" "wire s' = wire s" "closed_wires s' = closed_wires s"
    "ipc_generation s' = ipc_generation s" "surface_generations s' = surface_generations s"
    "conn_script s' = conn_script s"
  shows "ipc_inv X s'"
proof -
  have "surface_has_baseline_locked h s' = surface_has_baseline_locked h s" for h
    using assms(5,6) by (simp add: surface_has_baseline_locked_def cong: option.case_cong)
  with assms show ?thesis by (simp add: ipc_inv_def wire_ok_def closed_ok_def entries_ok_def)
qed

lemma register_queue_frame:
  "ipc_fd (ios_ipc_register_queue tid s) = ipc_fd s" "wire (ios_ipc_register_queue tid s) = wire s"
  "closed_wires (ios_ipc_register_queue tid s) = closed_wires s"
  "ipc_generation (ios_ipc_register_queue tid s) = ipc_generation s"
  "surface_generations (ios_ipc_register_queue tid s) = surface_generations s"
  "conn_script (ios_ipc_register_queue tid s) = conn_script s"
  by (simp_all add: ios_ipc_register_queue_def register_commit_def Let_def
      split: option.splits prod.splits queue_result.splits)

lemma register_queue_inv: "ipc_inv X s \<Longrightarrow> ipc_inv X (ios_ipc_register_queue tid s)"
  by (rule ipc_inv_cong) (simp_all add: register_queue_frame)

lemma good_hello: "good_stream [(hello_msg s, [])]"
  by (simp add: good_stream_def hello_msg_def packet_ok_def is_dirty_def wire_simps)

lemma hello_bytes: "packet_bytes (hello_msg s, []) = encode_msg (hello_msg s)"
  by (simp add: packet_bytes_def)

lemma next_generation:
  assumes "entries_ok s" "conn_script s = c # cs"
  shows "unat (ipc_generation s + 1) = Suc (unat (ipc_generation s)) \<and> ipc_generation s + 1 \<noteq> 0"
proof -
  have "unat (ipc_generation s + 1) = Suc (unat (ipc_generation s))"
    using assms by (subst unat_add_noov) (auto simp: entries_ok_def)
  then show ?thesis by (metis Zero_not_Suc unat_0)
qed

text \<open>The outcomes of a connection attempt.\<close>

lemma connect_cases:
  assumes "connect_ipc_locked s = Some (b, s')"
  obtains
    (kept) "ipc_fd s \<ge> 0" "b" "s' = s"
  | (unset) "ipc_fd s < 0" "\<not> b" "s' = s"
  | (refused) c cs where "ipc_fd s < 0" "\<not> b" "conn_script s = c # cs" "s' = s\<lparr>conn_script := cs\<rparr>"
  | (broken) c cs os sent where "ipc_fd s < 0" "\<not> b" "conn_script s = c # cs"
      "is_prefix sent (encode_msg (hello_msg s))"
      "s' = s\<lparr>conn_script := cs, write_script := os, closed_wires := sent # closed_wires s\<rparr>"
  | (opened) c cs os fd g where "ipc_fd s < 0" "b" "conn_script s = c # cs"
      "g = (let g = ipc_generation s + 1 in if g = 0 then g + 1 else g)"
      "s' = s\<lparr>conn_script := cs, write_script := os, wire := encode_msg (hello_msg s), ipc_fd := int fd,
         ipc_generation := g\<rparr>"
proof (cases "ipc_fd s \<ge> 0 \<or> ipc_path s = []")
  case True
  with assms kept unset show ?thesis by (auto simp: connect_ipc_locked_def split: if_splits)
next
  case False
  with assms obtain c cs where c: "conn_script s = c # cs"
    by (auto simp: connect_ipc_locked_def split: list.splits)
  have hello: "hello_msg (s\<lparr>conn_script := cs\<rparr>) = hello_msg s" by (simp add: hello_msg_def)
  show ?thesis
  proof (cases c)
    case (Accepted fd)
    obtain e sent os where w: "write_all (write_script s) (encode_msg (hello_msg s)) = (e, sent, os)"
      by (rule prod_cases3)
    note x = write_all_exact [OF w, unfolded exact_sent_def]
    show ?thesis
    proof (cases e)
      case Done
      with False c Accepted w assms have "b" and s': "s' = s\<lparr>conn_script := cs, write_script := os,
          wire := sent, ipc_fd := int fd,
          ipc_generation := (let g = ipc_generation s + 1 in if g = 0 then g + 1 else g)\<rparr>"
        by (simp_all add: connect_ipc_locked_def hello Let_def)
      show ?thesis
        by (rule opened [OF _ \<open>b\<close> c refl]) (use False x Done s' in simp_all)
    next
      case (Failed u)
      with False c Accepted w assms have "\<not> b" and s': "s' = s\<lparr>conn_script := cs, write_script := os,
          closed_wires := sent # closed_wires s\<rparr>"
        by (simp_all add: connect_ipc_locked_def hello)
      show ?thesis
        by (rule broken [OF _ \<open>\<not> b\<close> c _ s']) (use False x in simp_all)
    qed (use False c Accepted w assms in \<open>simp add: connect_ipc_locked_def hello\<close>)
  qed (use False c assms refused in \<open>simp_all add: connect_ipc_locked_def\<close>)
qed

lemma connect_inv:
  assumes inv: "ipc_inv {} s" and c: "connect_ipc_locked s = Some (b, s')"
  shows "ipc_inv {} s' \<and> (b \<longrightarrow> ipc_fd s' \<ge> 0)"
  using c
proof (cases rule: connect_cases)
  case (refused c cs)
  with inv show ?thesis
    by (simp add: ipc_inv_def wire_ok_def closed_ok_def entries_ok_def surface_has_baseline_locked_def)
next
  case (broken c cs os sent)
  then have "is_prefix sent (stream_bytes [(hello_msg s, [])])" by (simp add: hello_bytes)
  with good_hello have "\<exists>ps. good_stream ps \<and> is_prefix sent (stream_bytes ps)" by blast
  with inv broken show ?thesis
    by (simp add: ipc_inv_def wire_ok_def closed_ok_def entries_ok_def surface_has_baseline_locked_def)
next
  case (opened c cs os fd g)
  have ent: "entries_ok s" using inv by (simp add: ipc_inv_def)
  from next_generation [OF this opened(3)] have g: "g = ipc_generation s + 1"
      "unat g = Suc (unat (ipc_generation s))"
    using opened(4) by (simp_all add: Let_def)
  have old: "snd e < g" if "e \<in> set (surface_generations s)" for e
    using ent that g(2) by (fastforce simp: entries_ok_def word_less_unat word_le_unat)
  have "\<not> surface_has_baseline_locked h s'" for h
    using old map_of_SomeD [of "surface_generations s" h g] opened(5)
    by (fastforce simp: surface_has_baseline_locked_def split: option.splits)
  then have "wire_ok {} s'"
    using good_hello [of s] opened(5)
    by (auto simp: wire_ok_def hello_bytes intro!: exI [of _ "[(hello_msg s, [])]"])
  moreover have "entries_ok s'"
    using ent old opened g(2) by (auto simp: entries_ok_def intro: less_imp_le)
  ultimately show ?thesis
    using inv opened(5) by (simp add: ipc_inv_def closed_ok_def)
qed (use inv in simp_all)

text \<open>Sending one packet on the open connection.\<close>

lemma baseline_frame:
  "surface_generations s' = surface_generations s \<Longrightarrow> ipc_generation s' = ipc_generation s \<Longrightarrow>
   surface_has_baseline_locked h s' = surface_has_baseline_locked h s"
  by (simp add: surface_has_baseline_locked_def cong: option.case_cong)

definition sendable :: "ipc_state \<Rightarrow> packet \<Rightarrow> bool" where
  "sendable s p \<longleftrightarrow> packet_ok p \<and> msg_magic (fst p) = JUICE_IOS_MAGIC \<and>
     (is_dirty (fst p) \<longrightarrow> surface_has_baseline_locked (msg_hwnd (fst p)) s)"

lemma wire_okE:
  assumes "ipc_inv X s" "ipc_fd s \<ge> 0"
  obtains ps where "wire s = stream_bytes ps" "good_stream ps"
    "\<And>h. h \<notin> X \<Longrightarrow> surface_has_baseline_locked h s \<Longrightarrow> h \<in> known {} ps"
  using assms by (auto simp: ipc_inv_def wire_ok_def)

lemma sent_packet:
  assumes inv: "ipc_inv {} s" and fd: "ipc_fd s \<ge> 0" and p: "sendable s p"
    and w: "writes (packet_bytes p) s (True, s')"
  obtains ps where "wire s' = stream_bytes (ps @ [p])" "good_stream (ps @ [p])"
    "\<And>h. surface_has_baseline_locked h s' \<Longrightarrow> h \<in> known {} ps"
    "ipc_inv {} s' \<or> msg_type (fst p) = JUICE_IOS_DESTROY" "ipc_inv {msg_hwnd (fst p)} s'" "ipc_fd s' \<ge> 0"
proof -
  obtain ps where ps: "wire s = stream_bytes ps" "good_stream ps"
      "\<And>h. h \<notin> {} \<Longrightarrow> surface_has_baseline_locked h s \<Longrightarrow> h \<in> known {} ps"
    using wire_okE [OF inv fd] by blast
  from w obtain os sent where s0: "s' = s\<lparr>write_script := os, wire := wire s @ sent\<rparr>"
      and "is_prefix sent (packet_bytes p)" and e: "True \<longrightarrow> sent = packet_bytes p"
    by (rule writesE)
  then have s': "s' = s\<lparr>write_script := os, wire := wire s @ packet_bytes p\<rparr>" by simp
  have base: "surface_has_baseline_locked h s' = surface_has_baseline_locked h s" for h
    by (rule baseline_frame) (simp_all add: s')
  have w': "wire s' = stream_bytes (ps @ [p])" by (simp add: s' ps(1))
  have good: "good_stream (ps @ [p])"
    using p ps(2,3) by (auto simp: good_stream_snoc sendable_def)
  have kn: "h \<in> known {} ps" if "surface_has_baseline_locked h s'" for h
    using ps(3) that by (simp add: base)
  have ent: "entries_ok s' \<and> closed_ok s'" using inv by (simp add: s' ipc_inv_def entries_ok_def closed_ok_def)
  have fd': "ipc_fd s' \<ge> 0" using fd by (simp add: s')
  have learnt: "h \<in> known {} (ps @ [p])"
    if "surface_has_baseline_locked h s'" "h \<noteq> msg_hwnd (fst p) \<or> msg_type (fst p) \<noteq> JUICE_IOS_DESTROY" for h
    using kn [OF that(1)] that(2) by (auto simp: learn_def)
  have "ipc_inv {msg_hwnd (fst p)} s'"
    by (rule ipc_invI [OF _ _ fd' w' good]) (use ent learnt in auto)
  moreover have "ipc_inv {} s' \<or> msg_type (fst p) = JUICE_IOS_DESTROY"
  proof (cases "msg_type (fst p) = JUICE_IOS_DESTROY")
    case False
    then have "ipc_inv {} s'" by (intro ipc_invI [OF _ _ fd' w' good]) (use ent learnt in auto)
    then show ?thesis ..
  qed simp
  ultimately show ?thesis using that w' good kn fd' by blast
qed

lemma disconnect_inv:
  assumes inv: "ipc_inv {} s" and fd: "ipc_fd s \<ge> 0" and p: "sendable s p"
    and w: "writes (packet_bytes p) s (b, s')"
  shows "ipc_inv {} (disconnect_ipc_locked s')"
proof -
  obtain ps where ps: "wire s = stream_bytes ps" "good_stream ps"
      "\<And>h. h \<notin> {} \<Longrightarrow> surface_has_baseline_locked h s \<Longrightarrow> h \<in> known {} ps"
    using wire_okE [OF inv fd] by blast
  from w obtain os sent where s': "s' = s\<lparr>write_script := os, wire := wire s @ sent\<rparr>"
      and pre: "is_prefix sent (packet_bytes p)" and "b \<longrightarrow> sent = packet_bytes p"
    by (rule writesE)
  have "good_stream (ps @ [p])"
    using p ps(2,3) by (auto simp: good_stream_snoc sendable_def)
  moreover have "is_prefix (wire s') (stream_bytes (ps @ [p]))"
    using pre by (simp add: s' ps(1))
  ultimately have "\<exists>qs. good_stream qs \<and> is_prefix (wire s') (stream_bytes qs)" by blast
  then show ?thesis
    using inv fd by (simp add: disconnect_ipc_locked_def s' ipc_inv_def wire_ok_def closed_ok_def entries_ok_def)
qed

lemma disconnect_open_inv:
  assumes inv: "ipc_inv {} s"
  shows "ipc_inv {} (disconnect_ipc_locked s)"
proof (cases "ipc_fd s \<ge> 0")
  case True
  then obtain ps where "wire s = stream_bytes ps" "good_stream ps"
    using wire_okE [OF inv] by blast
  then have "\<exists>qs. good_stream qs \<and> is_prefix (wire s) (stream_bytes qs)" by auto
  with inv True show ?thesis
    by (simp add: disconnect_ipc_locked_def ipc_inv_def wire_ok_def closed_ok_def entries_ok_def)
next
  case False
  with inv show ?thesis
    by (simp add: disconnect_ipc_locked_def ipc_inv_def wire_ok_def closed_ok_def entries_ok_def)
qed

lemma disconnect_fd_inv: "ipc_inv {} s \<Longrightarrow> ipc_inv {} (disconnect_ipc_fd fd g s)"
  by (simp add: disconnect_ipc_fd_def disconnect_open_inv)

text \<open>The table of baselines.\<close>

lemma set_entry_None: "set_entry hwnd g es = None \<longleftrightarrow> hwnd \<notin> fst ` set es"
  by (induction hwnd g es rule: set_entry.induct) (auto split: option.splits)

lemma set_entry_Some:
  "set_entry hwnd g es = Some es' \<Longrightarrow> map fst es' = map fst es \<and>
     set es' \<subseteq> insert (hwnd, g) (set es) \<and> map_of es' = (map_of es)(hwnd \<mapsto> g)"
  by (induction hwnd g es arbitrary: es' rule: set_entry.induct)
    (auto split: option.splits if_splits)

lemma drop_entry_fst: "distinct (map fst es) \<Longrightarrow> map fst (drop_entry hwnd es) = filter (\<lambda>h. h \<noteq> hwnd) (map fst es)"
  by (induction hwnd es rule: drop_entry.induct) (auto intro!: filter_True [symmetric])

lemma drop_entry_subset: "set (drop_entry hwnd es) \<subseteq> set es"
  by (induction hwnd es rule: drop_entry.induct) auto

lemma drop_entry_map_of:
  "distinct (map fst es) \<Longrightarrow> map_of (drop_entry hwnd es) h = (if h = hwnd then None else map_of es h)"
  by (induction hwnd es rule: drop_entry.induct) (auto simp: map_of_eq_None_iff, force)

lemma mark_frame:
  "ipc_fd (mark_surface_baseline_locked hwnd s) = ipc_fd s" "wire (mark_surface_baseline_locked hwnd s) = wire s"
  "closed_wires (mark_surface_baseline_locked hwnd s) = closed_wires s"
  "ipc_generation (mark_surface_baseline_locked hwnd s) = ipc_generation s"
  "conn_script (mark_surface_baseline_locked hwnd s) = conn_script s"
  by (simp_all add: mark_surface_baseline_locked_def Let_def split: option.splits)

lemma mark_entries:
  "entries_ok s \<Longrightarrow> entries_ok (mark_surface_baseline_locked hwnd s) \<and>
   (surface_has_baseline_locked h (mark_surface_baseline_locked hwnd s) \<longrightarrow>
      h = hwnd \<or> surface_has_baseline_locked h s)"
proof (cases "set_entry hwnd (ipc_generation s) (surface_generations s)")
  case None
  assume e: "entries_ok s"
  from None have "hwnd \<notin> fst ` set (surface_generations s)" by (simp add: set_entry_None)
  with None e show ?thesis
    by (auto simp: mark_surface_baseline_locked_def Let_def entries_ok_def surface_has_baseline_locked_def
        split: option.splits)
next
  case (Some es)
  assume e: "entries_ok s"
  with set_entry_Some [OF Some] have "distinct (map fst es)" "\<forall>x \<in> set es. snd x \<le> ipc_generation s"
    by (auto simp: entries_ok_def)
  with Some e set_entry_Some [OF Some] show ?thesis
    by (auto simp: mark_surface_baseline_locked_def entries_ok_def surface_has_baseline_locked_def
        split: option.splits)
qed

lemma forget_inv:
  assumes "ipc_inv {hwnd} s"
  shows "ipc_inv {} (forget_surface_locked hwnd s)"
proof -
  let ?t = "forget_surface_locked hwnd s"
  have d: "distinct (map fst (surface_generations s))" using assms by (simp add: ipc_inv_def entries_ok_def)
  have base: "h \<noteq> hwnd \<and> surface_has_baseline_locked h s" if "surface_has_baseline_locked h ?t" for h
    using that drop_entry_map_of [OF d]
    by (auto simp: surface_has_baseline_locked_def forget_surface_locked_def split: if_splits option.splits)
  have ent: "entries_ok ?t"
    using assms drop_entry_subset [of hwnd "surface_generations s"] drop_entry_fst [OF d, of hwnd]
    by (auto simp: ipc_inv_def entries_ok_def forget_surface_locked_def)
  have cl: "closed_ok ?t" using assms by (simp add: ipc_inv_def closed_ok_def forget_surface_locked_def)
  show ?thesis
  proof (cases "ipc_fd s \<ge> 0")
    case True
    obtain ps where ps: "wire s = stream_bytes ps" "good_stream ps"
        "\<And>h. h \<notin> {hwnd} \<Longrightarrow> surface_has_baseline_locked h s \<Longrightarrow> h \<in> known {} ps"
      using wire_okE [OF assms True] by blast
    show ?thesis
      by (rule ipc_invI [OF ent cl _ _ ps(2)])
        (use True ps(1,3) base in \<open>auto simp: forget_surface_locked_def\<close>)
  next
    case False
    with assms ent cl show ?thesis by (simp add: ipc_inv_def wire_ok_def forget_surface_locked_def)
  qed
qed

section \<open>Every operation keeps the invariant\<close>

lemma send_msg_cases:
  assumes "send_msg tid type hwnd rect [] stride flags s = Some s'"
  obtains (off) "connect_ipc_locked s = Some (False, s')"
  | (sent) s1 s2 where "connect_ipc_locked s = Some (True, s1)"
      "writes (packet_bytes (header_msg type hwnd rect 0 stride flags (stack_pad s), [])) s1 (True, s2)"
      "s' = ios_ipc_register_queue tid s2"
  | (lost) s1 s2 where "connect_ipc_locked s = Some (True, s1)"
      "writes (packet_bytes (header_msg type hwnd rect 0 stride flags (stack_pad s), [])) s1 (False, s2)"
      "s' = disconnect_ipc_locked s2"
proof -
  obtain b s1 where c: "connect_ipc_locked s = Some (b, s1)"
    using assms by (auto simp: send_msg_def Let_def split: option.splits)
  show ?thesis
  proof (cases b)
    case False
    with assms c off show ?thesis by (simp add: send_msg_def Let_def)
  next
    case True
    let ?m = "header_msg type hwnd rect 0 stride flags (stack_pad s)"
    obtain ok s2 where w: "ipc_write (encode_msg ?m) s1 = Some (ok, s2)"
      using assms c True by (auto simp: send_msg_def Let_def split: option.splits)
    then have p: "writes (packet_bytes (?m, [])) s1 (ok, s2)"
      by (simp add: packet_bytes_def ipc_write_writes)
    show ?thesis
    proof (cases ok)
      case True
      with \<open>b\<close> assms c w have "s' = ios_ipc_register_queue tid s2" by (simp add: send_msg_def Let_def)
      with \<open>b\<close> c p True sent show ?thesis by simp
    next
      case False
      with \<open>b\<close> assms c w have "s' = disconnect_ipc_locked s2" by (simp add: send_msg_def Let_def)
      with \<open>b\<close> c p False lost show ?thesis by simp
    qed
  qed
qed

lemma header_sendable:
  "type \<noteq> JUICE_IOS_FRAME \<Longrightarrow> sendable s (header_msg type hwnd rect 0 stride flags pad, [])"
  by (simp add: sendable_def header_msg_def packet_ok_def is_dirty_def split: option.splits)

lemma header_fields:
  "msg_type (header_msg type hwnd rect n stride flags pad) = type"
  "msg_hwnd (header_msg type hwnd rect n stride flags pad) = hwnd"
  by (simp_all add: header_msg_def split: option.splits)

lemma send_msg_inv:
  assumes inv: "ipc_inv {} s" and m: "send_msg tid type hwnd rect [] stride flags s = Some s'"
    and t: "type \<noteq> JUICE_IOS_FRAME"
  shows "ipc_inv {hwnd} s' \<and> (type \<noteq> JUICE_IOS_DESTROY \<longrightarrow> ipc_inv {} s')"
  using m
proof (cases rule: send_msg_cases)
  case off
  from connect_inv [OF inv off] show ?thesis by (simp add: ipc_inv_weaken)
next
  case (sent s1 s2)
  from connect_inv [OF inv sent(1)] have s1: "ipc_inv {} s1" "ipc_fd s1 \<ge> 0" by simp_all
  from sent_packet [OF s1 header_sendable [OF t] sent(2)]
  have "ipc_inv {hwnd} s2" "ipc_inv {} s2 \<or> type = JUICE_IOS_DESTROY"
    by (simp_all add: header_fields) blast+
  then show ?thesis unfolding sent(3) by (auto intro: register_queue_inv)
next
  case (lost s1 s2)
  from connect_inv [OF inv lost(1)] have s1: "ipc_inv {} s1" "ipc_fd s1 \<ge> 0" by simp_all
  from disconnect_inv [OF s1 header_sendable [OF t] lost(2)] show ?thesis
    by (simp add: lost(3) ipc_inv_weaken)
qed

lemma window_inv: "ipc_inv {} s \<Longrightarrow> ios_ipc_window tid hwnd rect visible s = Some s' \<Longrightarrow> ipc_inv {} s'"
  unfolding ios_ipc_window_def by (drule (1) send_msg_inv) (simp_all add: wire_simps)

lemma destroy_inv:
  assumes "ipc_inv {} s" "ios_ipc_destroy tid hwnd s = Some s'"
  shows "ipc_inv {} s'"
proof -
  from assms(2) obtain t where t: "send_msg tid JUICE_IOS_DESTROY hwnd None [] 0 0 s = Some t"
      and s': "s' = forget_surface_locked hwnd t"
    by (auto simp: ios_ipc_destroy_def)
  from send_msg_inv [OF assms(1) t] show ?thesis by (simp add: s' forget_inv wire_simps)
qed

lemma init_inv:
  assumes "ipc_inv {} s" "ios_ipc_init tid path width height dpi s = Some s'"
  shows "ipc_inv {} s'"
proof (cases "ios_ipc_init tid path width height dpi s = Some s \<and> s' = s")
  case False
  then obtain p where p: "path = Some p" "p \<noteq> []" "length p < SUN_PATH"
    using assms(2) by (auto simp: ios_ipc_init_def split: option.splits if_splits)
  let ?s = "s\<lparr>ipc_path := p, ipc_width := width, ipc_height := height, ipc_dpi := dpi\<rparr>"
  obtain b s1 where c: "connect_ipc_locked ?s = Some (b, s1)" and
      s': "s' = (if b then ios_ipc_register_queue tid s1 else s1)"
    using assms(2) p by (auto simp: ios_ipc_init_def split: option.splits)
  have "ipc_inv {} ?s" by (rule ipc_inv_cong [OF assms(1)]) simp_all
  from connect_inv [OF this c] s' show ?thesis by (simp add: register_queue_inv)
qed (use assms in simp)

subsection \<open>Presenting a frame\<close>

definition surface_memory :: "bytes \<Rightarrow> u32 \<Rightarrow> u32 \<Rightarrow> u32 \<Rightarrow> bool" where
  "surface_memory source width height stride \<longleftrightarrow>
     unat stride * unat height \<le> length source \<and> unat width < 2 ^ 30"

lemma clip_bounds:
  assumes "c = clip_dirty width height dirty"
    and "\<not> (sint (rc_right c) \<le> sint (rc_left c) \<or> sint (rc_bottom c) \<le> sint (rc_top c))"
  shows "unat (rc_left c) < unat (rc_right c) \<and> unat (rc_right c) \<le> unat width \<and>
    unat (rc_top c) < unat (rc_bottom c) \<and> unat (rc_bottom c) \<le> unat height \<and>
    unat (rc_right c - rc_left c) = unat (rc_right c) - unat (rc_left c) \<and>
    unat (rc_bottom c - rc_top c) = unat (rc_bottom c) - unat (rc_top c)"
proof -
  have lo: "0 \<le> sint (rc_left c)" "0 \<le> sint (rc_top c)"
    by (simp_all add: assms(1) clip_dirty_def Let_def not_less split: option.splits)
  have hi: "sint (rc_right c) \<le> sint width" "sint (rc_bottom c) \<le> sint height"
    by (simp_all add: assms(1) clip_dirty_def Let_def not_less split: option.splits)
  have pos: "0 \<le> sint (rc_right c)" "0 \<le> sint (rc_bottom c)" "0 \<le> sint width" "0 \<le> sint height"
    using lo hi assms(2) by linarith+
  note u = lo [THEN sint_u32_nonneg] pos [THEN sint_u32_nonneg]
  have b: "unat (rc_left c) < unat (rc_right c)" "unat (rc_right c) \<le> unat width"
      "unat (rc_top c) < unat (rc_bottom c)" "unat (rc_bottom c) \<le> unat height"
    using assms(2) hi u by linarith+
  then have "rc_left c \<le> rc_right c" "rc_top c \<le> rc_bottom c" by (simp_all add: word_le_unat)
  with b show ?thesis by (simp add: unat_sub)
qed

lemma row_inside:
  assumes "y < h" "l + w \<le> (r :: nat)" "4 * r \<le> st"
  shows "y * st + l * 4 + w * 4 \<le> st * h"
proof -
  have "Suc y * st \<le> h * st" using assms(1) by (intro mult_le_mono1) simp
  then show ?thesis using assms(2,3) by (simp add: mult.commute)
qed

lemma concat_same_length: "(\<And>x. x \<in> set xs \<Longrightarrow> length (f x) = n) \<Longrightarrow> length (concat (map f xs)) = n * length xs"
  by (induction xs) auto

lemma length_dirty_rows:
  assumes "unat (rc_left c) < unat (rc_right c)" "unat (rc_right c) \<le> unat width"
    "unat (rc_top c) < unat (rc_bottom c)" "unat (rc_bottom c) \<le> unat height"
    "unat (rc_right c - rc_left c) = unat (rc_right c) - unat (rc_left c)"
    "unat (rc_bottom c - rc_top c) = unat (rc_bottom c) - unat (rc_top c)"
    "4 * unat width \<le> unat stride" "unat stride * unat height \<le> length source"
  shows "length (concat (dirty_rows source stride c)) = unat (rc_right c - rc_left c) * 4 * unat (rc_bottom c - rc_top c)"
proof -
  have "length (sub_list ((unat (rc_top c) + row) * unat stride + unat (rc_left c) * 4)
      (unat (rc_right c - rc_left c) * 4) source) = unat (rc_right c - rc_left c) * 4"
    if "row \<in> set [0..<unat (rc_bottom c - rc_top c)]" for row
  proof -
    have "(unat (rc_top c) + row) * unat stride + unat (rc_left c) * 4 + unat (rc_right c - rc_left c) * 4
        \<le> unat stride * unat height"
      by (rule row_inside [where r = "unat width"]) (use that assms in simp_all)
    with assms(8) have "(unat (rc_top c) + row) * unat stride + unat (rc_left c) * 4 +
        unat (rc_right c - rc_left c) * 4 \<le> length source" by linarith
    then show ?thesis by simp
  qed
  then have "length (concat (dirty_rows source stride c)) =
      unat (rc_right c - rc_left c) * 4 * length [0..<unat (rc_bottom c - rc_top c)]"
    unfolding dirty_rows_def by (rule concat_same_length)
  then show ?thesis by simp
qed

lemma unat_times4: "unat (width :: u32) < 2 ^ 30 \<Longrightarrow> unat (width * 4) = 4 * unat width"
  by (subst unat_mult_noov) simp_all

text \<open>What a call of \<open>ios_ipc_present\<close> that gets as far as the connection does.\<close>

definition frame_packet :: "u64 \<Rightarrow> bytes \<Rightarrow> u32 \<Rightarrow> u32 \<Rightarrow> u32 \<Rightarrow> RECT option \<Rightarrow> u32 \<Rightarrow> bool \<Rightarrow> packet" where
  "frame_packet hwnd source width height stride dirty pad baseline =
     (let c = clip_dirty width height dirty;
          w = rc_right c - rc_left c; h = rc_bottom c - rc_top c;
          partial = (rc_left c \<noteq> 0 \<or> rc_top c \<noteq> 0 \<or> w \<noteq> width \<or> h \<noteq> height) in
      if baseline \<and> partial \<and> unat w * 4 * unat h < unat stride * unat height
      then (dirty_msg hwnd c pad, concat (dirty_rows source stride c))
      else (full_msg hwnd width height stride pad, take (unat stride * unat height) source))"

definition present_guard :: "u32 \<Rightarrow> u32 \<Rightarrow> u32 \<Rightarrow> RECT option \<Rightarrow> bool" where
  "present_guard width height stride dirty \<longleftrightarrow>
     \<not> (width = 0 \<or> height = 0 \<or> stride < width * 4) \<and> unat stride * unat height \<le> 4294967295 \<and>
     (let c = clip_dirty width height dirty in
      \<not> (sint (rc_right c) \<le> sint (rc_left c) \<or> sint (rc_bottom c) \<le> sint (rc_top c)))"

lemma present_cases:
  assumes "ios_ipc_present tid hwnd (Some source) width height stride dirty s = Some s'"
  obtains (skip) "\<not> present_guard width height stride dirty" "s' = s"
  | (off) "present_guard width height stride dirty" "connect_ipc_locked s = Some (False, s')"
  | (sent) s1 s2 where "present_guard width height stride dirty" "connect_ipc_locked s = Some (True, s1)"
      "writes (packet_bytes (frame_packet hwnd source width height stride dirty (stack_pad s1)
         (surface_has_baseline_locked hwnd s1))) s1 (True, s2)"
      "s' = ios_ipc_register_queue tid (mark_surface_baseline_locked hwnd s2)"
  | (lost) s1 s2 where "present_guard width height stride dirty" "connect_ipc_locked s = Some (True, s1)"
      "writes (packet_bytes (frame_packet hwnd source width height stride dirty (stack_pad s1)
         (surface_has_baseline_locked hwnd s1))) s1 (False, s2)"
      "s' = disconnect_ipc_locked s2"
proof (cases "present_guard width height stride dirty")
  case False
  with assms skip show ?thesis
    by (auto simp: ios_ipc_present_def present_guard_def Let_def not_le split: if_splits)
next
  case True
  define c where "c = clip_dirty width height dirty"
  from True have g: "\<not> (width = 0 \<or> height = 0 \<or> stride < width * 4)" "\<not> unat stride * unat height > 4294967295"
      "\<not> (sint (rc_right c) \<le> sint (rc_left c) \<or> sint (rc_bottom c) \<le> sint (rc_top c))"
    by (simp_all only: present_guard_def c_def Let_def not_less simp_thms)
  have run: "ios_ipc_present tid hwnd (Some source) width height stride dirty s =
      (case connect_ipc_locked s of None \<Rightarrow> None | Some (False, s) \<Rightarrow> Some s
       | Some (True, s1) \<Rightarrow> (case send_surface hwnd source width height stride c s1 of None \<Rightarrow> None
         | Some (True, s) \<Rightarrow> Some (ios_ipc_register_queue tid (mark_surface_baseline_locked hwnd s))
         | Some (False, s) \<Rightarrow> Some (disconnect_ipc_locked s)))"
    unfolding ios_ipc_present_def Let_def option.case c_def [symmetric] using g by (simp only: if_False)
  have w: "writes (packet_bytes (frame_packet hwnd source width height stride dirty (stack_pad s1)
      (surface_has_baseline_locked hwnd s1))) s1 (ok, s2)"
    if "send_surface hwnd source width height stride c s1 = Some (ok, s2)" for s1 ok s2
    using that unfolding send_surface_def frame_packet_def Let_def c_def
    by (auto split: if_splits intro: send_frame_writes send_rows_writes ipc_write_writes)
  obtain b s1 where c: "connect_ipc_locked s = Some (b, s1)"
    using assms run by (auto split: option.splits)
  show ?thesis
  proof (cases b)
    case False
    with assms run c off True show ?thesis by simp
  next
    case True
    with assms run c obtain ok s2 where se: "send_surface hwnd source width height stride c s1 = Some (ok, s2)" by (auto split: option.splits)
    show ?thesis
      using assms run c True se w [OF se] sent lost \<open>present_guard width height stride dirty\<close>
      by (cases ok) simp_all
  qed
qed

lemma frame_packet_sendable:
  assumes "present_guard width height stride dirty" "surface_memory source width height stride"
  shows "sendable s (frame_packet hwnd source width height stride dirty pad (surface_has_baseline_locked hwnd s))"
proof -
  define c where "c = clip_dirty width height dirty"
  have st: "4 * unat width \<le> unat stride"
    using assms by (auto simp: present_guard_def surface_memory_def not_less word_le_unat unat_times4)
  have "\<not> (sint (rc_right c) \<le> sint (rc_left c) \<or> sint (rc_bottom c) \<le> sint (rc_top c))"
    using assms(1) by (simp add: present_guard_def c_def Let_def)
  note b = clip_bounds [OF c_def this]
  have len: "length (concat (dirty_rows source stride c)) = unat (rc_right c - rc_left c) * 4 * unat (rc_bottom c - rc_top c)"
    using b st assms(2) by (intro length_dirty_rows) (auto simp: surface_memory_def)
  have full: "unat (of_nat (unat stride * unat height) :: u32) = unat stride * unat height"
    using assms(1) by (intro unat_of_nat_u32) (simp add: present_guard_def)
  have part: "unat (of_nat (unat (rc_right c - rc_left c) * 4 * unat (rc_bottom c - rc_top c)) :: u32) =
      unat (rc_right c - rc_left c) * 4 * unat (rc_bottom c - rc_top c)"
    if "unat (rc_right c - rc_left c) * 4 * unat (rc_bottom c - rc_top c) < unat stride * unat height"
  proof (rule unat_of_nat_u32)
    show "unat (rc_right c - rc_left c) * 4 * unat (rc_bottom c - rc_top c) < 4294967296"
      using that assms(1) unfolding present_guard_def by linarith
  qed
  show ?thesis
    using assms(2) len full part
    by (auto simp: frame_packet_def c_def [symmetric] Let_def sendable_def packet_ok_def dirty_msg_def
        full_msg_def is_dirty_def has_bits_def wire_simps surface_memory_def)
qed

lemma frame_packet_fields:
  "msg_type (fst (frame_packet hwnd source width height stride dirty pad b)) = JUICE_IOS_FRAME"
  "msg_hwnd (fst (frame_packet hwnd source width height stride dirty pad b)) = hwnd"
  "is_dirty (fst (frame_packet hwnd source width height stride dirty pad b)) \<Longrightarrow> b"
  by (auto simp: frame_packet_def Let_def dirty_msg_def full_msg_def is_dirty_def has_bits_def split: if_splits)

lemma present_inv:
  assumes inv: "ipc_inv {} s" and ok: "surface_memory source width height stride"
    and p: "ios_ipc_present tid hwnd (Some source) width height stride dirty s = Some s'"
  shows "ipc_inv {} s'"
  using p
proof (cases rule: present_cases)
  case skip
  with inv show ?thesis by simp
next
  case off
  with connect_inv [OF inv] show ?thesis by blast
next
  case (lost s1 s2)
  from connect_inv [OF inv lost(2)] have s1: "ipc_inv {} s1" "ipc_fd s1 \<ge> 0" by simp_all
  from disconnect_inv [OF s1 frame_packet_sendable [OF lost(1) ok] lost(3)] show ?thesis
    by (simp add: lost(4))
next
  case (sent s1 s2)
  let ?p = "frame_packet hwnd source width height stride dirty (stack_pad s1) (surface_has_baseline_locked hwnd s1)"
  from connect_inv [OF inv sent(2)] have s1: "ipc_inv {} s1" "ipc_fd s1 \<ge> 0" by simp_all
  from sent(3) have base: "surface_has_baseline_locked h s2 = surface_has_baseline_locked h s1" for h
    by (elim writesE) (auto intro!: baseline_frame)
  obtain ps where ps: "wire s2 = stream_bytes (ps @ [?p])" "good_stream (ps @ [?p])"
      "\<And>h. surface_has_baseline_locked h s2 \<Longrightarrow> h \<in> known {} ps" "ipc_inv {hwnd} s2" "ipc_fd s2 \<ge> 0"
    using sent_packet [OF s1 frame_packet_sendable [OF sent(1) ok] sent(3)] by (metis frame_packet_fields(2))
  have kn: "h \<in> known {} (ps @ [?p])" if "h = hwnd \<or> surface_has_baseline_locked h s2" for h
    using that ps(3) [of h] base [of hwnd] frame_packet_fields [of hwnd source width height stride dirty "stack_pad s1"]
      ps(3) [of hwnd] by (auto simp: learn_def wire_simps)
  have ent: "entries_ok s2" "closed_ok s2" using ps(4) by (simp_all add: ipc_inv_def)
  have "ipc_inv {} (mark_surface_baseline_locked hwnd s2)"
    by (rule ipc_invI [OF _ _ _ _ ps(2)])
      (use ent ps(1,5) kn mark_entries [OF ent(1), of hwnd] in \<open>auto simp: mark_frame closed_ok_def\<close>)
  then show ?thesis by (simp add: sent(4) register_queue_inv)
qed

section \<open>Runs\<close>

text \<open>
  The calls that reach the transport, by any thread: the entry points of the driver, and the
  lock sections of an input reader, which connects at the start of a pass
  (\<open>Reader_connect\<close>) and disconnects the connection it captured (\<open>Reader_disconnect\<close>).
\<close>

datatype ipc_call =
    Init nat "string option" u32 u32 u32
  | Window nat u64 "RECT option" bool
  | Destroy nat u64
  | Present nat u64 bytes u32 u32 u32 "RECT option"
  | Register nat
  | Reader_connect nat
  | Reader_disconnect int u32

fun run_call :: "ipc_call \<Rightarrow> ipc_state \<Rightarrow> ipc_state option" where
  "run_call (Init tid path width height dpi) s = ios_ipc_init tid path width height dpi s"
| "run_call (Window tid hwnd rect visible) s = ios_ipc_window tid hwnd rect visible s"
| "run_call (Destroy tid hwnd) s = ios_ipc_destroy tid hwnd s"
| "run_call (Present tid hwnd bits width height stride dirty) s =
     ios_ipc_present tid hwnd (Some bits) width height stride dirty s"
| "run_call (Register tid) s = Some (ios_ipc_register_queue tid s)"
| "run_call (Reader_connect tid) s =
     (case connect_ipc_locked s of None \<Rightarrow> None
      | Some (_, s) \<Rightarrow> Some (if ipc_fd s < 0 then s else ios_ipc_register_queue tid s))"
| "run_call (Reader_disconnect fd generation) s = Some (disconnect_ipc_fd fd generation s)"

fun run_calls :: "ipc_call list \<Rightarrow> ipc_state \<Rightarrow> ipc_state option" where
  "run_calls [] s = Some s"
| "run_calls (c # cs) s = (case run_call c s of None \<Rightarrow> None | Some s' \<Rightarrow> run_calls cs s')"

definition call_ok :: "ipc_call \<Rightarrow> bool" where
  "call_ok c = (case c of Present _ _ bits width height stride _ \<Rightarrow> surface_memory bits width height stride
     | _ \<Rightarrow> True)"

lemma run_call_inv:
  assumes "ipc_inv {} s" "call_ok c" "run_call c s = Some s'"
  shows "ipc_inv {} s'"
proof (cases c)
  case (Reader_connect tid)
  with assms(3) obtain b t where c: "connect_ipc_locked s = Some (b, t)"
      and s': "s' = (if ipc_fd t < 0 then t else ios_ipc_register_queue tid t)"
    by (auto split: option.splits)
  from connect_inv [OF assms(1) c] s' show ?thesis by (simp add: register_queue_inv)
qed (use assms in \<open>auto simp: call_ok_def register_queue_inv disconnect_fd_inv
    intro: init_inv window_inv destroy_inv present_inv\<close>)

lemma run_calls_inv:
  "ipc_inv {} s \<Longrightarrow> \<forall>c \<in> set cs. call_ok c \<Longrightarrow> run_calls cs s = Some s' \<Longrightarrow> ipc_inv {} s'"
  by (induction cs arbitrary: s) (auto split: option.splits intro: run_call_inv)

lemma ipc_start_inv: "length conns < 2 ^ 32 \<Longrightarrow> ipc_inv {} (ipc_start conns outs mallocs queues pid pad)"
  by (simp add: ipc_inv_def ipc_start_def entries_ok_def wire_ok_def closed_ok_def)

section \<open>Generations only grow\<close>

definition later :: "ipc_state \<Rightarrow> ipc_state \<Rightarrow> bool" where
  "later s s' \<longleftrightarrow> unat (ipc_generation s) \<le> unat (ipc_generation s') \<and>
     length (closed_wires s) \<le> length (closed_wires s') \<and>
     (ipc_fd s < 0 \<and> ipc_fd s' \<ge> 0 \<longrightarrow> unat (ipc_generation s) < unat (ipc_generation s')) \<and>
     (ipc_fd s \<ge> 0 \<longrightarrow>
        ipc_fd s' = ipc_fd s \<and> ipc_generation s' = ipc_generation s \<and> closed_wires s' = closed_wires s \<or>
        (ipc_fd s' < 0 \<or> unat (ipc_generation s) < unat (ipc_generation s')) \<and>
        length (closed_wires s) < length (closed_wires s'))"

lemma later_frame:
  "\<lbrakk>ipc_fd s' = ipc_fd s; ipc_generation s' = ipc_generation s; closed_wires s' = closed_wires s\<rbrakk> \<Longrightarrow> later s s'"
  by (simp add: later_def)

lemma later_trans:
  assumes "later s t" "later t u"
  shows "later s u"
proof -
  have "unat (ipc_generation s) \<le> unat (ipc_generation u)" "length (closed_wires s) \<le> length (closed_wires u)"
    using assms by (auto simp: later_def)
  moreover have "unat (ipc_generation s) < unat (ipc_generation u)" if "ipc_fd s < 0" "ipc_fd u \<ge> 0"
  proof (cases "ipc_fd t \<ge> 0")
    case True
    with assms that have "unat (ipc_generation s) < unat (ipc_generation t)" by (simp add: later_def)
    with assms(2) show ?thesis by (simp add: later_def)
  next
    case False
    with assms that have "unat (ipc_generation t) < unat (ipc_generation u)" by (simp add: later_def)
    with assms(1) show ?thesis by (simp add: later_def)
  qed
  moreover have "ipc_fd u = ipc_fd s \<and> ipc_generation u = ipc_generation s \<and> closed_wires u = closed_wires s \<or>
      (ipc_fd u < 0 \<or> unat (ipc_generation s) < unat (ipc_generation u)) \<and>
      length (closed_wires s) < length (closed_wires u)" if "ipc_fd s \<ge> 0"
  proof (cases "ipc_fd t = ipc_fd s \<and> ipc_generation t = ipc_generation s \<and> closed_wires t = closed_wires s")
    case True
    with assms(2) that show ?thesis by (simp add: later_def)
  next
    case False
    with assms(1) that have t: "ipc_fd t < 0 \<or> unat (ipc_generation s) < unat (ipc_generation t)"
        "length (closed_wires s) < length (closed_wires t)"
      by (auto simp: later_def)
    have "length (closed_wires t) \<le> length (closed_wires u)" "unat (ipc_generation t) \<le> unat (ipc_generation u)"
        "unat (ipc_generation s) \<le> unat (ipc_generation t)"
      using assms by (simp_all add: later_def)
    moreover have "ipc_fd t < 0 \<Longrightarrow> ipc_fd u \<ge> 0 \<Longrightarrow> unat (ipc_generation t) < unat (ipc_generation u)"
      using assms(2) by (simp add: later_def)
    ultimately show ?thesis using t by linarith
  qed
  ultimately show ?thesis by (auto simp: later_def)
qed

lemma connect_later:
  assumes "ipc_inv {} s" "connect_ipc_locked s = Some (b, s')"
  shows "later s s'"
  using assms(2)
proof (cases rule: connect_cases)
  case (opened c cs os fd g)
  have "entries_ok s" using assms(1) by (simp add: ipc_inv_def)
  with next_generation [OF this opened(3)] opened show ?thesis by (simp add: later_def Let_def)
qed (simp_all add: later_def)

lemma writes_later: "writes d s (b, s') \<Longrightarrow> later s s'"
  by (elim writesE) (simp add: later_frame)

lemma disconnect_later: "later s (disconnect_ipc_locked s)"
  by (simp add: later_def disconnect_ipc_locked_def Let_def)

lemma register_later: "later s (ios_ipc_register_queue tid s)"
  by (rule later_frame) (simp_all add: register_queue_frame)

lemma mark_later: "later s (mark_surface_baseline_locked hwnd s)"
  by (rule later_frame) (simp_all add: mark_frame)

lemmas later_intros = later_frame connect_later writes_later disconnect_later register_later mark_later

lemma send_msg_later:
  assumes "ipc_inv {} s" "send_msg tid type hwnd rect [] stride flags s = Some s'"
  shows "later s s'"
  using assms(2)
  by (cases rule: send_msg_cases) (auto intro: later_trans later_intros assms(1))

lemma present_later:
  assumes "ipc_inv {} s" "ios_ipc_present tid hwnd (Some source) width height stride dirty s = Some s'"
  shows "later s s'"
  using assms(2)
proof (cases rule: present_cases)
  case (sent s1 s2)
  have "later s s1" "later s1 s2" using sent assms(1) by (auto intro: later_intros)
  then show ?thesis unfolding sent(4) by (meson later_trans mark_later register_later)
qed (auto intro: later_trans later_intros assms(1))

lemma run_call_later:
  assumes "ipc_inv {} s" "run_call c s = Some s'"
  shows "later s s'"
proof (cases c)
  case (Init tid path width height dpi)
  show ?thesis
  proof (cases path)
    case (Some p)
    let ?s = "s\<lparr>ipc_path := p, ipc_width := width, ipc_height := height, ipc_dpi := dpi\<rparr>"
    have s: "ipc_inv {} ?s" "later s ?s" by (rule ipc_inv_cong [OF assms(1)]; simp) (simp add: later_frame)
    show ?thesis
    proof (cases "p = [] \<or> length p \<ge> SUN_PATH")
      case False
      then obtain b t where c: "connect_ipc_locked ?s = Some (b, t)"
          and s': "s' = (if b then ios_ipc_register_queue tid t else t)"
        using assms(2) Init Some by (auto simp: ios_ipc_init_def split: option.splits)
      show ?thesis unfolding s' by (auto intro: later_trans [OF s(2)] later_trans [OF connect_later [OF s(1) c]] later_intros)
    qed (use assms Init Some in \<open>auto simp: ios_ipc_init_def later_frame\<close>)
  qed (use assms Init in \<open>simp add: ios_ipc_init_def later_frame\<close>)
next
  case (Window tid hwnd rect visible)
  with assms show ?thesis by (auto simp: ios_ipc_window_def intro: send_msg_later)
next
  case (Destroy tid hwnd)
  with assms(2) obtain t where t: "send_msg tid JUICE_IOS_DESTROY hwnd None [] 0 0 s = Some t"
      and s': "s' = forget_surface_locked hwnd t"
    by (auto simp: ios_ipc_destroy_def)
  have "later t s'" by (rule later_frame) (simp_all add: s' forget_surface_locked_def)
  with send_msg_later [OF assms(1) t] show ?thesis by (rule later_trans)
next
  case (Reader_connect tid)
  with assms(2) obtain b t where c: "connect_ipc_locked s = Some (b, t)"
      and s': "s' = (if ipc_fd t < 0 then t else ios_ipc_register_queue tid t)"
    by (auto split: option.splits)
  from connect_later [OF assms(1) c] show ?thesis unfolding s' by (auto intro: later_trans later_intros)
next
  case (Reader_disconnect fd g)
  with assms(2) have "s' = disconnect_ipc_fd fd g s" by simp
  then show ?thesis by (simp add: disconnect_ipc_fd_def disconnect_later later_frame)
qed (use assms in \<open>auto intro: present_later register_later\<close>)

lemma run_calls_later:
  assumes "ipc_inv {} s" "\<forall>c \<in> set cs. call_ok c" "run_calls cs s = Some s'"
  shows "later s s'"
  using assms
proof (induction cs arbitrary: s)
  case Nil
  then show ?case by (simp add: later_frame)
next
  case (Cons c cs)
  from Cons.prems(3) obtain t where t: "run_call c s = Some t" "run_calls cs t = Some s'"
    by (auto split: option.splits)
  have "later s t" "ipc_inv {} t"
    using Cons.prems t(1) run_call_later run_call_inv by auto
  with Cons.IH [OF _ _ t(2)] Cons.prems(2) show ?case by (auto intro: later_trans)
qed

lemma ipc_inv_streams:
  assumes "ipc_inv {} s"
  shows "(ipc_fd s \<ge> 0 \<longrightarrow> (\<exists>ps. split_stream (wire s) = (ps, []) \<and> good_stream ps)) \<and>
    (\<forall>w \<in> set (closed_wires s). \<exists>ps. good_stream ps \<and> is_prefix w (stream_bytes ps))"
proof -
  have "\<exists>ps. split_stream (wire s) = (ps, []) \<and> good_stream ps" if fd: "ipc_fd s \<ge> 0"
  proof -
    obtain ps where ps: "wire s = stream_bytes ps" "good_stream ps"
      using wire_okE [OF assms fd] by blast
    then have "\<forall>p \<in> set ps. packet_ok p" by (simp add: good_stream_def)
    from split_stream_bytes [OF this, of "[]"] ps show ?thesis by simp
  qed
  with assms show ?thesis by (simp add: ipc_inv_def closed_ok_def)
qed

section \<open>Properties\<close>


definition sample_start :: ipc_state where
  "sample_start = ipc_start [Accepted 3, Accepted 3] [Xfer 48, Xfer 20, Eintr, Xfer 28, Xfer 16, Xfer 48, Xfer 4, Xfer 48, Xfer 48] [] [] 7 0"

definition sample_calls :: "ipc_call list" where
  "sample_calls = [Init 0 (Some ''/s'') 8 8 96,
     Present 0 5 (replicate 16 1) 2 2 8 None,
     Present 0 5 (replicate 16 2) 2 2 8 (Some \<lparr>rc_left = 1, rc_top = 1, rc_right = 2, rc_bottom = 2\<rparr>)]"


text \<open>
  C19: A reader that captured the connection's descriptor and generation can never tear down
  a newer connection, even one that was given the same descriptor number: once the captured
  connection has been closed, the reader's disconnect does nothing.
\<close>

theorem stale_reader_harmless:
  assumes "length conns < 2 ^ 32" "\<forall>c \<in> set (before @ after). call_ok c"
    and "run_calls before (ipc_start conns outs mallocs queues pid pad) = Some s"
    and "ipc_fd s \<ge> 0" "run_calls after s = Some s'" "closed_wires s' \<noteq> closed_wires s"
  shows "disconnect_ipc_fd (ipc_fd s) (ipc_generation s) s' = s'"
proof -
  have b: "\<forall>c \<in> set before. call_ok c" and a: "\<forall>c \<in> set after. call_ok c" using assms(2) by auto
  have inv: "ipc_inv {} s"
    by (rule run_calls_inv [OF ipc_start_inv [OF assms(1)] b assms(3)])
  from run_calls_later [OF inv a assms(5)] have "later s s'" .
  with assms(4,6) have "ipc_fd s' \<noteq> ipc_fd s \<or> ipc_generation s' \<noteq> ipc_generation s"
    by (auto simp: later_def)
  then show ?thesis by (auto simp: disconnect_ipc_fd_def)
qed

theorem stale_reader_harmless_witness:
  "\<exists>s s'. run_calls sample_calls sample_start = Some s \<and>
     run_calls [Reader_disconnect 3 1, Window 0 5 None True] s = Some s' \<and> ipc_fd s' = ipc_fd s \<and>
     disconnect_ipc_fd (ipc_fd s) (ipc_generation s) s' = s'"
proof -
  have "case run_calls sample_calls sample_start of None \<Rightarrow> False | Some s \<Rightarrow> ipc_fd s = 3 \<and>
      (case run_calls [Reader_disconnect 3 1, Window 0 5 None True] s of None \<Rightarrow> False
       | Some s' \<Rightarrow> ipc_fd s' = 3 \<and> closed_wires s' \<noteq> closed_wires s)"
    by code_simp
  then obtain s s' where s: "run_calls sample_calls sample_start = Some s" "ipc_fd s = 3"
      "run_calls [Reader_disconnect 3 1, Window 0 5 None True] s = Some s'" "ipc_fd s' = 3"
      "closed_wires s' \<noteq> closed_wires s"
    by (auto split: option.splits simp del: run_calls.simps)
  have ok: "\<forall>c \<in> set (sample_calls @ [Reader_disconnect 3 1, Window 0 5 None True]). call_ok c" by code_simp
  from stale_reader_harmless [OF _ ok s(1) [unfolded sample_start_def] _ s(3) s(5)] s show ?thesis by auto
qed

end
