(* ===== verification/Ios_Input.thy ===== *)
theory Ios_Input
  imports Ios_Ipc
begin

text \<open>
  The input side of \<^verbatim>\<open>wine/dlls/wineios.drv/ipc.c\<close>: \<^verbatim>\<open>ios_ipc_process_input\<close> reads the app's
  messages off the connection and turns them into calls of win32u.

  The queries of win32u (window rectangles, hit tests, ancestors) are a record of functions
  the dispatcher is given; its effects are emitted as a list of \<open>user_call\<close>s, in the order of
  the calls.  A handle of zero is NULL.  The dispatcher does not see the results of the
  effects: the code only prints them.
\<close>

section \<open>win32u\<close>

record win32u =
  window_rect :: "u64 \<Rightarrow> RECT option"
  child_from_point :: "u64 \<Rightarrow> u32 \<Rightarrow> u32 \<Rightarrow> u64"
  window_from_point :: "u32 \<Rightarrow> u32 \<Rightarrow> u64"
  root_of :: "u64 \<Rightarrow> u64"

datatype hardware_input =
    Mouse u32 u32 u32 u32
  | Keyboard u16 u16 u32

datatype user_call =
    SetForegroundWindow u64
  | SetActiveWindow u64
  | SetFocus u64
  | SendHardwareInput u64 hardware_input
  | SendChar u64 u16
  | GetTextLength u64
  | RedrawWindow u64
  | PresentNow u64

section \<open>Dispatching one message\<close>

record pointer_state =
  input_target :: u64
  pointer_down :: bool
  pointer_generation :: u32

definition hit_or_self :: "win32u \<Rightarrow> u64 \<Rightarrow> u64 \<Rightarrow> u32 \<Rightarrow> u32 \<Rightarrow> u64" where
  "hit_or_self api hwnd target x y =
     (let target = (if target = 0 \<or> target = hwnd then window_from_point api x y else target) in
      if target = 0 then hwnd else target)"

text \<open>The mouse position on the desktop and the window the event goes to.\<close>

definition mouse_target :: "win32u \<Rightarrow> u32 \<Rightarrow> juice_ios_msg \<Rightarrow> bool \<Rightarrow> pointer_state \<Rightarrow> u32 \<times> u32 \<times> u64" where
  "mouse_target api generation m down s =
     (let hwnd = msg_hwnd m in
      if has_bits (msg_flags m) JUICE_IOS_COORDS_DESKTOP then
        (if pointer_down s \<and> input_target s \<noteq> 0 \<and> pointer_generation s = generation \<and> \<not> down
         then (msg_x m, msg_y m, input_target s)
         else
           let (lx, ly) = (case window_rect api hwnd of None \<Rightarrow> (msg_x m, msg_y m)
                | Some w \<Rightarrow> (msg_x m - rc_left w, msg_y m - rc_top w))
           in (msg_x m, msg_y m,
               hit_or_self api hwnd (child_from_point api hwnd lx ly) (msg_x m) (msg_y m)))
      else
        let (dx, dy) = (case window_rect api hwnd of None \<Rightarrow> (msg_x m, msg_y m)
             | Some w \<Rightarrow> (msg_x m + rc_left w, msg_y m + rc_top w))
        in (dx, dy, hit_or_self api hwnd (child_from_point api hwnd (msg_x m) (msg_y m)) dx dy))"

definition mouse_flags :: "u32 \<Rightarrow> u32" where
  "mouse_flags flags =
     0x8000 OR 0x0001 OR 0x2000
     OR (if has_bits flags JUICE_IOS_LEFT_DOWN then 0x0002 else 0)
     OR (if has_bits flags JUICE_IOS_LEFT_UP then 0x0004 else 0)
     OR (if has_bits flags JUICE_IOS_RIGHT_DOWN then 0x0008 else 0)
     OR (if has_bits flags JUICE_IOS_RIGHT_UP then 0x0010 else 0)
     OR (if has_bits flags JUICE_IOS_WHEEL then 0x0800
         else if has_bits flags JUICE_IOS_HWHEEL then 0x1000 else 0)"

definition mouse_data :: "juice_ios_msg \<Rightarrow> u32" where
  "mouse_data m = (if has_bits (msg_flags m) JUICE_IOS_WHEEL then msg_height m
     else if has_bits (msg_flags m) JUICE_IOS_HWHEEL then msg_width m else 0)"

definition dispatch_mouse :: "win32u \<Rightarrow> u32 \<Rightarrow> juice_ios_msg \<Rightarrow> pointer_state \<Rightarrow> pointer_state \<times> user_call list" where
  "dispatch_mouse api generation m s =
     (let down = has_bits (msg_flags m) (JUICE_IOS_LEFT_DOWN OR JUICE_IOS_RIGHT_DOWN);
          up = has_bits (msg_flags m) (JUICE_IOS_LEFT_UP OR JUICE_IOS_RIGHT_UP);
          (dx, dy, target) = mouse_target api generation m down s;
          s = (if down then s\<lparr>input_target := target, pointer_generation := generation, pointer_down := True\<rparr> else s);
          focus = (if down then [SetForegroundWindow (msg_hwnd m), SetActiveWindow (msg_hwnd m), SetFocus target] else []);
          event = SendHardwareInput target (Mouse dx dy (mouse_data m) (mouse_flags (msg_flags m)))
      in (if up then s\<lparr>pointer_down := False\<rparr> else s, focus @ [event]))"

definition selected_input_target :: "win32u \<Rightarrow> u64 \<Rightarrow> pointer_state \<Rightarrow> u64" where
  "selected_input_target api hwnd s =
     (if input_target s = 0 then hwnd
      else let target_root = root_of api (input_target s); hwnd_root = root_of api hwnd in
        if target_root \<noteq> 0 \<and> hwnd_root \<noteq> 0 \<and> target_root = hwnd_root then input_target s else hwnd)"

definition wide_chars :: "bytes \<Rightarrow> u16 list" where
  "wide_chars payload = map (\<lambda>i. le16 payload (2 * i)) [0..<length payload div 2]"

definition dispatch_text :: "win32u \<Rightarrow> u64 \<Rightarrow> bytes \<Rightarrow> pointer_state \<Rightarrow> user_call list" where
  "dispatch_text api hwnd payload s =
     (let target = selected_input_target api hwnd s in
      [SetForegroundWindow hwnd, SetActiveWindow hwnd, SetFocus target] @
      map (SendChar target) (wide_chars payload) @
      [GetTextLength target, RedrawWindow target, RedrawWindow hwnd, PresentNow hwnd])"

definition send_virtual_key :: "u64 \<Rightarrow> u16 \<Rightarrow> user_call list" where
  "send_virtual_key target vkey =
     [SendHardwareInput target (Keyboard vkey 0 0), SendHardwareInput target (Keyboard vkey 0 2)]"

definition dispatch_hardware_key :: "win32u \<Rightarrow> juice_ios_msg \<Rightarrow> pointer_state \<Rightarrow> user_call list" where
  "dispatch_hardware_key api m s =
     (let target = selected_input_target api (msg_hwnd m) s;
          focus = (if has_bits (msg_flags m) JUICE_IOS_KEY_DOWN
            then [SetForegroundWindow (msg_hwnd m), SetActiveWindow (msg_hwnd m), SetFocus target] else []);
          flags = 8 OR (if has_bits (msg_flags m) JUICE_IOS_KEY_EXTENDED then 1 else 0)
                    OR (if has_bits (msg_flags m) JUICE_IOS_KEY_UP then 2 else 0)
      in focus @ [SendHardwareInput target (Keyboard (ucast (msg_x m)) (ucast (msg_y m)) flags)])"

definition dispatch :: "win32u \<Rightarrow> u32 \<Rightarrow> packet \<Rightarrow> pointer_state \<Rightarrow> pointer_state \<times> user_call list" where
  "dispatch api generation p s = (case p of (m, payload) \<Rightarrow>
     if msg_type m = JUICE_IOS_INPUT \<and> msg_size m = 0 then dispatch_mouse api generation m s
     else if msg_type m = JUICE_IOS_TEXT \<and> msg_size m \<noteq> 0 \<and> msg_size m mod 2 = 0
       then (s, dispatch_text api (msg_hwnd m) payload s)
     else if msg_type m = JUICE_IOS_KEY \<and> msg_size m = 0 \<and> msg_flags m AND 0xffff \<noteq> 0
       then (let target = selected_input_target api (msg_hwnd m) s in
         (s, [SetForegroundWindow (msg_hwnd m), SetActiveWindow (msg_hwnd m), SetFocus target] @
             send_virtual_key target (ucast (msg_flags m AND 0xffff))))
     else if msg_type m = JUICE_IOS_HARDWARE_KEY \<and> msg_size m = 0 \<and> sint (msg_y m) > 0 \<and> sint (msg_y m) \<le> 255 \<and>
             has_bits (msg_flags m) (JUICE_IOS_KEY_DOWN OR JUICE_IOS_KEY_UP)
       then (s, dispatch_hardware_key api m s)
     else (s, []))"

section \<open>The reading loop\<close>

text \<open>
  \<open>inbound\<close> is what the app sends on the open connection and \<open>next_inbound\<close> what it will send
  on later ones; \<open>peeks\<close> scripts the non-blocking \<^verbatim>\<open>recv\<close> with \<^verbatim>\<open>MSG_PEEK\<close> and \<open>reads\<close> the
  blocking \<^verbatim>\<open>read\<close>s.
\<close>

datatype peek_result = Peek nat | Peek_intr | Peek_again | Peek_fail

record input_state =
  ipc :: ipc_state
  inbound :: bytes
  next_inbound :: "bytes list"
  reads :: "io_result list"
  pointer :: pointer_state
  calls :: "user_call list"

definition reader_connect :: "nat \<Rightarrow> input_state \<Rightarrow> input_state option" where
  "reader_connect tid s =
     (if ipc_fd (ipc s) < 0
      then (case connect_ipc_locked (ipc s) of
          None \<Rightarrow> None
        | Some (True, i) \<Rightarrow> Some (s\<lparr>ipc := i, inbound := (case next_inbound s of [] \<Rightarrow> [] | b # _ \<Rightarrow> b),
            next_inbound := tl (next_inbound s)\<rparr>)
        | Some (False, i) \<Rightarrow> Some (s\<lparr>ipc := i\<rparr>))
      else Some s)"

definition drop_connection :: "int \<Rightarrow> u32 \<Rightarrow> input_state \<Rightarrow> input_state" where
  "drop_connection fd generation s = s\<lparr>ipc := disconnect_ipc_fd fd generation (ipc s)\<rparr>"

definition alloc_payload :: "input_state \<Rightarrow> bool \<times> input_state" where
  "alloc_payload s = ((case malloc_script (ipc s) of [] \<Rightarrow> True | b # _ \<Rightarrow> b),
     s\<lparr>ipc := (ipc s)\<lparr>malloc_script := tl (malloc_script (ipc s))\<rparr>\<rparr>)"

definition read_exact :: "nat \<Rightarrow> input_state \<Rightarrow> (bytes option \<times> input_state) option" where
  "read_exact n s = (case read_all (reads s) (inbound s) n of (e, got, inb, os) \<Rightarrow>
     let s' = s\<lparr>inbound := inb, reads := os\<rparr> in
     case e of Done \<Rightarrow> Some (Some got, s') | Failed _ \<Rightarrow> Some (None, s') | Blocked \<Rightarrow> None)"

text \<open>Reading the rest of a message: \<open>Some None\<close> means that the connection was given up.\<close>

definition read_payload :: "int \<Rightarrow> u32 \<Rightarrow> juice_ios_msg \<Rightarrow> input_state \<Rightarrow> (bytes option \<times> input_state) option" where
  "read_payload fd generation m s =
     (if msg_size m > 0x10000 then Some (None, drop_connection fd generation s)
      else if msg_size m = 0 then Some (Some [], s)
      else case alloc_payload s of
          (False, s) \<Rightarrow> Some (None, drop_connection fd generation s)
        | (True, s) \<Rightarrow> (case read_exact (unat (msg_size m)) s of
            None \<Rightarrow> None
          | Some (None, s) \<Rightarrow> Some (None, drop_connection fd generation s)
          | Some (Some payload, s) \<Rightarrow> Some (Some payload, s)))"

definition read_message :: "int \<Rightarrow> u32 \<Rightarrow> input_state \<Rightarrow> (packet option \<times> input_state) option" where
  "read_message fd generation s =
     (case read_exact MSG_BYTES s of
        None \<Rightarrow> None
      | Some (None, s) \<Rightarrow> Some (None, drop_connection fd generation s)
      | Some (Some header, s) \<Rightarrow>
          (let m = decode_msg header in
           case read_payload fd generation m s of
             None \<Rightarrow> None
           | Some (None, s) \<Rightarrow> Some (None, s)
           | Some (Some payload, s) \<Rightarrow> Some (Some (m, payload), s)))"

definition handle_packet :: "win32u \<Rightarrow> u32 \<Rightarrow> packet \<Rightarrow> input_state \<Rightarrow> input_state" where
  "handle_packet api generation p s =
     (if msg_magic (fst p) \<noteq> JUICE_IOS_MAGIC then s
      else case dispatch api generation p (pointer s) of
        (ptr, cs) \<Rightarrow> s\<lparr>pointer := ptr, calls := calls s @ cs\<rparr>)"

fun ios_ipc_process_input :: "win32u \<Rightarrow> nat \<Rightarrow> peek_result list \<Rightarrow> input_state \<Rightarrow> (input_state \<times> peek_result list) option" where
  "ios_ipc_process_input api tid [] s =
     (case reader_connect tid s of
        None \<Rightarrow> None
      | Some s \<Rightarrow> if ipc_fd (ipc s) < 0 then Some (s, []) else None)"
| "ios_ipc_process_input api tid (pk # rest) s =
     (case reader_connect tid s of
        None \<Rightarrow> None
      | Some s \<Rightarrow>
          (let fd = ipc_fd (ipc s); generation = ipc_generation (ipc s) in
           if fd < 0 then Some (s, pk # rest)
           else let s = s\<lparr>ipc := ios_ipc_register_queue tid (ipc s)\<rparr> in
           case pk of
             Peek_intr \<Rightarrow> ios_ipc_process_input api tid rest s
           | Peek_again \<Rightarrow> Some (s, rest)
           | Peek_fail \<Rightarrow> Some (drop_connection fd generation s, rest)
           | Peek n \<Rightarrow>
               (let available = min n (min MSG_BYTES (length (inbound s))) in
                if available = 0 then Some (drop_connection fd generation s, rest)
                else if available < MSG_BYTES then Some (s, rest)
                else case read_message fd generation s of
                    None \<Rightarrow> None
                  | Some (None, s) \<Rightarrow> Some (s, rest)
                  | Some (Some p, s) \<Rightarrow> ios_ipc_process_input api tid rest (handle_packet api generation p s))))"

declare ios_ipc_process_input.simps [simp del]

section \<open>The loop handles whole packets, in order\<close>

fun dispatch_all :: "win32u \<Rightarrow> u32 \<Rightarrow> packet list \<Rightarrow> pointer_state \<Rightarrow> pointer_state \<times> user_call list" where
  "dispatch_all api g [] ptr = (ptr, [])"
| "dispatch_all api g (p # ps) ptr =
     (let (ptr1, cs) = (if msg_magic (fst p) \<noteq> JUICE_IOS_MAGIC then (ptr, []) else dispatch api g p ptr);
          (ptr2, cs') = dispatch_all api g ps ptr1
      in (ptr2, cs @ cs'))"

lemma dispatch_all_append:
  "dispatch_all api g (ps @ qs) ptr =
     (let (ptr1, cs) = dispatch_all api g ps ptr; (ptr2, cs') = dispatch_all api g qs ptr1 in (ptr2, cs @ cs'))"
  by (induction ps arbitrary: ptr) (auto simp: Let_def split: prod.splits)

lemma handle_packet_dispatch:
  "pointer (handle_packet api g p s) = fst (dispatch_all api g [p] (pointer s))"
  "calls (handle_packet api g p s) = calls s @ snd (dispatch_all api g [p] (pointer s))"
  "inbound (handle_packet api g p s) = inbound s" "ipc (handle_packet api g p s) = ipc s"
  by (auto simp: handle_packet_def Let_def split: prod.splits)

lemma read_exact_cases:
  assumes "read_exact n s = Some (res, s')"
  shows "pointer s' = pointer s \<and> calls s' = calls s \<and> ipc s' = ipc s \<and>
    (\<forall>got. res = Some got \<longrightarrow> got = take n (inbound s) \<and> inbound s' = drop n (inbound s) \<and> n \<le> length (inbound s))"
proof -
  obtain e got inb os where r: "read_all (reads s) (inbound s) n = (e, got, inb, os)" by (rule prod_cases4)
  with assms have s': "s' = s\<lparr>inbound := inb, reads := os\<rparr>" and e: "res = (if e = Done then Some got else None)"
    by (auto simp: read_exact_def Let_def split: io_end.splits)
  show ?thesis
    using s' e all_reader.recv_done_take [of "reads s" "inbound s" n got inb os] r by auto
qed

lemma decode_msg_take: "48 \<le> length bs \<Longrightarrow> decode_msg (take MSG_BYTES bs) = decode_msg bs"
  by (simp add: decode_msg_def le64_def le32_def le16_def MSG_BYTES_def del: byte_at_nth)

lemma alloc_payload_frame:
  assumes "alloc_payload s = (b, s')"
  shows "pointer s' = pointer s \<and> calls s' = calls s \<and> inbound s' = inbound s \<and>
    ipc_fd (ipc s') = ipc_fd (ipc s) \<and> ipc_generation (ipc s') = ipc_generation (ipc s)"
  using assms by (auto simp: alloc_payload_def)

lemma drop_connection_frame:
  "pointer (drop_connection fd g s) = pointer s" "calls (drop_connection fd g s) = calls s"
  "fd = ipc_fd (ipc s) \<Longrightarrow> g = ipc_generation (ipc s) \<Longrightarrow> ipc_fd (ipc (drop_connection fd g s)) = -1"
  by (simp_all add: drop_connection_def disconnect_ipc_fd_def disconnect_ipc_locked_def Let_def)

lemma read_payload_cases:
  assumes "read_payload (ipc_fd (ipc s)) (ipc_generation (ipc s)) m s = Some (res, s')"
  shows "pointer s' = pointer s \<and> calls s' = calls s \<and>
    (case res of
       None \<Rightarrow> ipc_fd (ipc s') = -1
     | Some payload \<Rightarrow> payload = take (unat (msg_size m)) (inbound s) \<and> inbound s' = drop (unat (msg_size m)) (inbound s) \<and>
         unat (msg_size m) \<le> length (inbound s) \<and> unat (msg_size m) \<le> 65536 \<and>
         ipc_fd (ipc s') = ipc_fd (ipc s) \<and> ipc_generation (ipc s') = ipc_generation (ipc s))"
proof (cases "msg_size m > 0x10000 \<or> msg_size m = 0")
  case True
  with assms show ?thesis by (auto simp: read_payload_def drop_connection_frame split: if_splits)
next
  case False
  then have small: "unat (msg_size m) \<le> 65536" by (simp add: word_less_unat not_less)
  obtain b s1 where a: "alloc_payload s = (b, s1)" by fastforce
  note f = alloc_payload_frame [OF a]
  show ?thesis
  proof (cases b)
    case no: False
    with assms False a f show ?thesis by (auto simp: read_payload_def drop_connection_frame)
  next
    case True
    with assms False a obtain r2 s2 where x: "read_exact (unat (msg_size m)) s1 = Some (r2, s2)"
      by (auto simp: read_payload_def split: option.splits)
    note e = read_exact_cases [OF x]
    show ?thesis
      using assms False a True x e f small
      by (cases r2) (auto simp: read_payload_def drop_connection_frame)
  qed
qed

lemma read_message_cases:
  assumes "read_message (ipc_fd (ipc s)) (ipc_generation (ipc s)) s = Some (res, s')"
  shows "pointer s' = pointer s \<and> calls s' = calls s \<and>
    (case res of
       None \<Rightarrow> ipc_fd (ipc s') = -1
     | Some p \<Rightarrow> split_stream (inbound s) = (p # fst (split_stream (inbound s')), snd (split_stream (inbound s'))) \<and>
         unat (msg_size (fst p)) \<le> 65536 \<and>
         ipc_fd (ipc s') = ipc_fd (ipc s) \<and> ipc_generation (ipc s') = ipc_generation (ipc s))"
proof -
  from assms obtain r1 s1 where h: "read_exact MSG_BYTES s = Some (r1, s1)"
    by (auto simp: read_message_def split: option.splits)
  note e = read_exact_cases [OF h]
  show ?thesis
  proof (cases r1)
    case None
    with assms h e show ?thesis by (auto simp: read_message_def drop_connection_frame)
  next
    case (Some header)
    then have hd: "header = take MSG_BYTES (inbound s)" "inbound s1 = drop MSG_BYTES (inbound s)"
        "MSG_BYTES \<le> length (inbound s)"
      using e by auto
    have dec: "decode_msg header = decode_msg (inbound s)"
      using hd decode_msg_take [of "inbound s"] by (simp add: MSG_BYTES_def)
    let ?m = "decode_msg (inbound s)"
    from assms h Some obtain r2 where p: "read_payload (ipc_fd (ipc s1)) (ipc_generation (ipc s1)) ?m s1 = Some (r2, s')"
        and res: "res = map_option (\<lambda>payload. (?m, payload)) r2"
      using e by (auto simp: read_message_def dec Let_def split: option.splits)
    note q = read_payload_cases [OF p]
    show ?thesis
    proof (cases r2)
      case None
      with q e res show ?thesis by simp
    next
      case (Some payload)
      with q hd have "split_stream (inbound s) =
          ((?m, payload) # fst (split_stream (inbound s')), snd (split_stream (inbound s')))"
        by (subst split_stream.simps) (auto simp: Let_def add.commute split: prod.splits)
      with Some q e res show ?thesis by simp
    qed
  qed
qed

lemma process_input_exact:
  assumes "ipc_fd (ipc s) \<ge> 0" "g = ipc_generation (ipc s)"
    and "ios_ipc_process_input api tid peeks s = Some (s', rest)"
  shows "\<exists>k. (pointer s', drop (length (calls s)) (calls s')) =
      dispatch_all api g (take k (fst (split_stream (inbound s)))) (pointer s) \<and>
    is_prefix (calls s) (calls s') \<and> k \<le> length (fst (split_stream (inbound s))) \<and>
    (ipc_fd (ipc s') = ipc_fd (ipc s) \<longrightarrow> fst (split_stream (inbound s')) = drop k (fst (split_stream (inbound s))))"
  using assms
proof (induction peeks arbitrary: s)
  case Nil
  then show ?case by (subst (asm) ios_ipc_process_input.simps) (simp add: reader_connect_def Let_def)
next
  case (Cons pk peeks)
  define t where "t = s\<lparr>ipc := ios_ipc_register_queue tid (ipc s)\<rparr>"
  have t: "pointer t = pointer s" "calls t = calls s" "inbound t = inbound s"
      "ipc_fd (ipc t) = ipc_fd (ipc s)" "ipc_generation (ipc t) = ipc_generation (ipc s)"
    by (simp_all add: t_def register_queue_frame)
  have rc: "reader_connect tid s = Some s" using Cons.prems(1) by (simp add: reader_connect_def)
  note unfold = ios_ipc_process_input.simps(2) [of api tid pk peeks s, unfolded rc option.case Let_def,
      folded t_def, unfolded if_not_P [OF Cons.prems(1) [folded not_less]]]
  have stop: ?case if "pointer s' = pointer s" "calls s' = calls s" "inbound s' = inbound s \<or> ipc_fd (ipc s') = -1"
    using that Cons.prems(1) by (intro exI [of _ 0]) auto
  show ?case
  proof (cases pk)
    case Peek_intr
    with Cons.IH [of t] Cons.prems unfold t show ?thesis by simp
  next
    case Peek_again
    with Cons.prems(3) unfold have "s' = t" by simp
    with stop t show ?thesis by simp
  next
    case Peek_fail
    with Cons.prems(3) unfold have "s' = drop_connection (ipc_fd (ipc s)) (ipc_generation (ipc s)) t" by simp
    with stop t show ?thesis by (simp add: drop_connection_frame)
  next
    case (Peek n)
    define av where "av = min n (min MSG_BYTES (length (inbound t)))"
    show ?thesis
    proof (cases "av < MSG_BYTES")
      case True
      with Peek Cons.prems(3) unfold have "s' = t \<or> s' = drop_connection (ipc_fd (ipc s)) (ipc_generation (ipc s)) t"
        by (auto simp: av_def [symmetric] split: if_splits)
      with stop t show ?thesis by (auto simp: drop_connection_frame)
    next
      case False
      then have "\<not> av = 0" by (simp add: MSG_BYTES_def)
      with False Peek unfold Cons.prems(3) obtain res u where
        m: "read_message (ipc_fd (ipc t)) (ipc_generation (ipc t)) t = Some (res, u)"
        by (auto simp: av_def [symmetric] t(4,5) split: option.splits)
      note c = read_message_cases [OF m]
      show ?thesis
      proof (cases res)
        case None
        with m False \<open>\<not> av = 0\<close> Peek unfold Cons.prems(3) have "s' = u" by (simp add: av_def [symmetric] t(4,5))
        with stop None c t show ?thesis by simp
      next
        case (Some p)
        define v where "v = handle_packet api g p u"
        from Some m False \<open>\<not> av = 0\<close> Peek unfold Cons.prems
        have run: "ios_ipc_process_input api tid peeks v = Some (s', rest)"
          by (simp add: av_def [symmetric] t(4,5) v_def)
        have v: "ipc_fd (ipc v) = ipc_fd (ipc s)" "ipc_generation (ipc v) = ipc_generation (ipc s)"
            "inbound v = inbound u" "calls v = calls s @ snd (dispatch_all api g [p] (pointer s))"
            "pointer v = fst (dispatch_all api g [p] (pointer s))"
          using c Some t by (simp_all add: v_def handle_packet_dispatch)
        from Cons.IH [OF _ _ run] v Cons.prems(1,2) obtain k where k:
            "(pointer s', drop (length (calls v)) (calls s')) = dispatch_all api g (take k (fst (split_stream (inbound v)))) (pointer v)"
            "is_prefix (calls v) (calls s')" "k \<le> length (fst (split_stream (inbound v)))"
            "ipc_fd (ipc s') = ipc_fd (ipc v) \<longrightarrow> fst (split_stream (inbound s')) = drop k (fst (split_stream (inbound v)))"
          by auto
        have sp: "fst (split_stream (inbound s)) = p # fst (split_stream (inbound v))"
          using c Some t v by simp
        obtain more where more: "calls s' = calls v @ more" using k(2) by (auto simp: is_prefix_iff)
        show ?thesis
        proof (intro exI [of _ "Suc k"] conjI)
          show "(pointer s', drop (length (calls s)) (calls s')) =
              dispatch_all api g (take (Suc k) (fst (split_stream (inbound s)))) (pointer s)"
            using k(1) more v unfolding sp
            by (auto simp: dispatch_all_append [of api g "[p]", simplified] Let_def split: prod.splits)
        qed (use k v sp more in \<open>auto simp: is_prefix_iff\<close>)
      qed
    qed
  qed
qed

section \<open>Pointer capture\<close>

definition pressed :: "juice_ios_msg \<Rightarrow> bool" where
  "pressed m \<longleftrightarrow> msg_type m = JUICE_IOS_INPUT \<and> msg_size m = 0 \<and>
     has_bits (msg_flags m) (JUICE_IOS_LEFT_DOWN OR JUICE_IOS_RIGHT_DOWN) \<and>
     \<not> has_bits (msg_flags m) (JUICE_IOS_LEFT_UP OR JUICE_IOS_RIGHT_UP)"

definition dragged :: "juice_ios_msg \<Rightarrow> bool" where
  "dragged m \<longleftrightarrow> msg_type m = JUICE_IOS_INPUT \<and> msg_size m = 0 \<and> msg_magic m = JUICE_IOS_MAGIC \<and>
     has_bits (msg_flags m) JUICE_IOS_COORDS_DESKTOP \<and>
     \<not> has_bits (msg_flags m) (JUICE_IOS_LEFT_DOWN OR JUICE_IOS_RIGHT_DOWN) \<and>
     \<not> has_bits (msg_flags m) (JUICE_IOS_LEFT_UP OR JUICE_IOS_RIGHT_UP)"

definition captured :: "u32 \<Rightarrow> u64 \<Rightarrow> pointer_state \<Rightarrow> bool" where
  "captured g target s \<longleftrightarrow> pointer_down s \<and> input_target s = target \<and> target \<noteq> 0 \<and> pointer_generation s = g"

lemma hit_or_self_nonzero: "hwnd \<noteq> 0 \<Longrightarrow> hit_or_self api hwnd t x y \<noteq> 0"
  by (simp add: hit_or_self_def Let_def)

lemma press_captures:
  assumes "pressed m" "msg_hwnd m \<noteq> 0"
  shows "captured g (input_target (fst (dispatch api g (m, pl) s))) (fst (dispatch api g (m, pl) s)) \<and>
    (\<exists>ev. snd (dispatch api g (m, pl) s) =
       [SetForegroundWindow (msg_hwnd m), SetActiveWindow (msg_hwnd m),
        SetFocus (input_target (fst (dispatch api g (m, pl) s))),
        SendHardwareInput (input_target (fst (dispatch api g (m, pl) s))) ev])"
proof -
  obtain dx dy t where t: "mouse_target api g m True s = (dx, dy, t)" by (rule prod_cases3)
  have "t \<noteq> 0"
    using t hit_or_self_nonzero [OF assms(2)] by (auto simp: mouse_target_def Let_def split: if_splits option.splits)
  with t assms show ?thesis
    by (auto simp: dispatch_def dispatch_mouse_def pressed_def captured_def Let_def)
qed

lemma drag_delivers:
  assumes "captured g target s" "dragged m"
  shows "dispatch api g (m, pl) s =
    (s, [SendHardwareInput target (Mouse (msg_x m) (msg_y m) (mouse_data m) (mouse_flags (msg_flags m)))])"
  using assms by (simp add: captured_def dragged_def dispatch_def dispatch_mouse_def mouse_target_def Let_def)

lemma drags_deliver:
  assumes "captured g target s" "\<forall>p \<in> set ps. dragged (fst p)"
  shows "dispatch_all api g ps s =
    (s, map (\<lambda>(m, _). SendHardwareInput target (Mouse (msg_x m) (msg_y m) (mouse_data m) (mouse_flags (msg_flags m)))) ps)"
  using assms
proof (induction ps)
  case (Cons p ps)
  obtain m pl where p: "p = (m, pl)" by fastforce
  with Cons drag_delivers [OF Cons.prems(1), of m api pl] show ?case by (simp add: dragged_def)
qed simp

section \<open>Properties\<close>


definition plain_win32u :: win32u where
  "plain_win32u = \<lparr>window_rect = (\<lambda>_. None), child_from_point = (\<lambda>h _ _. h), window_from_point = (\<lambda>_ _. 9),
     root_of = (\<lambda>h. h)\<rparr>"

definition sample_key :: juice_ios_msg where
  "sample_key = \<lparr>msg_magic = JUICE_IOS_MAGIC, msg_type = JUICE_IOS_KEY, msg_size = 0, msg_pad = 0, msg_hwnd = 5,
     msg_x = 0, msg_y = 0, msg_width = 0, msg_height = 0, msg_stride = 0, msg_flags = 13\<rparr>"

definition sample_input :: input_state where
  "sample_input = \<lparr>ipc = (ipc_start [] [] [] [] 7 0)\<lparr>ipc_fd := 3, ipc_generation := 1\<rparr>,
     inbound = encode_msg sample_key @ [1, 2], next_inbound = [], reads = [Xfer 48],
     pointer = \<lparr>input_target = 0, pointer_down = False, pointer_generation = 0\<rparr>, calls = []\<rparr>"

lemma sample_input_run:
  "case ios_ipc_process_input plain_win32u 0 [Peek 48, Peek 2] sample_input of
     None \<Rightarrow> False | Some (s', rest) \<Rightarrow> ipc_fd (ipc s') = 3 \<and> length (calls s') = 5"
  by (simp add: sample_input_def ios_ipc_process_input.simps reader_connect_def read_message_def read_exact_def
      read_payload_def read_all_code [of "[Xfer 48]"] MSG_BYTES_def decode_encode handle_packet_def dispatch_def
      send_virtual_key_def sample_key_def register_queue_frame ipc_start_def wire_simps Let_def)



definition sample_mouse :: "u32 \<Rightarrow> juice_ios_msg" where
  "sample_mouse flags = sample_key\<lparr>msg_type := JUICE_IOS_INPUT, msg_flags := flags, msg_x := 3, msg_y := 4\<rparr>"


end
