(* ===== verification/Display_Receiver.thy ===== *)
theory Display_Receiver
  imports Display_Wire Graphics_Policy "HOL-Library.AList"
begin

text \<open>
  The receiving side of the display transport, \<^verbatim>\<open>app/JuiceDisplayTransportHardening.m\<close>: the
  header checks, the in-flight and retained byte budgets, the framebuffers of the windows,
  and the reader loop over the stream of one client.  The framebuffers are an association
  list from window handles (the code's dictionary); a framebuffer object that was invalidated
  has lost its bytes.  Delivery to UIKit is not modelled.
\<close>

section \<open>Header checks\<close>

definition JuiceDimensionsValid :: "u32 \<Rightarrow> u32 \<Rightarrow> int \<Rightarrow> nat \<Rightarrow> bool" where
  "JuiceDimensionsValid width height maxDimension maxPixels =
     (if sint width \<le> 0 \<or> sint height \<le> 0 \<or> sint width > maxDimension \<or> sint height > maxDimension then False
      else unat width * unat height \<le> maxPixels)"

definition JuiceDesktopGeometryValid :: "juice_ios_msg \<Rightarrow> bool" where
  "JuiceDesktopGeometryValid m = JuiceDimensionsValid (msg_width m) (msg_height m) 8192 16777216"

definition JuiceWindowGeometryValid :: "juice_ios_msg \<Rightarrow> bool" where
  "JuiceWindowGeometryValid m =
     (if sint (msg_width m) \<le> 0 \<and> sint (msg_height m) \<le> 0 then True
      else if \<not> JuiceDimensionsValid (msg_width m) (msg_height m) 8192 16777216 then False
      else sint (msg_x m) \<ge> -131072 \<and> sint (msg_x m) \<le> 131072 \<and>
           sint (msg_y m) \<ge> -131072 \<and> sint (msg_y m) \<le> 131072)"

definition JuiceFullHeaderValid :: "juice_ios_msg \<Rightarrow> bool" where
  "JuiceFullHeaderValid m =
     (if \<not> JuiceDimensionsValid (msg_width m) (msg_height m) 8192 16777216 then False
      else if unat (msg_width m) * 4 > unat (msg_stride m) then False
      else let expected = unat (msg_stride m) * unat (msg_height m) in
        expected = unat (msg_size m) \<and> expected \<le> 134217728)"

definition JuiceDirtyHeaderValid :: "juice_ios_msg \<Rightarrow> bool" where
  "JuiceDirtyHeaderValid m =
     (if \<not> JuiceDimensionsValid (msg_width m) (msg_height m) 8192 16777216 \<or>
         sint (msg_x m) < 0 \<or> sint (msg_y m) < 0 then False
      else if unat (msg_width m) * 4 > unat (msg_stride m) then False
      else let expected = unat (msg_stride m) * unat (msg_height m) in
        expected = unat (msg_size m) \<and> expected \<le> 134217728)"

section \<open>Framebuffers\<close>

record framebuffer =
  fb_bytes :: bytes
  fb_width :: u32
  fb_height :: u32
  fb_stride :: u32
  fb_client :: int
  fb_peer :: u32
  fb_generation :: nat
  fb_received :: nat

record receiver =
  frames :: "(u64 \<times> framebuffer) list"
  pending :: nat

text \<open>The in-flight budget; the subtraction cannot wrap because \<open>pending\<close> stays within it.\<close>

definition JuiceReserveDisplayPayload :: "nat \<Rightarrow> receiver \<Rightarrow> receiver option" where
  "JuiceReserveDisplayPayload n r =
     (if n > 134217728 - pending r then None else Some (r\<lparr>pending := pending r + n\<rparr>))"

definition JuiceReleaseDisplayPayload :: "nat \<Rightarrow> receiver \<Rightarrow> receiver" where
  "JuiceReleaseDisplayPayload n r = r\<lparr>pending := pending r - n\<rparr>"

definition JuiceInvalidateHWND :: "u64 \<Rightarrow> int \<Rightarrow> receiver \<Rightarrow> receiver" where
  "JuiceInvalidateHWND hwnd fd r =
     (case map_of (frames r) hwnd of
        None \<Rightarrow> r
      | Some f \<Rightarrow> if fb_client f \<noteq> fd then r else r\<lparr>frames := AList.delete hwnd (frames r)\<rparr>)"

definition JuiceInvalidateClient :: "int \<Rightarrow> receiver \<Rightarrow> receiver" where
  "JuiceInvalidateClient fd r = r\<lparr>frames := filter (\<lambda>(_, f). fb_client f \<noteq> fd) (frames r)\<rparr>"

definition retained_except :: "u64 \<Rightarrow> receiver \<Rightarrow> nat" where
  "retained_except hwnd r =
     sum_list (map (\<lambda>(h, f). if h = hwnd then 0 else length (fb_bytes f)) (frames r))"

definition JuiceApplyFull :: "juice_ios_msg \<Rightarrow> bytes \<Rightarrow> int \<Rightarrow> u32 \<Rightarrow> receiver \<Rightarrow> receiver option" where
  "JuiceApplyFull m data fd peer r =
     (if \<not> JuiceFullHeaderValid m \<or> length data \<noteq> unat (msg_size m) then None
      else let old = map_of (frames r) (msg_hwnd m) in
      if old = None \<and> length (frames r) \<ge> 128 then None
      else let retained = retained_except (msg_hwnd m) r in
      if retained > 268435456 \<or> length data > 268435456 - retained then None
      else let
          fresh = \<lparr>fb_bytes = data, fb_width = msg_width m, fb_height = msg_height m, fb_stride = msg_stride m,
            fb_client = fd, fb_peer = peer, fb_generation = 1, fb_received = 1\<rparr>;
          f = (case old of None \<Rightarrow> fresh
            | Some f \<Rightarrow> if fb_width f = msg_width m \<and> fb_height f = msg_height m \<and> fb_stride f = msg_stride m \<and>
                length (fb_bytes f) = length data
              then f\<lparr>fb_bytes := data, fb_client := fd, fb_peer := peer,
                fb_generation := fb_generation f + 1, fb_received := fb_received f + 1\<rparr>
              else fresh)
        in Some (r\<lparr>frames := AList.update (msg_hwnd m) f (frames r)\<rparr>))"

definition overwrite :: "bytes \<Rightarrow> nat \<Rightarrow> bytes \<Rightarrow> bytes" where
  "overwrite d off xs = take off d @ xs @ drop (off + length xs) d"

text \<open>
  One \<^verbatim>\<open>memcpy\<close> of the loop: the row of the framebuffer that starts at byte \<open>p\<close> receives the
  message's row of the same line.
\<close>

definition blit_row :: "nat \<Rightarrow> nat \<Rightarrow> nat \<Rightarrow> nat \<Rightarrow> nat \<Rightarrow> bytes \<Rightarrow> bytes \<Rightarrow> nat \<Rightarrow> bytes" where
  "blit_row stride x y rowBytes mstride source d p =
     overwrite d (p + x * 4) (sub_list ((p div stride - y) * mstride) rowBytes source)"

definition JuiceApplyDirty :: "juice_ios_msg \<Rightarrow> bytes \<Rightarrow> int \<Rightarrow> u32 \<Rightarrow> receiver \<Rightarrow> receiver option" where
  "JuiceApplyDirty m data fd peer r =
     (if \<not> JuiceDirtyHeaderValid m \<or> length data \<noteq> unat (msg_size m) then None
      else case map_of (frames r) (msg_hwnd m) of
          None \<Rightarrow> None
        | Some f \<Rightarrow>
            if fb_client f \<noteq> fd \<or> fb_peer f \<noteq> peer \<or>
               unat (msg_x m) + unat (msg_width m) > unat (fb_width f) \<or>
               unat (msg_y m) + unat (msg_height m) > unat (fb_height f) then None
            else let
                stride = unat (fb_stride f); y = unat (msg_y m);
                merged = fold (\<lambda>row d. blit_row stride (unat (msg_x m)) y (unat (msg_width m) * 4)
                    (unat (msg_stride m)) data d (y * stride + row * stride)) [0..<unat (msg_height m)] (fb_bytes f)
              in Some (r\<lparr>frames := AList.update (msg_hwnd m)
                   (f\<lparr>fb_bytes := merged, fb_generation := fb_generation f + 1, fb_received := fb_received f + 1\<rparr>)
                   (frames r)\<rparr>))"

section \<open>The reader loop\<close>

definition dirty_flag :: "juice_ios_msg \<Rightarrow> bool" where
  "dirty_flag m = has_bits (msg_flags m) JUICE_IOS_FRAME_DIRTY"

text \<open>The checks made on a header before anything is allocated.\<close>

definition header_accepted :: "juice_ios_msg \<Rightarrow> bool" where
  "header_accepted m =
     (let fixed = (msg_type m = JUICE_IOS_HELLO \<or> msg_type m = JUICE_IOS_WINDOW \<or> msg_type m = JUICE_IOS_DESTROY) in
      if msg_magic m \<noteq> JUICE_IOS_MAGIC then False
      else if fixed \<and> msg_size m \<noteq> 0 then False
      else if msg_type m = JUICE_IOS_FRAME \<and>
              (if dirty_flag m then \<not> JuiceDirtyHeaderValid m else \<not> JuiceFullHeaderValid m) then False
      else if msg_type m \<noteq> JUICE_IOS_FRAME \<and> \<not> fixed then False
      else if msg_type m = JUICE_IOS_HELLO \<and> \<not> JuiceDesktopGeometryValid m then False
      else if msg_type m = JUICE_IOS_WINDOW \<and> \<not> JuiceWindowGeometryValid m then False
      else True)"

text \<open>A FRAME message whose payload has been read: \<open>None\<close> ends the connection.\<close>

definition frame_step :: "int \<Rightarrow> u32 \<Rightarrow> juice_ios_msg \<Rightarrow> bytes \<Rightarrow> receiver \<Rightarrow> receiver option" where
  "frame_step fd peer m data r =
     (if dirty_flag m
      then (case JuiceApplyDirty m data fd peer r of None \<Rightarrow> Some r | Some r' \<Rightarrow> Some r')
      else JuiceApplyFull m data fd peer r)"

text \<open>
  The loop over the rest of a client's stream.  It ends when the stream does, or at the
  first message it rejects; then everything the client owned is invalidated.
\<close>

function read_client :: "int \<Rightarrow> u32 \<Rightarrow> bytes \<Rightarrow> receiver \<Rightarrow> receiver" where
  "read_client fd peer bs r =
     (if length bs < MSG_BYTES then JuiceInvalidateClient fd r
      else let m = decode_msg bs; rest = drop MSG_BYTES bs; n = unat (msg_size m) in
        if \<not> header_accepted m then JuiceInvalidateClient fd r
        else if msg_type m = JUICE_IOS_FRAME then
          (case JuiceReserveDisplayPayload n r of
             None \<Rightarrow> JuiceInvalidateClient fd r
           | Some r1 \<Rightarrow>
               if length rest < n then JuiceInvalidateClient fd (JuiceReleaseDisplayPayload n r1)
               else case frame_step fd peer m (take n rest) r1 of
                   None \<Rightarrow> JuiceInvalidateClient fd (JuiceReleaseDisplayPayload n r1)
                 | Some r2 \<Rightarrow> read_client fd peer (drop n rest) (JuiceReleaseDisplayPayload n r2))
        else if msg_type m = JUICE_IOS_HELLO then read_client fd (msg_flags m) rest r
        else if msg_type m = JUICE_IOS_DESTROY then read_client fd peer rest (JuiceInvalidateHWND (msg_hwnd m) fd r)
        else read_client fd peer rest r)"
  by pat_completeness auto
termination
  by (relation "measure (\<lambda>(_, _, bs, _). length bs)") (auto simp: MSG_BYTES_def)

declare read_client.simps [simp del]

section \<open>Copying rows\<close>

lemma overwrite_length [simp]: "off + length xs \<le> length d \<Longrightarrow> length (overwrite d off xs) = length d"
  by (simp add: overwrite_def)

lemma overwrite_nth:
  "off + length xs \<le> length d \<Longrightarrow> i < length d \<Longrightarrow>
   overwrite d off xs ! i = (if off \<le> i \<and> i < off + length xs then xs ! (i - off) else d ! i)"
  by (auto simp: overwrite_def nth_append)

lemma blit_row_block_update:
  assumes "x * 4 + rowBytes \<le> stride"
  shows "block_update (blit_row stride x y rowBytes mstride source) stride"
proof
  fix p :: nat and d d' :: bytes and i :: nat
  assume d: "p + stride \<le> length d"
  let ?s = "sub_list ((p div stride - y) * mstride) rowBytes source"
  have fit: "p + x * 4 + length ?s \<le> p + stride" using assms by simp
  show "length (blit_row stride x y rowBytes mstride source d p) = length d"
    unfolding blit_row_def by (rule overwrite_length) (use fit d in linarith)
  show "blit_row stride x y rowBytes mstride source d p ! i = d ! i" if "i < length d" "i < p \<or> p + stride \<le> i"
    unfolding blit_row_def by (subst overwrite_nth) (use fit d that in auto)
  assume d': "length d' = length d" and eq: "\<And>j. p \<le> j \<Longrightarrow> j < p + stride \<Longrightarrow> d' ! j = d ! j"
    and i: "p \<le> i" "i < p + stride"
  have o: "p + x * 4 + length ?s \<le> length d" "p + x * 4 + length ?s \<le> length d'" "i < length d"
    using fit d d' i by linarith+
  show "blit_row stride x y rowBytes mstride source d' p ! i = blit_row stride x y rowBytes mstride source d p ! i"
    unfolding blit_row_def
    by (subst (1 2) overwrite_nth) (use o d' eq [OF i] in auto)
qed

text \<open>What the row loop of \<open>JuiceApplyDirty\<close> computes, byte by byte.\<close>

lemma blit_rows_nth:
  assumes fit: "x * 4 + rowBytes \<le> stride" "0 < stride" and d: "y * stride + h * stride \<le> length d"
    and src: "h * mstride \<le> length source" "rowBytes \<le> mstride"
  defines "res \<equiv> fold (\<lambda>row d. blit_row stride x y rowBytes mstride source d (y * stride + row * stride)) [0..<h] d"
  shows "length res = length d \<and> (\<forall>i < length d. res ! i =
    (if y \<le> i div stride \<and> i div stride < y + h \<and> x * 4 \<le> i mod stride \<and> i mod stride < x * 4 + rowBytes
     then source ! ((i div stride - y) * mstride + (i mod stride - x * 4)) else d ! i))"
proof -
  let ?f = "blit_row stride x y rowBytes mstride source"
  note blocks = block_update.fold_blocks [OF blit_row_block_update [OF fit(1), of y mstride source] d]
  have "res ! i = (if y \<le> i div stride \<and> i div stride < y + h \<and> x * 4 \<le> i mod stride \<and> i mod stride < x * 4 + rowBytes
     then source ! ((i div stride - y) * mstride + (i mod stride - x * 4)) else d ! i)" if i: "i < length d" for i
  proof -
    define q where "q = i div stride"
    define k where "k = i mod stride"
    have qk: "i = q * stride + k" "k < stride" using fit(2) by (simp_all add: q_def k_def)
    show ?thesis
    proof (cases "y * stride \<le> i \<and> i < y * stride + h * stride")
      case True
      have "i < (y + h) * stride" using True by (simp add: algebra_simps)
      then have q: "y \<le> q" "q < y + h"
        using True fit(2) by (simp_all add: q_def less_eq_div_iff_mult_less_eq div_less_iff_less_mult)
      have "i - y * stride = (q - y) * stride + k" using qk q by (simp add: algebra_simps diff_mult_distrib)
      then have "(i - y * stride) div stride = q - y" using qk(2) by simp
      then have p: "y * stride + (i - y * stride) div stride * stride = q * stride"
        using q by (simp add: algebra_simps diff_mult_distrib)
      have "res ! i = ?f d (q * stride) ! i" using blocks i True p by (simp add: res_def)
      also have "\<dots> = (if x * 4 \<le> k \<and> k < x * 4 + rowBytes then source ! ((q - y) * mstride + (k - x * 4)) else d ! i)"
      proof -
        have "Suc (q - y) * mstride \<le> h * mstride" using q by (intro mult_le_mono1) simp
        then have len: "length (sub_list ((q - y) * mstride) rowBytes source) = rowBytes"
          using src by simp
        have "q * stride + stride \<le> length d"
          using q d by (metis (no_types, opaque_lifting) Suc_leI add.commute add_mult_distrib le_trans mult_Suc mult_le_mono1)
        then have "q * stride + x * 4 + rowBytes \<le> length d" using fit by linarith
        then show ?thesis
          using i qk len fit(2) by (auto simp: blit_row_def overwrite_nth sub_list_def)
      qed
      finally show ?thesis using q by (simp add: q_def k_def)
    next
      case False
      then have "\<not> (y \<le> q \<and> q < y + h)"
        using fit(2) by (auto simp: q_def less_eq_div_iff_mult_less_eq div_less_iff_less_mult algebra_simps)
      moreover have "res ! i = d ! i" using blocks i False by (auto simp: res_def)
      ultimately show ?thesis by (auto simp: q_def)
    qed
  qed
  with blocks show ?thesis by (simp add: res_def)
qed

section \<open>Budgets and shapes\<close>

definition frame_ok :: "framebuffer \<Rightarrow> bool" where
  "frame_ok f \<longleftrightarrow> JuiceDimensionsValid (fb_width f) (fb_height f) 8192 16777216 \<and>
     unat (fb_width f) * 4 \<le> unat (fb_stride f) \<and>
     length (fb_bytes f) = unat (fb_stride f) * unat (fb_height f)"

definition retained :: "receiver \<Rightarrow> nat" where
  "retained r = sum_list (map (\<lambda>(_, f). length (fb_bytes f)) (frames r))"

definition receiver_ok :: "receiver \<Rightarrow> bool" where
  "receiver_ok r \<longleftrightarrow> pending r \<le> 134217728 \<and> distinct (map fst (frames r)) \<and> length (frames r) \<le> 128 \<and>
     retained r \<le> 268435456 \<and> (\<forall>(h, f) \<in> set (frames r). frame_ok f)"

lemma sum_update:
  "distinct (map fst xs) \<Longrightarrow>
   sum_list (map (\<lambda>(_, f). length (fb_bytes f)) (AList.update k v xs)) =
   sum_list (map (\<lambda>(h, f). if h = k then 0 else length (fb_bytes f)) xs) + length (fb_bytes v)"
proof (induction xs)
  case (Cons p xs)
  show ?case
  proof (cases "fst p = k")
    case True
    with Cons.prems have eq: "map (\<lambda>(h, f). if h = k then 0 else length (fb_bytes f)) xs = map (\<lambda>(_, f). length (fb_bytes f)) xs"
      by (auto simp: image_iff)
    from True show ?thesis by (cases p) (simp add: eq del: map_eq_conv)
  next
    case False
    with Cons show ?thesis by (cases p) simp
  qed
qed simp

lemma length_update: "length (AList.update k v xs) = (if map_of xs k = None then Suc (length xs) else length xs)"
  by (induction xs) auto

lemma set_update_subset: "set (AList.update k v xs) \<subseteq> insert (k, v) (set xs)"
  by (induction xs) auto

lemma sum_split:
  "distinct (map fst xs) \<Longrightarrow> map_of xs k = Some v \<Longrightarrow>
   sum_list (map (\<lambda>(_, f). length (fb_bytes f)) xs) =
   sum_list (map (\<lambda>(h, f). if h = k then 0 else length (fb_bytes f)) xs) + length (fb_bytes v)"
  by (metis AList.update_triv sum_update)

lemma filter_frames_ok:
  assumes "receiver_ok r" "frames r' = filter P (frames r)" "pending r' = pending r"
  shows "receiver_ok r'"
proof -
  have "sum_list (map g (filter P xs)) \<le> sum_list (map g xs)" for g :: "u64 \<times> framebuffer \<Rightarrow> nat" and xs
    by (induction xs) auto
  then have "retained r' \<le> retained r" by (simp add: retained_def assms(2))
  moreover have "length (frames r') \<le> length (frames r)" by (simp add: assms(2))
  ultimately show ?thesis
    using assms by (auto simp: receiver_ok_def distinct_map_filter intro: order_trans [OF length_filter_le])
qed

lemma invalidate_client_ok: "receiver_ok r \<Longrightarrow> receiver_ok (JuiceInvalidateClient fd r)"
  by (rule filter_frames_ok) (simp_all add: JuiceInvalidateClient_def)

lemma invalidate_hwnd_ok: "receiver_ok r \<Longrightarrow> receiver_ok (JuiceInvalidateHWND hwnd fd r)"
  by (auto simp: JuiceInvalidateHWND_def AList.delete_eq split: option.splits intro: filter_frames_ok)

lemma apply_full_ok:
  assumes ok: "receiver_ok r" and a: "JuiceApplyFull m data fd peer r = Some r'"
  shows "receiver_ok r' \<and> pending r' = pending r \<and>
    (\<exists>f. r' = r\<lparr>frames := AList.update (msg_hwnd m) f (frames r)\<rparr> \<and> fb_bytes f = data \<and> fb_width f = msg_width m \<and>
       fb_height f = msg_height m \<and> fb_stride f = msg_stride m \<and> fb_client f = fd \<and> fb_peer f = peer)"
proof -
  let ?k = "msg_hwnd m"
  from a have v: "JuiceFullHeaderValid m" "length data = unat (msg_size m)"
      and room: "map_of (frames r) ?k = None \<longrightarrow> length (frames r) < 128"
      and bud: "retained_except ?k r + length data \<le> 268435456"
    by (auto simp: JuiceApplyFull_def Let_def split: if_splits)
  from a obtain f where r': "r' = r\<lparr>frames := AList.update ?k f (frames r)\<rparr>"
      and f: "fb_bytes f = data \<and> fb_width f = msg_width m \<and>
       fb_height f = msg_height m \<and> fb_stride f = msg_stride m \<and> fb_client f = fd \<and> fb_peer f = peer"
    by (auto simp: JuiceApplyFull_def Let_def split: if_splits option.splits)
  have "frame_ok f"
    using v f by (auto simp: frame_ok_def JuiceFullHeaderValid_def Let_def split: if_splits)
  moreover have "retained r' = retained_except ?k r + length data"
    using ok f by (simp add: r' retained_def retained_except_def sum_update receiver_ok_def)
  ultimately have "receiver_ok r'"
    using ok bud room set_update_subset [of ?k f "frames r"]
    by (auto simp: receiver_ok_def r' length_update AList.distinct_update split: if_splits)
  with r' f show ?thesis by auto
qed

lemma dims_nat:
  assumes "JuiceDimensionsValid w h 8192 16777216"
  shows "0 < unat w \<and> unat w \<le> 8192 \<and> 0 < unat h \<and> unat h \<le> 8192 \<and> unat w * unat h \<le> 16777216"
proof -
  from assms have s: "0 < sint w" "0 < sint h" "sint w \<le> 8192" "sint h \<le> 8192" "unat w * unat h \<le> 16777216"
    by (auto simp: JuiceDimensionsValid_def split: if_splits)
  then show ?thesis using sint_u32_pos [OF s(1)] sint_u32_pos [OF s(2)] by linarith
qed

lemma apply_dirty_ok:
  assumes ok: "receiver_ok r" and a: "JuiceApplyDirty m data fd peer r = Some r'"
  shows "receiver_ok r' \<and> pending r' = pending r"
proof -
  let ?k = "msg_hwnd m" and ?w = "unat (msg_width m)" and ?h = "unat (msg_height m)"
  from a obtain f where f: "map_of (frames r) ?k = Some f"
    by (auto simp: JuiceApplyDirty_def split: if_splits option.splits)
  define st where "st = unat (fb_stride f)"
  define merged where "merged = fold (\<lambda>row d. blit_row st (unat (msg_x m)) (unat (msg_y m)) (?w * 4)
    (unat (msg_stride m)) data d (unat (msg_y m) * st + row * st)) [0..<?h] (fb_bytes f)"
  from a f have r': "r' = r\<lparr>frames := AList.update ?k (f\<lparr>fb_bytes := merged,
        fb_generation := fb_generation f + 1, fb_received := fb_received f + 1\<rparr>) (frames r)\<rparr>"
      and v: "JuiceDirtyHeaderValid m" "length data = unat (msg_size m)"
      and fit: "unat (msg_x m) + ?w \<le> unat (fb_width f)" "unat (msg_y m) + ?h \<le> unat (fb_height f)"
    by (auto simp: JuiceApplyDirty_def Let_def merged_def st_def split: if_splits)
  have fok: "frame_ok f" using ok map_of_SomeD [OF f] by (auto simp: receiver_ok_def)
  have hdr: "?w * 4 \<le> unat (msg_stride m)" "length data = unat (msg_stride m) * ?h"
    using v by (auto simp: JuiceDirtyHeaderValid_def Let_def split: if_splits)
  have "0 < unat (fb_width f)" using fok dims_nat by (auto simp: frame_ok_def)
  then have st: "0 < st" "unat (msg_x m) * 4 + ?w * 4 \<le> st" using fok fit by (auto simp: frame_ok_def st_def)
  have "(unat (msg_y m) + ?h) * st \<le> unat (fb_height f) * st" using fit(2) by (rule mult_le_mono1)
  then have "length merged = length (fb_bytes f)"
    unfolding merged_def using fok st hdr
    by (intro blit_rows_nth [THEN conjunct1]) (auto simp: frame_ok_def st_def algebra_simps)
  then have mok: "frame_ok (f\<lparr>fb_bytes := merged, fb_generation := fb_generation f + 1, fb_received := fb_received f + 1\<rparr>)"
      "retained r' = retained r"
    using fok ok sum_split [OF _ f] by (simp_all add: frame_ok_def retained_def r' sum_update receiver_ok_def)
  then show ?thesis
    using ok f set_update_subset [of ?k _ "frames r"]
    by (fastforce simp: receiver_ok_def r' length_update AList.distinct_update)
qed

lemma frame_step_ok:
  assumes "receiver_ok r" "frame_step fd peer m data r = Some r'"
  shows "receiver_ok r' \<and> pending r' = pending r"
proof (cases "dirty_flag m \<and> JuiceApplyDirty m data fd peer r = None")
  case True
  with assms show ?thesis by (simp add: frame_step_def)
next
  case False
  then show ?thesis
    using assms apply_dirty_ok [OF assms(1), of m data fd peer r'] apply_full_ok [OF assms(1), of m data fd peer r']
    by (cases "dirty_flag m") (auto simp: frame_step_def)
qed

lemma reserve_release_ok:
  assumes "receiver_ok r" "JuiceReserveDisplayPayload n r = Some r1"
  shows "receiver_ok r1 \<and> pending r1 = pending r + n"
  using assms by (auto simp: JuiceReserveDisplayPayload_def receiver_ok_def retained_def split: if_splits)

lemma release_ok: "receiver_ok r \<Longrightarrow> receiver_ok (JuiceReleaseDisplayPayload n r)"
  by (auto simp: JuiceReleaseDisplayPayload_def receiver_ok_def retained_def)

lemma pending_simps [simp]:
  "pending (JuiceInvalidateClient fd r) = pending r" "pending (JuiceInvalidateHWND hwnd fd r) = pending r"
  "pending (JuiceReleaseDisplayPayload n r) = pending r - n"
  by (simp_all add: JuiceInvalidateClient_def JuiceInvalidateHWND_def JuiceReleaseDisplayPayload_def
      split: option.splits)

lemma read_client_ok:
  "receiver_ok r \<Longrightarrow> receiver_ok (read_client fd peer bs r) \<and> pending (read_client fd peer bs r) = pending r \<and>
   (\<forall>(h, f) \<in> set (frames (read_client fd peer bs r)). fb_client f \<noteq> fd)"
proof (induction fd peer bs r rule: read_client.induct)
  case (1 fd peer bs r)
  define m where "m = decode_msg bs"
  define rest where "rest = drop MSG_BYTES bs"
  define n where "n = unat (msg_size m)"
  have drop_ok: "receiver_ok (JuiceInvalidateClient fd t) \<and> pending (JuiceInvalidateClient fd t) = pending r \<and>
      (\<forall>(h, f) \<in> set (frames (JuiceInvalidateClient fd t)). fb_client f \<noteq> fd)"
    if "receiver_ok t" "pending t = pending r" for t
    using that by (auto simp: invalidate_client_ok) (auto simp: JuiceInvalidateClient_def)
  show ?case
  proof (cases "length bs < MSG_BYTES \<or> \<not> header_accepted m")
    case True
    with drop_ok [of r] "1.prems" show ?thesis
      by (subst (1 2 3) read_client.simps) (auto simp: Let_def m_def)
  next
    case hdr: False
    then have g: "\<not> length bs < MSG_BYTES" "\<not> \<not> header_accepted m" by simp_all
    note unfold = read_client.simps [of fd peer bs r, folded m_def rest_def, unfolded Let_def, folded m_def rest_def n_def,
        unfolded if_not_P [OF g(1)] if_not_P [OF g(2)]]
    show ?thesis
    proof (cases "msg_type m = JUICE_IOS_FRAME")
      case False
      note ih = "1.IH"(2-4) [OF g(1) m_def rest_def n_def g(2) False]
      show ?thesis
        using unfold False ih "1.prems" by (auto simp: invalidate_hwnd_ok)
    next
      case frame: True
      show ?thesis
      proof (cases "JuiceReserveDisplayPayload n r")
        case None
        with unfold frame drop_ok "1.prems" show ?thesis by simp
      next
        case (Some r1)
        note r1 = reserve_release_ok [OF "1.prems" Some]
        show ?thesis
        proof (cases "length rest < n")
          case True
          with unfold frame Some drop_ok [of "JuiceReleaseDisplayPayload n r1"] r1 show ?thesis
            by (simp add: release_ok)
        next
          case long: False
          show ?thesis
          proof (cases "frame_step fd peer m (take n rest) r1")
            case None
            with unfold frame Some long drop_ok [of "JuiceReleaseDisplayPayload n r1"] r1 show ?thesis
              by (simp add: release_ok)
          next
            case step: (Some r2)
            from frame_step_ok [OF conjunct1 [OF r1] step] r1
            have "receiver_ok (JuiceReleaseDisplayPayload n r2)" "pending (JuiceReleaseDisplayPayload n r2) = pending r"
              by (simp_all add: release_ok)
            with unfold frame Some long step "1.IH"(1) [OF g(1) m_def rest_def n_def g(2) frame Some long step]
            show ?thesis by simp
          qed
        qed
      qed
    qed
  qed
qed

section \<open>The loop, packet by packet\<close>

definition receive_packet :: "int \<Rightarrow> packet \<Rightarrow> u32 \<times> receiver \<Rightarrow> (u32 \<times> receiver) option" where
  "receive_packet fd p s = (case (p, s) of ((m, data), (peer, r)) \<Rightarrow>
     let n = unat (msg_size m) in
     if \<not> header_accepted m then None
     else if msg_type m = JUICE_IOS_FRAME then
       (case JuiceReserveDisplayPayload n r of
          None \<Rightarrow> None
        | Some r1 \<Rightarrow> (case frame_step fd peer m data r1 of
            None \<Rightarrow> None
          | Some r2 \<Rightarrow> Some (peer, JuiceReleaseDisplayPayload n r2)))
     else if msg_type m = JUICE_IOS_HELLO then Some (msg_flags m, r)
     else if msg_type m = JUICE_IOS_DESTROY then Some (peer, JuiceInvalidateHWND (msg_hwnd m) fd r)
     else Some (peer, r))"

fun receive_packets :: "int \<Rightarrow> packet list \<Rightarrow> u32 \<times> receiver \<Rightarrow> (u32 \<times> receiver) option" where
  "receive_packets fd [] s = Some s"
| "receive_packets fd (p # ps) s =
     (case receive_packet fd p s of None \<Rightarrow> None | Some s' \<Rightarrow> receive_packets fd ps s')"

lemma receive_packets_append:
  "receive_packets fd (ps @ qs) s =
   (case receive_packets fd ps s of None \<Rightarrow> None | Some s' \<Rightarrow> receive_packets fd qs s')"
  by (induction ps arbitrary: s) (auto split: option.splits)

lemma release_reserved: "JuiceReserveDisplayPayload n r = Some r1 \<Longrightarrow> JuiceReleaseDisplayPayload n r1 = r"
  by (auto simp: JuiceReserveDisplayPayload_def JuiceReleaseDisplayPayload_def split: if_splits)

lemma fixed_size: "header_accepted m \<Longrightarrow> msg_type m \<noteq> JUICE_IOS_FRAME \<Longrightarrow> msg_size m = 0"
  by (auto simp: header_accepted_def Let_def split: if_splits)

lemma read_client_packet:
  assumes "packet_ok p"
  shows "read_client fd peer (packet_bytes p @ rest) r =
    (case receive_packet fd p (peer, r) of
       None \<Rightarrow> JuiceInvalidateClient fd r
     | Some (peer', r') \<Rightarrow> read_client fd peer' rest r')"
proof -
  obtain m data where p: "p = (m, data)" by fastforce
  have n: "unat (msg_size m) = length data" using assms by (simp add: packet_ok_def p)
  have dec: "decode_msg (packet_bytes p @ rest) = m" "drop MSG_BYTES (packet_bytes p @ rest) = data @ rest"
      "\<not> length (packet_bytes p @ rest) < MSG_BYTES"
    by (simp_all add: packet_bytes_def p decode_encode_append)
  note unfold = read_client.simps [of fd peer "packet_bytes p @ rest" r, unfolded dec Let_def if_not_P [OF dec(3)] n]
  show ?thesis
  proof (cases "header_accepted m \<and> msg_type m \<noteq> JUICE_IOS_FRAME")
    case True
    with fixed_size n have "data = []" by auto
    with True show ?thesis unfolding unfold by (simp add: receive_packet_def p)
  next
    case False
    show ?thesis
    proof (cases "header_accepted m")
      case hdr: True
      show ?thesis
      proof (cases "JuiceReserveDisplayPayload (length data) r")
        case None
        with hdr False show ?thesis unfolding unfold by (simp add: receive_packet_def p n)
      next
        case (Some r1)
        show ?thesis
          using hdr False Some release_reserved [OF Some] unfolding unfold
          by (cases "frame_step fd peer m data r1") (simp_all add: receive_packet_def p n)
      qed
    next
      case no: False
      then show ?thesis unfolding unfold by (simp add: receive_packet_def p)
    qed
  qed
qed

lemma read_client_packets:
  assumes "\<forall>p \<in> set ps. packet_ok p" "receive_packets fd ps (peer, r) = Some (peer', r')"
  shows "read_client fd peer (stream_bytes ps @ rest) r = read_client fd peer' rest r'"
  using assms
proof (induction ps arbitrary: peer r)
  case (Cons p ps)
  from Cons.prems(2) obtain peer1 r1 where s: "receive_packet fd p (peer, r) = Some (peer1, r1)"
      "receive_packets fd ps (peer1, r1) = Some (peer', r')"
    by (auto split: option.splits)
  have "read_client fd peer (stream_bytes (p # ps) @ rest) r = read_client fd peer1 (stream_bytes ps @ rest) r1"
    using read_client_packet [of p fd peer "stream_bytes ps @ rest" r] Cons.prems(1) s(1) by simp
  with Cons.IH [OF _ s(2)] Cons.prems(1) show ?case by simp
qed simp

lemma receive_packet_ok:
  assumes "receiver_ok r" "receive_packet fd p (peer, r) = Some (peer', r')"
  shows "receiver_ok r' \<and> pending r' = pending r"
proof -
  obtain m data where p: "p = (m, data)" by fastforce
  show ?thesis
  proof (cases "msg_type m = JUICE_IOS_FRAME")
    case False
    with assms show ?thesis
      by (auto simp: receive_packet_def p Let_def invalidate_hwnd_ok split: if_splits)
  next
    case True
    with assms(2) obtain r1 r2 where s: "JuiceReserveDisplayPayload (unat (msg_size m)) r = Some r1"
        "frame_step fd peer m data r1 = Some r2" "r' = JuiceReleaseDisplayPayload (unat (msg_size m)) r2"
      by (auto simp: receive_packet_def p Let_def split: if_splits option.splits)
    note r1 = reserve_release_ok [OF assms(1) s(1)]
    from frame_step_ok [OF conjunct1 [OF r1] s(2)] r1 show ?thesis by (simp add: s(3) release_ok)
  qed
qed

lemma receive_packets_ok:
  "receiver_ok r \<Longrightarrow> receive_packets fd ps (peer, r) = Some (peer', r') \<Longrightarrow> receiver_ok r' \<and> pending r' = pending r"
proof (induction ps arbitrary: peer r)
  case (Cons p ps)
  from Cons.prems(2) obtain peer1 r1 where s: "receive_packet fd p (peer, r) = Some (peer1, r1)"
      "receive_packets fd ps (peer1, r1) = Some (peer', r')"
    by (auto split: option.splits)
  from receive_packet_ok [OF Cons.prems(1) s(1)] Cons.IH [OF _ s(2)] show ?case by simp
qed simp

section \<open>Properties\<close>

text \<open>
  C6: Whatever bytes a client sends, in full or cut off anywhere, the receiver stays within
  its limits (at most 128 windows, 256 MiB retained, every framebuffer exactly stride times
  height bytes with valid dimensions), also in the middle of the stream; the in-flight budget
  is fully released when the client is gone, and no framebuffer of it is left.
\<close>

theorem receiver_bounded:
  assumes "receiver_ok r"
  shows "receiver_ok (read_client fd peer bs r) \<and> pending (read_client fd peer bs r) = pending r \<and>
    (\<forall>(h, f) \<in> set (frames (read_client fd peer bs r)). fb_client f \<noteq> fd) \<and>
    (\<forall>ps peer' r'. receive_packets fd ps (peer, r) = Some (peer', r') \<longrightarrow> receiver_ok r' \<and> pending r' = pending r)"
  using read_client_ok [OF assms] receive_packets_ok [OF assms] by blast

definition receiver_start :: receiver where
  "receiver_start = \<lparr>frames = [], pending = 0\<rparr>"

theorem receiver_bounded_witness:
  "receiver_ok receiver_start \<and> receiver_ok (read_client 4 0 [1, 2, 3] receiver_start)"
proof -
  have "receiver_ok receiver_start" by (simp add: receiver_ok_def receiver_start_def retained_def)
  with receiver_bounded [OF this, of 4 0 "[1, 2, 3]"] show ?thesis by simp
qed

end
