(* ===== verification/Display_Mirror.thy ===== *)
theory Display_Mirror
  imports Ios_Ipc Display_Receiver
begin

text \<open>
  The two ends of the display transport composed: what the driver's \<open>ios_ipc_present\<close> sends
  makes the receiver's copy of the window equal to the driver's surface, provided the caller
  has reported every change in its dirty rectangles.
\<close>

section \<open>Regions of a framebuffer\<close>

definition in_rect :: "nat \<Rightarrow> RECT \<Rightarrow> nat \<Rightarrow> bool" where
  "in_rect stride c i \<longleftrightarrow>
     sint (rc_top c) \<le> int (i div stride) \<and> int (i div stride) < sint (rc_bottom c) \<and>
     sint (rc_left c) * 4 \<le> int (i mod stride) \<and> int (i mod stride) < sint (rc_right c) * 4"

text \<open>\<open>new\<close> differs from \<open>old\<close> only inside the part of the surface that \<open>dirty\<close> names.\<close>

definition changed_inside :: "u32 \<Rightarrow> u32 \<Rightarrow> RECT option \<Rightarrow> bytes \<Rightarrow> bytes \<Rightarrow> bool" where
  "changed_inside width height dirty old new \<longleftrightarrow> length old = length new \<and>
     (\<forall>i < length new. \<not> in_rect (unat width * 4) (clip_dirty width height dirty) i \<longrightarrow> old ! i = new ! i)"

definition surface_of :: "u32 \<Rightarrow> u32 \<Rightarrow> bytes \<Rightarrow> bool" where
  "surface_of width height bs \<longleftrightarrow> surface_fits (ucast width) (ucast height) \<and>
     length bs = unat width * 4 * unat height"

definition copy_of :: "u32 \<Rightarrow> u32 \<Rightarrow> int \<Rightarrow> u32 \<Rightarrow> bytes \<Rightarrow> framebuffer \<Rightarrow> bool" where
  "copy_of width height fd peer bs f \<longleftrightarrow> fb_width f = width \<and> fb_height f = height \<and>
     fb_stride f = width * 4 \<and> fb_client f = fd \<and> fb_peer f = peer \<and> fb_bytes f = bs"

definition holds_copy :: "u64 \<Rightarrow> u32 \<Rightarrow> u32 \<Rightarrow> int \<Rightarrow> u32 \<Rightarrow> bytes \<Rightarrow> receiver \<Rightarrow> bool" where
  "holds_copy hwnd width height fd peer bs r \<longleftrightarrow>
     (\<exists>f. map_of (frames r) hwnd = Some f \<and> copy_of width height fd peer bs f)"

definition room_for :: "u64 \<Rightarrow> nat \<Rightarrow> receiver \<Rightarrow> bool" where
  "room_for hwnd n r \<longleftrightarrow> (map_of (frames r) hwnd = None \<longrightarrow> length (frames r) < 128) \<and>
     retained_except hwnd r + n \<le> 268435456 \<and> pending r + n \<le> 134217728"

lemma surface_nat:
  assumes "surface_of width height bs"
  shows "0 < unat width \<and> unat width \<le> 8192 \<and> 0 < unat height \<and> unat height \<le> 8192 \<and>
    unat width * unat height \<le> 16777216 \<and> unat (width * 4) = unat width * 4 \<and>
    length bs \<le> 67108864 \<and> length bs = unat width * 4 * unat height"
proof -
  from assms have f: "0 < unat width" "unat width \<le> 8192" "0 < unat height" "unat height \<le> 8192"
      "unat width * unat height \<le> 16777216" "length bs = unat width * 4 * unat height"
    by (simp_all add: surface_of_def surface_fits_def)
  moreover have "unat (width * 4) = unat width * 4" using f(2) by (subst unat_times4) simp_all
  moreover have "length bs \<le> 67108864" using f(5) unfolding f(6) by linarith
  ultimately show ?thesis by (intro conjI)
qed

lemma dims_valid:
  assumes "0 < unat w" "unat w \<le> 8192" "0 < unat h" "unat h \<le> 8192" "unat w * unat h \<le> 16777216"
  shows "JuiceDimensionsValid w h 8192 16777216"
proof -
  have "sint w = int (unat w)" "sint h = int (unat h)"
    using assms by (intro sint_u32_small; simp)+
  with assms have "\<not> (sint w \<le> 0 \<or> sint h \<le> 0 \<or> sint w > 8192 \<or> sint h > 8192)" by linarith
  with assms(5) show ?thesis unfolding JuiceDimensionsValid_def by (simp only: if_False)
qed

section \<open>Complete frames\<close>

lemma full_received:
  assumes s: "surface_of width height bs" and ok: "receiver_ok r" and room: "room_for hwnd (length bs) r"
    and m: "m = full_msg hwnd width height (width * 4) pad"
  shows "\<exists>r'. receive_packet fd (m, bs) (peer, r) = Some (peer, r') \<and>
    holds_copy hwnd width height fd peer bs r'"
proof -
  note n = surface_nat [OF s]
  have sz: "unat (msg_size m) = length bs"
  proof -
    have "unat (of_nat (unat (width * 4) * unat height) :: u32) = unat (width * 4) * unat height"
      using n by (intro unat_of_nat_u32) presburger
    with n show ?thesis unfolding m full_msg_def by (simp only: juice_ios_msg.simps)
  qed
  have hdr: "JuiceFullHeaderValid m"
    using n sz dims_valid [of width height]
    by (simp add: JuiceFullHeaderValid_def m full_msg_def Let_def mult.commute mult.left_commute)
  have acc: "header_accepted m" "\<not> dirty_flag m" "msg_type m = JUICE_IOS_FRAME" "msg_hwnd m = hwnd"
    using hdr by (simp_all add: header_accepted_def dirty_flag_def m full_msg_def has_bits_def wire_simps)
  define r1 where "r1 = r\<lparr>pending := pending r + length bs\<rparr>"
  have res: "JuiceReserveDisplayPayload (length bs) r = Some r1"
    using room by (auto simp: JuiceReserveDisplayPayload_def room_for_def r1_def)
  have "receiver_ok r1" using reserve_release_ok [OF ok res] by simp
  moreover have "\<exists>r2. JuiceApplyFull m bs fd peer r1 = Some r2"
    using hdr sz room acc(4) by (auto simp: JuiceApplyFull_def Let_def room_for_def r1_def retained_except_def)
  then obtain r2 where r2: "JuiceApplyFull m bs fd peer r1 = Some r2" ..
  ultimately obtain f where f: "r2 = r1\<lparr>frames := AList.update hwnd f (frames r1)\<rparr>"
      "copy_of width height fd peer bs f"
    using apply_full_ok [of r1 m bs fd peer r2] acc(4) by (auto simp: copy_of_def m full_msg_def)
  have "receive_packet fd (m, bs) (peer, r) = Some (peer, JuiceReleaseDisplayPayload (length bs) r2)"
    using acc sz res r2 by (simp add: receive_packet_def frame_step_def)
  moreover have "map_of (frames (JuiceReleaseDisplayPayload (length bs) r2)) hwnd = Some f"
    by (simp add: f JuiceReleaseDisplayPayload_def AList.update_conv)
  ultimately show ?thesis using f(2) by (auto simp: holds_copy_def)
qed

section \<open>Dirty rectangles\<close>

lemma sub_list_nth: "off + n \<le> length xs \<Longrightarrow> j < n \<Longrightarrow> sub_list off n xs ! j = xs ! (off + j)"
  by (simp add: sub_list_def)

lemma sub_list_concat:
  assumes "\<And>x. x \<in> set xs \<Longrightarrow> length (f x) = n" "k < length xs"
  shows "sub_list (k * n) n (concat (map f xs)) = f (xs ! k)"
  using assms
proof (induction xs arbitrary: k)
  case (Cons x xs)
  show ?case
  proof (cases k)
    case 0
    with Cons.prems show ?thesis by (simp add: sub_list_def)
  next
    case (Suc j)
    with Cons.prems(2) Cons.IH [of j] Cons.prems(1) show ?thesis by (simp add: sub_list_def)
  qed
qed simp

text \<open>The bytes of the packed rectangle, by line and column.\<close>

lemma dirty_row_bytes:
  assumes st: "st = unat width * 4" "length bs = st * unat height"
    and c: "l < r" "r \<le> unat width" "t < b" "b \<le> unat height"
    and l: "l = unat (rc_left c)" "t = unat (rc_top c)" "r - l = unat (rc_right c - rc_left c)"
      "b - t = unat (rc_bottom c - rc_top c)" "unat stride = st"
    and k: "k < b - t" "j < (r - l) * 4"
  shows "concat (dirty_rows bs stride c) ! (k * ((r - l) * 4) + j) = bs ! ((t + k) * st + l * 4 + j)"
proof -
  let ?f = "\<lambda>row. sub_list ((t + row) * st + l * 4) ((r - l) * 4) bs"
  have rows: "dirty_rows bs stride c = map ?f [0..<b - t]"
    unfolding dirty_rows_def l(1,2) [symmetric] l(3,4) [symmetric] l(5) ..
  have inside: "(t + row) * st + l * 4 + (r - l) * 4 \<le> length bs" if "row < b - t" for row
    using row_inside [of "t + row" "unat height" l "r - l" "unat width" st] that c st by simp
  have len: "length (?f row) = (r - l) * 4" if "row \<in> set [0..<b - t]" for row
    using inside [of row] that by simp
  have total: "length (concat (map ?f [0..<b - t])) = (r - l) * 4 * (b - t)"
    using concat_same_length [of "[0..<b - t]" ?f, OF len] by simp
  have "Suc k * ((r - l) * 4) \<le> (b - t) * ((r - l) * 4)" using k(1) by (intro mult_le_mono1) simp
  then have "k * ((r - l) * 4) + (r - l) * 4 \<le> (r - l) * 4 * (b - t)" by (simp add: mult.commute)
  then have "concat (map ?f [0..<b - t]) ! (k * ((r - l) * 4) + j) =
      sub_list (k * ((r - l) * 4)) ((r - l) * 4) (concat (map ?f [0..<b - t])) ! j"
    using k(2) total by (subst sub_list_nth) simp_all
  also have "\<dots> = ?f k ! j"
    using sub_list_concat [of "[0..<b - t]" ?f, OF len] k(1) by simp
  also have "\<dots> = bs ! ((t + k) * st + l * 4 + j)"
    using inside [OF k(1)] k(2) by (simp add: sub_list_def)
  finally show ?thesis by (simp add: rows)
qed

lemma dirty_received:
  assumes s: "surface_of width height bs" and ok: "receiver_ok r" and room: "room_for hwnd (length bs) r"
    and g: "present_guard width height (width * 4) dirty"
    and old: "holds_copy hwnd width height fd peer old r" "changed_inside width height dirty old bs"
    and c: "c = clip_dirty width height dirty"
    and small: "unat (rc_right c - rc_left c) * 4 * unat (rc_bottom c - rc_top c) < length bs"
    and m: "m = dirty_msg hwnd c pad"
  shows "\<exists>r'. receive_packet fd (m, concat (dirty_rows bs (width * 4) c)) (peer, r) = Some (peer, r') \<and>
    holds_copy hwnd width height fd peer bs r'"
proof -
  note n = surface_nat [OF s]
  have "\<not> (sint (rc_right c) \<le> sint (rc_left c) \<or> sint (rc_bottom c) \<le> sint (rc_top c))"
    using g by (simp add: present_guard_def c Let_def)
  note cb = clip_bounds [OF c this]
  define l t rt b where "l = unat (rc_left c)" and "t = unat (rc_top c)" and "rt = unat (rc_right c)" and "b = unat (rc_bottom c)"
  define st where "st = unat width * 4"
  have bnd: "l < rt" "rt \<le> unat width" "t < b" "b \<le> unat height" "unat (rc_right c - rc_left c) = rt - l"
      "unat (rc_bottom c - rc_top c) = b - t"
    using cb by (simp_all add: l_def t_def rt_def b_def)
  define data where "data = concat (dirty_rows bs (width * 4) c)"
  have len: "length data = (rt - l) * 4 * (b - t)"
    using length_dirty_rows [of c width height "width * 4" bs] cb n bnd by (simp add: data_def)
  have small': "(rt - l) * 4 * (b - t) < length bs" using small bnd by simp
  have bs: "length bs \<le> 67108864" "length bs = st * unat height" "0 < st"
    using n unfolding st_def by (blast, blast, simp)
  have sz: "unat (msg_size m) = length data"
  proof -
    have "unat (of_nat ((rt - l) * 4 * (b - t)) :: u32) = (rt - l) * 4 * (b - t)"
      using small' bs(1) by (intro unat_of_nat_u32) linarith
    then show ?thesis unfolding m dirty_msg_def Let_def len bnd(5,6) by (simp only: juice_ios_msg.simps)
  qed
  have ms: "unat (msg_stride m) = (rt - l) * 4" "unat (msg_width m) = rt - l" "unat (msg_height m) = b - t"
      "unat (msg_x m) = l" "unat (msg_y m) = t" "msg_hwnd m = hwnd" "msg_type m = JUICE_IOS_FRAME" "dirty_flag m"
  proof -
    have "unat (of_nat ((rt - l) * 4) :: u32) = (rt - l) * 4"
      using n bnd by (intro unat_of_nat_u32) linarith
    then show "unat (msg_stride m) = (rt - l) * 4"
      unfolding m dirty_msg_def Let_def bnd(5) by (simp only: juice_ios_msg.simps)
  qed (simp_all add: m dirty_msg_def Let_def bnd l_def t_def dirty_flag_def has_bits_def wire_simps)
  have area: "(rt - l) * (b - t) \<le> 16777216"
    using small' bs(1) by linarith
  have small'': "(rt - l) * 4 * (b - t) \<le> 134217728" using small' bs(1) by linarith
  have hdr: "JuiceDirtyHeaderValid m"
  proof -
    have "JuiceDimensionsValid (msg_width m) (msg_height m) 8192 16777216"
      using n bnd area by (intro dims_valid) (unfold ms, linarith+)
    moreover have "sint (msg_x m) = int l" "sint (msg_y m) = int t"
      using sint_u32_small [of "msg_x m", unfolded ms] sint_u32_small [of "msg_y m", unfolded ms] n bnd by linarith+
    ultimately show ?thesis
      using small'' sz len unfolding JuiceDirtyHeaderValid_def ms Let_def by simp
  qed
  have acc: "header_accepted m"
    using hdr ms by (simp add: header_accepted_def m dirty_msg_def Let_def dirty_flag_def wire_simps)
  obtain f where f: "map_of (frames r) hwnd = Some f" "copy_of width height fd peer old f"
    using old(1) by (auto simp: holds_copy_def)
  define r1 where "r1 = r\<lparr>pending := pending r + length data\<rparr>"
  have res: "JuiceReserveDisplayPayload (length data) r = Some r1"
    using room small' len by (auto simp: JuiceReserveDisplayPayload_def room_for_def r1_def)
  define merged where "merged = fold (\<lambda>row d. blit_row st l t ((rt - l) * 4) ((rt - l) * 4) data d (t * st + row * st))
      [0..<b - t] old"
  have "JuiceApplyDirty m data fd peer r1 = Some (r1\<lparr>frames := AList.update hwnd (f\<lparr>fb_bytes := merged,
      fb_generation := fb_generation f + 1, fb_received := fb_received f + 1\<rparr>) (frames r1)\<rparr>)"
    using hdr sz f bnd n
    by (simp add: JuiceApplyDirty_def ms r1_def copy_of_def merged_def st_def Let_def)
  then have rec: "receive_packet fd (m, data) (peer, r) = Some (peer, JuiceReleaseDisplayPayload (length data)
      (r1\<lparr>frames := AList.update hwnd (f\<lparr>fb_bytes := merged, fb_generation := fb_generation f + 1,
        fb_received := fb_received f + 1\<rparr>) (frames r1)\<rparr>))"
    using acc sz res ms by (simp add: receive_packet_def frame_step_def)
  have lo: "length old = length bs" and same: "\<And>i. i < length bs \<Longrightarrow> \<not> in_rect st c i \<Longrightarrow> old ! i = bs ! i"
    using old(2) by (auto simp: changed_inside_def c st_def)
  have sx: "sint (rc_left c) = int l" "sint (rc_top c) = int t" "sint (rc_right c) = int rt" "sint (rc_bottom c) = int b"
    unfolding l_def t_def rt_def b_def using cb n by (intro sint_u32_small; linarith)+
  have "(t + (b - t)) * st \<le> unat height * st" using bnd by (intro mult_le_mono1) simp
  then have fits: "t * st + (b - t) * st \<le> length old"
    unfolding lo bs(2) add_mult_distrib by (simp only: mult.commute [of st])
  have inner: "l * 4 + (rt - l) * 4 \<le> st" using bnd by (simp add: st_def)
  note blit = blit_rows_nth [OF inner bs(3) fits, of "(rt - l) * 4" data, folded merged_def]
  have merged: "merged = bs"
  proof (rule nth_equalityI)
    show "length merged = length bs" using blit len lo by simp
    fix i assume "i < length merged"
    then have i: "i < length bs" "i < length old" using blit len lo by simp_all
    show "merged ! i = bs ! i"
    proof (cases "t \<le> i div st \<and> i div st < t + (b - t) \<and> l * 4 \<le> i mod st \<and> i mod st < l * 4 + (rt - l) * 4")
      case True
      then have "merged ! i = data ! ((i div st - t) * ((rt - l) * 4) + (i mod st - l * 4))"
        using blit len i by simp
      also have "\<dots> = bs ! ((t + (i div st - t)) * st + l * 4 + (i mod st - l * 4))"
        unfolding data_def
        by (rule dirty_row_bytes [of st width bs height l rt t b c "width * 4"])
          (use True bnd bs n in \<open>auto simp: l_def t_def st_def\<close>)
      also have "(t + (i div st - t)) * st + l * 4 + (i mod st - l * 4) = i"
        using True by simp
      finally show ?thesis .
    next
      case False
      then have "merged ! i = old ! i" using blit len i by (auto simp: not_le not_less)
      moreover have "\<not> in_rect st c i" using False bnd by (auto simp: in_rect_def sx)
      ultimately show ?thesis using same i(1) by simp
    qed
  qed
  show ?thesis
    using rec f(2) unfolding data_def [symmetric] merged
    by (auto simp: holds_copy_def copy_of_def JuiceReleaseDisplayPayload_def AList.update_conv r1_def)
qed

section \<open>One call of \<open>ios_ipc_present\<close>\<close>

lemma empty_clip:
  assumes "surface_of width height bs" "\<not> present_guard width height (width * 4) dirty"
  shows "\<not> in_rect (unat width * 4) (clip_dirty width height dirty) i"
proof -
  note n = surface_nat [OF assms(1)]
  have "unat (width * 4) * unat height \<le> 4294967295" using n by presburger
  moreover have "width \<noteq> 0" "height \<noteq> 0" using n by auto
  ultimately have "sint (rc_right (clip_dirty width height dirty)) \<le> sint (rc_left (clip_dirty width height dirty)) \<or>
      sint (rc_bottom (clip_dirty width height dirty)) \<le> sint (rc_top (clip_dirty width height dirty))"
    using assms(2) by (simp add: present_guard_def Let_def)
  then show ?thesis by (auto simp: in_rect_def)
qed

lemma unchanged:
  assumes "surface_of width height bs" "\<not> present_guard width height (width * 4) dirty"
    "changed_inside width height dirty old bs"
  shows "old = bs"
  using assms(3) empty_clip [OF assms(1,2)] by (auto simp: changed_inside_def intro: nth_equalityI)

lemma frame_received:
  assumes s: "surface_of width height bs" and ok: "receiver_ok r" and room: "room_for hwnd (length bs) r"
    and g: "present_guard width height (width * 4) dirty"
    and old: "b \<longrightarrow> holds_copy hwnd width height fd peer old r" "changed_inside width height dirty old bs"
  shows "\<exists>r'. receive_packet fd (frame_packet hwnd bs width height (width * 4) dirty pad b) (peer, r) = Some (peer, r') \<and>
    holds_copy hwnd width height fd peer bs r'"
proof -
  define c where "c = clip_dirty width height dirty"
  have len: "unat (width * 4) * unat height = length bs" using surface_nat [OF s] by presburger
  then have take: "take (unat (width * 4) * unat height) bs = bs" by simp
  show ?thesis
    using full_received [OF s ok room refl, where fd = fd and peer = peer and pad = pad]
      dirty_received [OF s ok room g _ old(2) c_def _ refl, where fd = fd and peer = peer and pad = pad] old(1)
    unfolding frame_packet_def Let_def take unfolding c_def [symmetric] len by auto
qed

lemma frame_step_frames:
  assumes "frame_step fd peer m data r = Some r'"
  shows "r' = r \<or> (\<exists>f. r' = r\<lparr>frames := AList.update (msg_hwnd m) f (frames r)\<rparr>)"
  using assms
  by (auto simp: frame_step_def JuiceApplyDirty_def JuiceApplyFull_def Let_def split: if_splits option.splits)

lemma retained_except_update:
  "sum_list (map (\<lambda>(h, f). if h = k then 0 else length (fb_bytes f)) (AList.update k v xs)) =
   sum_list (map (\<lambda>(h, f). if h = k then 0 else length (fb_bytes f)) xs)"
  by (induction xs) auto

lemma room_kept:
  assumes r: "receiver_ok r" and p: "receive_packet fd (m, data) (peer, r) = Some (peer', r')"
    and h: "msg_type m = JUICE_IOS_FRAME" and room: "room_for (msg_hwnd m) n r"
  shows "room_for (msg_hwnd m) n r'"
proof -
  from p h obtain r1 r2 where s: "JuiceReserveDisplayPayload (unat (msg_size m)) r = Some r1"
      "frame_step fd peer m data r1 = Some r2" "r' = JuiceReleaseDisplayPayload (unat (msg_size m)) r2"
    by (auto simp: receive_packet_def Let_def split: if_splits option.splits)
  have r1: "frames r1 = frames r" using s(1) by (auto simp: JuiceReserveDisplayPayload_def split: if_splits)
  have "pending r' = pending r" using receive_packet_ok [OF r p] by simp
  moreover have fr: "frames r' = frames r \<or> (\<exists>f. frames r' = AList.update (msg_hwnd m) f (frames r))"
    using frame_step_frames [OF s(2)] r1 by (auto simp: s(3) JuiceReleaseDisplayPayload_def)
  ultimately show ?thesis
    using room by (auto simp: room_for_def retained_except_def retained_except_update AList.update_conv)
qed

text \<open>
  The receiver has read everything sent on the open connection, and it has a copy of the
  window whenever the driver thinks so.
\<close>

definition in_step :: "u64 \<Rightarrow> u32 \<Rightarrow> u32 \<Rightarrow> int \<Rightarrow> u32 \<Rightarrow> bytes \<Rightarrow> ipc_state \<Rightarrow> receiver \<Rightarrow> bool" where
  "in_step hwnd width height fd peer bs s r \<longleftrightarrow> ipc_fd s \<ge> 0 \<and> ipc_inv {} s \<and> receiver_ok r \<and>
     (\<exists>ps. wire s = stream_bytes ps \<and> (\<forall>p \<in> set ps. packet_ok p) \<and>
        receive_packets fd ps (0, receiver_start) = Some (peer, r)) \<and>
     (surface_has_baseline_locked hwnd s \<longrightarrow> holds_copy hwnd width height fd peer bs r)"

lemma present_in_step:
  assumes i: "in_step hwnd width height fd peer old s r" and s: "surface_of width height bs"
    and ch: "changed_inside width height dirty old bs" and room: "room_for hwnd (length bs) r"
    and p: "ios_ipc_present tid hwnd (Some bs) width height (width * 4) dirty s = Some s'"
    and kept: "closed_wires s' = closed_wires s"
  shows "\<exists>r'. in_step hwnd width height fd peer bs s' r' \<and> room_for hwnd (length bs) r' \<and>
    (present_guard width height (width * 4) dirty \<or> holds_copy hwnd width height fd peer old r \<longrightarrow>
       holds_copy hwnd width height fd peer bs r')"
  using p
proof (cases rule: present_cases)
  case skip
  with unchanged [OF s _ ch] i room show ?thesis by (auto simp: in_step_def)
next
  case off
  have "connect_ipc_locked s = Some (True, s)" using i by (simp add: connect_ipc_locked_def in_step_def)
  with off show ?thesis by simp
next
  case (lost s1 s2)
  have "s1 = s" using lost(2) i by (simp add: connect_ipc_locked_def in_step_def)
  with lost i have "closed_wires s' \<noteq> closed_wires s"
    by (auto simp: in_step_def disconnect_ipc_locked_def elim!: writesE)
  with kept show ?thesis by simp
next
  case (sent s1 s2)
  have s1: "s1 = s" using sent(2) i by (simp add: connect_ipc_locked_def in_step_def)
  let ?p = "frame_packet hwnd bs width height (width * 4) dirty (stack_pad s) (surface_has_baseline_locked hwnd s)"
  from i obtain ps where ps: "wire s = stream_bytes ps" "\<forall>p \<in> set ps. packet_ok p"
      "receive_packets fd ps (0, receiver_start) = Some (peer, r)"
    by (auto simp: in_step_def)
  have ok: "receiver_ok r" using i by (simp add: in_step_def)
  obtain r' where r': "receive_packet fd ?p (peer, r) = Some (peer, r')" "holds_copy hwnd width height fd peer bs r'"
    using frame_received [OF s ok room sent(1) _ ch, of "surface_has_baseline_locked hwnd s" fd peer "stack_pad s"] i
    by (auto simp: in_step_def)
  have mem: "surface_memory bs width height (width * 4)"
    using surface_nat [OF s] by (simp add: surface_memory_def)
  from sent(3) obtain os sn where s2: "s2 = s1\<lparr>write_script := os, wire := wire s1 @ sn\<rparr>"
      and "is_prefix sn (packet_bytes ?p)" and "True \<longrightarrow> sn = packet_bytes ?p"
    unfolding s1 by (rule writesE)
  then have w: "wire s' = stream_bytes (ps @ [?p])"
    by (simp add: sent(4) register_queue_frame mark_frame s1 ps(1))
  have inv: "ipc_inv {} s'" using present_inv [OF _ mem p] i by (simp add: in_step_def)
  have fd: "ipc_fd s' \<ge> 0" using i by (simp add: sent(4) register_queue_frame mark_frame s2 s1 in_step_def)
  have rec: "receive_packets fd (ps @ [?p]) (0, receiver_start) = Some (peer, r')"
    using ps(3) r'(1) by (simp add: receive_packets_append)
  have pok: "\<forall>p \<in> set (ps @ [?p]). packet_ok p"
    using ps(2) frame_packet_sendable [OF sent(1) mem, of s hwnd "stack_pad s"] by (simp add: sendable_def)
  have "room_for hwnd (length bs) r'"
    using room_kept [OF ok, of fd "fst ?p" "snd ?p" peer peer r' "length bs"] r'(1) room
    by (simp add: frame_packet_fields)
  moreover have "in_step hwnd width height fd peer bs s' r'"
    unfolding in_step_def using fd inv receive_packet_ok [OF ok r'(1)] w pok rec r'(2) by blast
  ultimately show ?thesis using r'(2) by blast
qed

section \<open>A history of frames\<close>

fun presents :: "nat \<Rightarrow> u64 \<Rightarrow> u32 \<Rightarrow> u32 \<Rightarrow> (bytes \<times> RECT option) list \<Rightarrow> ipc_call list" where
  "presents tid hwnd width height [] = []"
| "presents tid hwnd width height ((bs, dirty) # fs) =
     Present tid hwnd bs width height (width * 4) dirty # presents tid hwnd width height fs"

text \<open>Each surface is well formed and differs from the one before only inside its dirty rectangle.\<close>

fun honest :: "u32 \<Rightarrow> u32 \<Rightarrow> bytes \<Rightarrow> (bytes \<times> RECT option) list \<Rightarrow> bool" where
  "honest width height old [] = True"
| "honest width height old ((bs, dirty) # fs) \<longleftrightarrow> surface_of width height bs \<and>
     changed_inside width height dirty old bs \<and> honest width height bs fs"

lemma presents_ok: "honest width height old fs \<Longrightarrow> \<forall>c \<in> set (presents tid hwnd width height fs). call_ok c"
proof (induction fs arbitrary: old)
  case (Cons f fs)
  obtain bs dirty where f: "f = (bs, dirty)" by fastforce
  with Cons show ?case using surface_nat [of width height bs] by (auto simp: call_ok_def surface_memory_def)
qed simp

lemma presents_in_step:
  assumes "in_step hwnd width height fd peer old s r" "honest width height old fs"
    "room_for hwnd (unat width * 4 * unat height) r"
    "run_calls (presents tid hwnd width height fs) s = Some s'" "closed_wires s' = closed_wires s"
  shows "\<exists>r'. in_step hwnd width height fd peer (fst (last ((old, None) # fs))) s' r' \<and>
    (holds_copy hwnd width height fd peer old r \<or> (\<exists>(bs, dirty) \<in> set fs. present_guard width height (width * 4) dirty) \<longrightarrow>
       holds_copy hwnd width height fd peer (fst (last ((old, None) # fs))) r')"
  using assms
proof (induction fs arbitrary: old s r)
  case Nil
  then show ?case by auto
next
  case (Cons f fs)
  obtain bs dirty where f: "f = (bs, dirty)" by fastforce
  from Cons.prems(4) f obtain s1 where c: "ios_ipc_present tid hwnd (Some bs) width height (width * 4) dirty s = Some s1"
      and rest: "run_calls (presents tid hwnd width height fs) s1 = Some s'"
    by (auto split: option.splits)
  have h: "surface_of width height bs" "changed_inside width height dirty old bs" "honest width height bs fs"
    using Cons.prems(2) f by simp_all
  have len: "length bs = unat width * 4 * unat height" using surface_nat [OF h(1)] by simp
  have inv: "ipc_inv {} s" "ipc_fd s \<ge> 0" using Cons.prems(1) by (simp_all add: in_step_def)
  have mem: "surface_memory bs width height (width * 4)"
    using surface_nat [OF h(1)] by (simp add: surface_memory_def)
  have l1: "later s s1" using present_later [OF inv(1) c] .
  have l2: "later s1 s'"
    using run_calls_later [OF present_inv [OF inv(1) mem c] presents_ok [OF h(3)] rest] .
  have k1: "closed_wires s1 = closed_wires s"
    using l1 l2 inv(2) Cons.prems(5) by (auto simp: later_def)
  from present_in_step [OF Cons.prems(1) h(1,2) _ c k1] Cons.prems(3) len
  obtain r1 where r1: "in_step hwnd width height fd peer bs s1 r1" "room_for hwnd (unat width * 4 * unat height) r1"
      "present_guard width height (width * 4) dirty \<or> holds_copy hwnd width height fd peer old r \<longrightarrow>
       holds_copy hwnd width height fd peer bs r1"
    by auto
  have l: "fst (last ((old, None) # f # fs)) = fst (last ((bs, None) # fs))" using f by (cases fs) simp_all
  from Cons.IH [OF r1(1) h(3) r1(2) rest] k1 Cons.prems(5) r1(3) show ?case
    unfolding l using f by auto
qed

lemma start_in_step:
  assumes "length conns < 2 ^ 32" and conns: "conns = Accepted k # cs"
    and path: "path \<noteq> []" "length path < SUN_PATH" and geom: "JuiceDimensionsValid dw dh 8192 16777216"
    and run: "run_call (Init tid (Some path) dw dh dpi) (ipc_start conns outs mallocs queues pid pad) = Some s"
    and "closed_wires s = []"
  shows "in_step hwnd width height fd pid old s receiver_start"
proof -
  let ?s = "(ipc_start conns outs mallocs queues pid pad)\<lparr>ipc_path := path, ipc_width := dw, ipc_height := dh, ipc_dpi := dpi\<rparr>"
  from run path obtain b t where c: "connect_ipc_locked ?s = Some (b, t)"
      and s: "s = (if b then ios_ipc_register_queue tid t else t)"
    by (auto simp: ios_ipc_init_def split: option.splits)
  have inv: "ipc_inv {} s"
    using init_inv [OF ipc_start_inv [OF assms(1)]] run by (simp add: conns)
  have cl: "closed_wires t = []" using assms(7) s by (auto simp: register_queue_frame split: if_splits)
  obtain e sent os where w: "write_all outs (encode_msg (hello_msg ?s)) = (e, sent, os)" by (rule prod_cases3)
  have "hello_msg (?s\<lparr>conn_script := cs\<rparr>) = hello_msg ?s" by (simp add: hello_msg_def)
  with c cl w have "e = Done" and t: "b" "ipc_fd t = int k" "wire t = sent" "surface_generations t = []"
    by (auto simp: connect_ipc_locked_def ipc_start_def conns path Let_def split: io_end.splits)
  then have st: "sent = packet_bytes (hello_msg ?s, [])"
    using write_all_exact [OF w] by (simp add: exact_sent_def packet_bytes_def)
  have fields: "ipc_fd s \<ge> 0" "wire s = stream_bytes [(hello_msg ?s, [])]" "surface_generations s = []"
    using t st s by (simp_all add: register_queue_frame)
  have "receive_packets fd [(hello_msg ?s, [])] (0, receiver_start) = Some (pid, receiver_start)"
    using geom by (simp add: receive_packet_def header_accepted_def JuiceDesktopGeometryValid_def hello_msg_def
        ipc_start_def wire_simps)
  moreover have "packet_ok (hello_msg ?s, [])" by (simp add: packet_ok_def hello_msg_def)
  moreover have "receiver_ok receiver_start" by (simp add: receiver_ok_def receiver_start_def retained_def)
  moreover have "\<not> surface_has_baseline_locked hwnd s" by (simp add: surface_has_baseline_locked_def fields)
  ultimately show ?thesis
    unfolding in_step_def using fields inv by (auto intro!: exI [of _ "[(hello_msg ?s, [])]"])
qed

section \<open>Properties\<close>

text \<open>
  C1: End to end: a driver connects and presents any history of contents of one window,
  reporting changes by dirty rectangles of any size and position, while the kernel cuts and
  interrupts its writes at will but the connection stays up; then the receiver, reading the
  bytes of the connection, accepts every packet and ends with a framebuffer that is, byte for
  byte, the window's last content.
\<close>

theorem display_mirror:
  assumes "length conns < 2 ^ 32" "conns = Accepted k # cs" "path \<noteq> []" "length path < SUN_PATH"
    and "JuiceDimensionsValid dw dh 8192 16777216"
    and run: "run_calls (Init tid (Some path) dw dh dpi # presents tid hwnd width height fs)
      (ipc_start conns outs mallocs queues pid pad) = Some s"
    and up: "closed_wires s = []" and h: "honest width height old fs"
    and some: "\<exists>(bs, dirty) \<in> set fs. present_guard width height (width * 4) dirty"
  shows "\<exists>r f. receive_packets fd (fst (split_stream (wire s))) (0, receiver_start) = Some (pid, r) \<and>
    map_of (frames r) hwnd = Some f \<and> fb_width f = width \<and> fb_height f = height \<and> fb_bytes f = fst (last fs)"
proof -
  from run obtain s0 where s0: "run_call (Init tid (Some path) dw dh dpi) (ipc_start conns outs mallocs queues pid pad) = Some s0"
      "run_calls (presents tid hwnd width height fs) s0 = Some s"
    by (auto simp del: run_call.simps split: option.splits)
  have "ipc_inv {} s0" using run_call_inv [OF ipc_start_inv [OF assms(1)] _ s0(1)] by (simp add: call_ok_def)
  from run_calls_later [OF this presents_ok [OF h] s0(2)] up have c0: "closed_wires s0 = []"
    by (auto simp: later_def)
  note i = start_in_step [OF assms(1-5) s0(1) c0]
  obtain bs0 d0 fs' where fs: "fs = (bs0, d0) # fs'" using some by (cases fs) auto
  then have "surface_of width height bs0" using h by simp
  then have "room_for hwnd (unat width * 4 * unat height) receiver_start"
    using surface_nat [of width height bs0] by (auto simp: room_for_def receiver_start_def retained_except_def)
  from presents_in_step [OF i h this s0(2)] up c0 some
  obtain r where r: "in_step hwnd width height fd pid (fst (last ((old, None) # fs))) s r"
      "holds_copy hwnd width height fd pid (fst (last ((old, None) # fs))) r"
    by auto
  then obtain ps where ps: "wire s = stream_bytes ps" "\<forall>p \<in> set ps. packet_ok p"
      "receive_packets fd ps (0, receiver_start) = Some (pid, r)"
    by (auto simp: in_step_def)
  have "fst (split_stream (wire s)) = ps" using split_stream_bytes [OF ps(2), of "[]"] ps(1) by simp
  with ps(3) r(2) fs show ?thesis by (auto simp: holds_copy_def copy_of_def)
qed

definition sample_history :: "(bytes \<times> RECT option) list" where
  "sample_history = [([1, 1, 1, 1, 1, 1, 1, 1], None),
     ([1, 1, 1, 1, 2, 2, 2, 2], Some \<lparr>rc_left = 0, rc_top = 1, rc_right = 1, rc_bottom = 2\<rparr>)]"

definition sample_session :: "ipc_state option" where
  "sample_session = run_calls (Init 0 (Some ''/s'') 8 8 96 # presents 0 5 1 2 sample_history)
     (ipc_start [Accepted 3] [Xfer 48, Xfer 48, Xfer 8, Eintr, Xfer 40, Xfer 9, Xfer 4] [] [] 7 0)"

lemma sample_session_up: "case sample_session of None \<Rightarrow> False | Some s \<Rightarrow> closed_wires s = []"
  by code_simp

lemma sample_clip: "clip_dirty 1 2 (Some \<lparr>rc_left = 0, rc_top = 1, rc_right = 1, rc_bottom = 2\<rparr>) =
    \<lparr>rc_left = 0, rc_top = 1, rc_right = 1, rc_bottom = 2\<rparr>"
  by code_simp

lemma sample_history_honest: "honest 1 2 [1, 1, 1, 1, 1, 1, 1, 1] sample_history"
proof -
  have "in_rect 4 \<lparr>rc_left = 0, rc_top = 1, rc_right = 1, rc_bottom = 2\<rparr> i" if "4 \<le> i" "i < 8" for i
  proof -
    have "i div 4 = 1" "i mod 4 < 4" using that by simp_all
    then show ?thesis unfolding in_rect_def by simp
  qed
  then have "changed_inside 1 2 (Some \<lparr>rc_left = 0, rc_top = 1, rc_right = 1, rc_bottom = 2\<rparr>)
      [1, 1, 1, 1, 1, 1, 1, 1] [1, 1, 1, 1, 2, 2, 2, 2]"
    unfolding changed_inside_def sample_clip by (auto simp: All_less_Suc numeral_eq_Suc)
  then show ?thesis
    by (simp add: sample_history_def surface_of_def surface_fits_def changed_inside_def)
qed

lemma sample_history_guard: "\<exists>(bs, dirty) \<in> set sample_history. present_guard 1 2 (1 * 4) dirty"
  by code_simp

lemma sample_desktop: "JuiceDimensionsValid 8 8 8192 16777216"
  by code_simp

theorem display_mirror_witness:
  "\<exists>s r f. sample_session = Some s \<and>
     receive_packets 4 (fst (split_stream (wire s))) (0, receiver_start) = Some (7, r) \<and>
     map_of (frames r) 5 = Some f \<and> fb_bytes f = [1, 1, 1, 1, 2, 2, 2, 2]"
proof -
  obtain s where s: "sample_session = Some s" "closed_wires s = []"
    using sample_session_up by (auto split: option.splits)
  from display_mirror [OF _ refl _ _ sample_desktop s(1) [unfolded sample_session_def] s(2)
      sample_history_honest sample_history_guard, of 4] s(1)
  show ?thesis by (auto simp: SUN_PATH_def sample_history_def)
qed

end
