(* ===== verification/Ios_Driver.thy ===== *)
theory Ios_Driver
  imports Display_Mirror "HOL-Library.Code_Target_Nat"
begin

text \<open>
  The user driver of \<^verbatim>\<open>wine/dlls/wineios.drv/iosdrv.c\<close>: display metrics, window callbacks and the
  window surfaces, on top of the transport of \<open>Ios_Ipc\<close>.  A surface is known by its address
  (\<open>sf_id\<close>); the pixels are painted by GDI between the calls (\<open>paint\<close>).  The optional host
  functions found by \<^verbatim>\<open>dlsym\<close> appear as a list of \<open>host_call\<close>s; \<open>hooks\<close> says which of the four
  were found.  The results of \<^verbatim>\<open>calloc\<close>, of win32u's surface constructor, of its visibility
  query and of its reference counting are arguments.
\<close>

section \<open>State\<close>

datatype host_call =
    Host_desktop_changed u32 u32 u32
  | Host_window_changed u32 "RECT option" bool
  | Host_window_destroyed u32
  | Host_present u32 bytes u32 u32 u32 "RECT option"

record host_hooks =
  host_desktop_changed :: bool
  host_window_changed :: bool
  host_window_destroyed :: bool
  host_present_bgra :: bool

record bitmap_info =
  bi_width :: u32
  bi_height :: u32
  bi_bit_count :: u16
  bi_size_image :: u32

record iosdrv_surface =
  sf_id :: nat
  sf_hwnd :: u64
  sf_info :: bitmap_info
  sf_bits :: bytes
  sf_width :: u32
  sf_height :: u32
  sf_stride :: u32
  sf_presented :: bool

record driver =
  drv_ipc :: ipc_state
  surface_list :: "iosdrv_surface list"
  metrics_once :: bool
  fresh_id :: nat
  hooks :: host_hooks
  host_calls :: "host_call list"
  socket_path :: "string option"

definition screen_width :: u32 where "screen_width = 1024"
definition screen_height :: u32 where "screen_height = 768"
definition screen_dpi :: u32 where "screen_dpi = 96"

fun hooked :: "host_hooks \<Rightarrow> host_call \<Rightarrow> bool" where
  "hooked k (Host_desktop_changed _ _ _) = host_desktop_changed k"
| "hooked k (Host_window_changed _ _ _) = host_window_changed k"
| "hooked k (Host_window_destroyed _) = host_window_destroyed k"
| "hooked k (Host_present _ _ _ _ _ _) = host_present_bgra k"

definition call_host :: "host_call \<Rightarrow> driver \<Rightarrow> driver" where
  "call_host h d = (if hooked (hooks d) h then d\<lparr>host_calls := host_calls d @ [h]\<rparr> else d)"

text \<open>Lift a call of the transport; \<open>None\<close> has not returned.\<close>

definition on_ipc :: "(ipc_state \<Rightarrow> ipc_state option) \<Rightarrow> driver \<Rightarrow> driver option" where
  "on_ipc f d = map_option (\<lambda>i. d\<lparr>drv_ipc := i\<rparr>) (f (drv_ipc d))"

section \<open>Metrics and windows\<close>

definition init_metrics :: "nat \<Rightarrow> driver \<Rightarrow> driver option" where
  "init_metrics tid d =
     (if metrics_once d then Some d
      else on_ipc (ios_ipc_init tid (socket_path d) screen_width screen_height screen_dpi)
             (call_host (Host_desktop_changed screen_width screen_height screen_dpi) (d\<lparr>metrics_once := True\<rparr>)))"

text \<open>\<open>next_caps\<close> is the device below in the driver stack.\<close>

definition ios_GetDeviceCaps :: "(u32 \<Rightarrow> u32) \<Rightarrow> nat \<Rightarrow> u32 \<Rightarrow> driver \<Rightarrow> (u32 \<times> driver) option" where
  "ios_GetDeviceCaps next_caps tid cap d =
     map_option (Pair
       (if cap = 8 \<or> cap = 118 then screen_width
        else if cap = 10 \<or> cap = 117 then screen_height
        else if cap = 88 \<or> cap = 90 then screen_dpi
        else if cap = 12 then 32
        else if cap = 14 then 1
        else if cap = 4 then (screen_width * 254) div (screen_dpi * 10)
        else if cap = 6 then (screen_height * 254) div (screen_dpi * 10)
        else next_caps cap)) (init_metrics tid d)"

definition ios_CreateWindow :: "nat \<Rightarrow> u64 \<Rightarrow> driver \<Rightarrow> driver option" where
  "ios_CreateWindow tid hwnd d =
     (case init_metrics tid d of None \<Rightarrow> None
      | Some d \<Rightarrow> on_ipc (\<lambda>i. Some (ios_ipc_register_queue tid i)) d)"

definition ios_DestroyWindow :: "nat \<Rightarrow> u64 \<Rightarrow> driver \<Rightarrow> driver option" where
  "ios_DestroyWindow tid hwnd d =
     on_ipc (ios_ipc_destroy tid hwnd) (call_host (Host_window_destroyed (ucast hwnd)) d)"

definition ios_ShowWindow :: "nat \<Rightarrow> u64 \<Rightarrow> u32 \<Rightarrow> RECT option \<Rightarrow> driver \<Rightarrow> driver option" where
  "ios_ShowWindow tid hwnd cmd rect d =
     on_ipc (ios_ipc_window tid hwnd rect (cmd \<noteq> 0)) (call_host (Host_window_changed (ucast hwnd) rect (cmd \<noteq> 0)) d)"

definition ios_WindowPosChanged :: "nat \<Rightarrow> u64 \<Rightarrow> u32 \<Rightarrow> RECT \<Rightarrow> bool \<Rightarrow> driver \<Rightarrow> driver option" where
  "ios_WindowPosChanged tid hwnd flags window is_visible d =
     (let visible = (if has_bits flags 0x80 then False else if has_bits flags 0x40 then True else is_visible) in
      on_ipc (ios_ipc_window tid hwnd (Some window) visible)
        (call_host (Host_window_changed (ucast hwnd) (Some window) visible) d))"

section \<open>Surfaces\<close>

definition full_rect :: "iosdrv_surface \<Rightarrow> RECT" where
  "full_rect sf = \<lparr>rc_left = 0, rc_top = 0, rc_right = sf_width sf, rc_bottom = sf_height sf\<rparr>"

definition update_surface :: "nat \<Rightarrow> (iosdrv_surface \<Rightarrow> iosdrv_surface) \<Rightarrow> driver \<Rightarrow> driver" where
  "update_surface sid f d = d\<lparr>surface_list := map (\<lambda>sf. if sf_id sf = sid then f sf else sf) (surface_list d)\<rparr>"

definition present_surface :: "nat \<Rightarrow> iosdrv_surface \<Rightarrow> RECT option \<Rightarrow> RECT option \<Rightarrow> driver \<Rightarrow> driver option" where
  "present_surface tid sf host_dirty dirty d =
     map_option (update_surface (sf_id sf) (\<lambda>sf. sf\<lparr>sf_presented := True\<rparr>))
       (on_ipc (ios_ipc_present tid (sf_hwnd sf) (Some (sf_bits sf)) (sf_width sf) (sf_height sf) (sf_stride sf) dirty)
         (call_host (Host_present (ucast (sf_hwnd sf)) (sf_bits sf) (sf_width sf) (sf_height sf) (sf_stride sf) host_dirty) d))"

definition iosdrv_present_now :: "nat \<Rightarrow> u64 \<Rightarrow> driver \<Rightarrow> (bool \<times> driver) option" where
  "iosdrv_present_now tid hwnd d =
     (case find (\<lambda>sf. sf_hwnd sf = hwnd) (surface_list d) of
        None \<Rightarrow> Some (False, d)
      | Some sf \<Rightarrow> map_option (Pair True) (present_surface tid sf (Some (full_rect sf)) (Some (full_rect sf)) d))"

definition surface_flush :: "nat \<Rightarrow> nat \<Rightarrow> RECT option \<Rightarrow> driver \<Rightarrow> driver option" where
  "surface_flush tid sid dirty d =
     (case find (\<lambda>sf. sf_id sf = sid) (surface_list d) of
        None \<Rightarrow> Some d
      | Some sf \<Rightarrow> present_surface tid sf dirty (if \<not> sf_presented sf then Some (full_rect sf) else dirty) d)"

definition surface_destroy :: "nat \<Rightarrow> driver \<Rightarrow> driver" where
  "surface_destroy sid d = d\<lparr>surface_list := filter (\<lambda>sf. sf_id sf \<noteq> sid) (surface_list d)\<rparr>"

text \<open>
  \<open>previous\<close> is the surface win32u has for the window, when it is one of this driver's;
  \<open>alloc\<close> and \<open>created\<close> are the results of \<^verbatim>\<open>calloc\<close> and \<^verbatim>\<open>window_surface_create\<close>.  The result is
  the surface to use, \<open>None\<close> for FALSE; \<open>dropped\<close> says that releasing the previous surface gave
  up its last reference, upon which win32u destroys it.
\<close>

definition surface_info :: "u32 \<Rightarrow> u32 \<Rightarrow> u32 \<Rightarrow> bitmap_info" where
  "surface_info width height stride =
     \<lparr>bi_width = width, bi_height = - height, bi_bit_count = 32, bi_size_image = stride * height\<rparr>"

definition ios_CreateWindowSurface ::
  "nat \<Rightarrow> u64 \<Rightarrow> RECT option \<Rightarrow> nat option \<Rightarrow> bool \<Rightarrow> bool \<Rightarrow> bool \<Rightarrow> driver \<Rightarrow> nat option \<times> driver" where
  "ios_CreateWindowSurface tid hwnd rect previous alloc created dropped d =
     (case rect of None \<Rightarrow> (None, d) | Some r \<Rightarrow>
      if sint (rc_right r) < sint (rc_left r) \<or> sint (rc_bottom r) < sint (rc_top r) then (None, d)
      else let
        wide_width = juice_rect_extent (rc_left r) (rc_right r);
        wide_height = juice_rect_extent (rc_top r) (rc_bottom r)
      in case readback_layout wide_width wide_height 1 (Some \<lparr>lay_stride = 0, lay_bytes = 0\<rparr>) of
          (True, Some layout) \<Rightarrow>
            (let width = ucast wide_width :: u32; height = ucast wide_height; stride = ucast (lay_stride layout);
                 d = d\<lparr>drv_ipc := ios_ipc_register_queue tid (drv_ipc d)\<rparr>;
                 reused = (case previous of None \<Rightarrow> None | Some sid \<Rightarrow>
                   (case find (\<lambda>sf. sf_id sf = sid) (surface_list d) of None \<Rightarrow> None
                    | Some old \<Rightarrow> if sf_width old = width \<and> sf_height old = height then Some sid else None))
             in case reused of
                 Some sid \<Rightarrow> (Some sid, d)
               | None \<Rightarrow>
                   if \<not> alloc then (None, d)
                   else if \<not> created then (None, d)
                   else let sf = \<lparr>sf_id = fresh_id d, sf_hwnd = hwnd,
                          sf_info = surface_info width height stride, sf_bits = replicate (unat (lay_bytes layout)) 0,
                          sf_width = width, sf_height = height, sf_stride = stride, sf_presented = False\<rparr>
                     in (Some (fresh_id d),
                         (case previous of Some sid \<Rightarrow> if dropped then surface_destroy sid else id | None \<Rightarrow> id)
                           (d\<lparr>surface_list := sf # surface_list d, fresh_id := fresh_id d + 1\<rparr>)))
        | _ \<Rightarrow> (None, d))"

text \<open>GDI writes into the surface's memory: any new bytes, of the same number.\<close>

definition paint :: "nat \<Rightarrow> bytes \<Rightarrow> driver \<Rightarrow> driver" where
  "paint sid bs d = update_surface sid (\<lambda>sf. if length bs = length (sf_bits sf) then sf\<lparr>sf_bits := bs\<rparr> else sf) d"

section \<open>Invariant\<close>

definition sound_surface :: "iosdrv_surface \<Rightarrow> bool" where
  "sound_surface sf \<longleftrightarrow> surface_of (sf_width sf) (sf_height sf) (sf_bits sf) \<and> sf_stride sf = sf_width sf * 4 \<and>
     sf_info sf = surface_info (sf_width sf) (sf_height sf) (sf_stride sf)"

definition driver_inv :: "driver \<Rightarrow> bool" where
  "driver_inv d \<longleftrightarrow> ipc_inv {} (drv_ipc d) \<and> (\<forall>sf \<in> set (surface_list d). sound_surface sf)"

lemma call_host_inv: "driver_inv (call_host h d) = driver_inv d"
  by (simp add: driver_inv_def call_host_def)

lemma on_ipc_inv:
  assumes "on_ipc f d = Some d'" "driver_inv d" "\<And>i. f (drv_ipc d) = Some i \<Longrightarrow> ipc_inv {} i"
  shows "driver_inv d'"
  using assms by (auto simp: on_ipc_def driver_inv_def)

lemma drv_ipc_call_host [simp]: "drv_ipc (call_host h d) = drv_ipc d" "surface_list (call_host h d) = surface_list d"
  by (simp_all add: call_host_def)

lemma init_metrics_inv: "init_metrics tid d = Some d' \<Longrightarrow> driver_inv d \<Longrightarrow> driver_inv d'"
  unfolding init_metrics_def
  by (auto split: if_splits elim!: on_ipc_inv intro: init_inv simp: call_host_inv) (auto simp: driver_inv_def intro: init_inv)

lemma on_ipc_register_inv:
  "on_ipc (\<lambda>i. Some (ios_ipc_register_queue tid i)) d = Some d' \<Longrightarrow> driver_inv d \<Longrightarrow> driver_inv d'"
  by (erule on_ipc_inv) (auto simp: driver_inv_def register_queue_inv)

lemma create_window_inv: "ios_CreateWindow tid hwnd d = Some d' \<Longrightarrow> driver_inv d \<Longrightarrow> driver_inv d'"
  unfolding ios_CreateWindow_def
  by (auto split: option.splits intro: init_metrics_inv on_ipc_register_inv)

lemma caps_inv: "ios_GetDeviceCaps nc tid cap d = Some (v, d') \<Longrightarrow> driver_inv d \<Longrightarrow> driver_inv d'"
  by (auto simp: ios_GetDeviceCaps_def intro: init_metrics_inv)

lemma destroy_window_inv: "ios_DestroyWindow tid hwnd d = Some d' \<Longrightarrow> driver_inv d \<Longrightarrow> driver_inv d'"
  unfolding ios_DestroyWindow_def
  by (erule on_ipc_inv) (auto simp: call_host_inv driver_inv_def intro: destroy_inv)

lemma show_window_inv: "ios_ShowWindow tid hwnd cmd rect d = Some d' \<Longrightarrow> driver_inv d \<Longrightarrow> driver_inv d'"
  unfolding ios_ShowWindow_def
  by (erule on_ipc_inv) (auto simp: call_host_inv driver_inv_def intro: window_inv)

lemma pos_changed_inv: "ios_WindowPosChanged tid hwnd flags w v d = Some d' \<Longrightarrow> driver_inv d \<Longrightarrow> driver_inv d'"
  unfolding ios_WindowPosChanged_def Let_def
  by (erule on_ipc_inv) (auto simp: call_host_inv driver_inv_def intro: window_inv)

lemma sound_memory: "sound_surface sf \<Longrightarrow> surface_memory (sf_bits sf) (sf_width sf) (sf_height sf) (sf_stride sf)"
  using surface_nat [of "sf_width sf" "sf_height sf" "sf_bits sf"] by (simp add: sound_surface_def surface_memory_def)

lemma update_surface_inv:
  "driver_inv d \<Longrightarrow> (\<And>sf. sound_surface sf \<Longrightarrow> sound_surface (f sf)) \<Longrightarrow> driver_inv (update_surface sid f d)"
  by (auto simp: driver_inv_def update_surface_def)

lemma present_surface_inv:
  assumes "present_surface tid sf hdirty dirty d = Some d'" "driver_inv d" "sound_surface sf"
  shows "driver_inv d'"
proof -
  from assms(1) obtain e where e: "on_ipc (ios_ipc_present tid (sf_hwnd sf) (Some (sf_bits sf)) (sf_width sf)
      (sf_height sf) (sf_stride sf) dirty)
      (call_host (Host_present (ucast (sf_hwnd sf)) (sf_bits sf) (sf_width sf) (sf_height sf) (sf_stride sf) hdirty) d) = Some e"
      and d': "d' = update_surface (sf_id sf) (\<lambda>sf. sf\<lparr>sf_presented := True\<rparr>) e"
    by (auto simp: present_surface_def)
  have "driver_inv e"
    by (rule on_ipc_inv [OF e])
      (use assms(2) sound_memory [OF assms(3)] in \<open>auto simp: call_host_inv driver_inv_def intro: present_inv\<close>)
  then show ?thesis unfolding d' by (rule update_surface_inv) (simp add: sound_surface_def)
qed

lemma find_in_set: "find P xs = Some x \<Longrightarrow> x \<in> set xs \<and> P x"
  by (auto simp: find_Some_iff)

lemma present_now_inv: "iosdrv_present_now tid hwnd d = Some (b, d') \<Longrightarrow> driver_inv d \<Longrightarrow> driver_inv d'"
  by (auto simp: iosdrv_present_now_def driver_inv_def split: option.splits
      dest!: find_in_set dest: present_surface_inv [unfolded driver_inv_def])

lemma flush_inv:
  assumes "surface_flush tid sid dirty d = Some d'" "driver_inv d"
  shows "driver_inv d'"
proof (cases "find (\<lambda>sf. sf_id sf = sid) (surface_list d)")
  case (Some sf)
  then have "sound_surface sf" using find_in_set [OF Some] assms(2) by (simp add: driver_inv_def)
  with Some assms show ?thesis by (auto simp: surface_flush_def intro: present_surface_inv)
qed (use assms in \<open>simp add: surface_flush_def\<close>)

lemma surface_destroy_inv: "driver_inv d \<Longrightarrow> driver_inv (surface_destroy sid d)"
  by (auto simp: driver_inv_def surface_destroy_def)

lemma paint_inv: "driver_inv d \<Longrightarrow> driver_inv (paint sid bs d)"
  unfolding paint_def by (erule update_surface_inv) (auto simp: sound_surface_def surface_of_def)

text \<open>The surface that a size accepted by \<open>readback_layout\<close> gets.\<close>

lemma new_surface_sound:
  assumes "surface_fits w h"
  shows "sound_surface \<lparr>sf_id = i, sf_hwnd = hwnd, sf_info = surface_info (ucast w) (ucast h) (ucast (w * 4)),
    sf_bits = replicate (unat (w * 4 * h)) 0, sf_width = ucast w, sf_height = ucast h,
    sf_stride = ucast (w * 4), sf_presented = p\<rparr>"
proof -
  have b: "unat w \<le> 8192" "unat h \<le> 8192" using assms by (simp_all add: surface_fits_def)
  then have u: "unat (ucast w :: u32) = unat w" "unat (ucast h :: u32) = unat h"
    by (simp_all add: unsigned_ucast_eq take_bit_nat_eq_self)
  have w4: "unat (w * 4) = unat w * 4" using b by (subst unat_mult_noov) simp_all
  have "unat w * 4 * unat h \<le> 8192 * 4 * 8192" using b by (intro mult_le_mono) simp_all
  then have "unat (w * 4 * h) = unat w * 4 * unat h"
    by (subst unat_mult_noov) (simp_all add: w4)
  moreover have "ucast (w * 4) = (ucast w * 4 :: u32)"
    using b w4 u by (subst word_unat_eq_iff) (simp add: unsigned_ucast_eq take_bit_nat_eq_self unat_times4)
  ultimately show ?thesis
    using assms u by (simp add: sound_surface_def surface_of_def surface_fits_def)
qed

lemma create_surface_cases:
  assumes "ios_CreateWindowSurface tid hwnd rect previous alloc created dropped d = (res, d')" "driver_inv d"
  shows "driver_inv d'"
proof -
  let ?d = "d\<lparr>drv_ipc := ios_ipc_register_queue tid (drv_ipc d)\<rparr>"
  have inv: "driver_inv ?d" using assms(2) by (simp add: driver_inv_def register_queue_inv)
  have new: "driver_inv (?d\<lparr>surface_list := sf # surface_list d, fresh_id := i\<rparr>)" if "sound_surface sf" for sf i
    using inv that by (simp add: driver_inv_def)
  show ?thesis
    using assms inv new new_surface_sound surface_destroy_inv
    by (auto simp: ios_CreateWindowSurface_def readback_layout_packed Let_def split: option.splits if_splits)
qed

section \<open>Histories of driver callbacks\<close>

datatype driver_event =
    Ev_caps nat u32
  | Ev_create nat u64
  | Ev_destroy nat u64
  | Ev_show nat u64 u32 "RECT option"
  | Ev_moved nat u64 u32 RECT bool
  | Ev_surface nat u64 "RECT option" "nat option" bool bool bool
  | Ev_paint nat bytes
  | Ev_flush nat nat "RECT option"
  | Ev_present nat u64
  | Ev_surface_gone nat

fun run_event :: "driver_event \<Rightarrow> driver \<Rightarrow> driver option" where
  "run_event (Ev_caps tid cap) d = map_option snd (ios_GetDeviceCaps (\<lambda>_. 0) tid cap d)"
| "run_event (Ev_create tid hwnd) d = ios_CreateWindow tid hwnd d"
| "run_event (Ev_destroy tid hwnd) d = ios_DestroyWindow tid hwnd d"
| "run_event (Ev_show tid hwnd cmd rect) d = ios_ShowWindow tid hwnd cmd rect d"
| "run_event (Ev_moved tid hwnd flags rect visible) d = ios_WindowPosChanged tid hwnd flags rect visible d"
| "run_event (Ev_surface tid hwnd rect previous alloc created dropped) d =
     Some (snd (ios_CreateWindowSurface tid hwnd rect previous alloc created dropped d))"
| "run_event (Ev_paint sid bs) d = Some (paint sid bs d)"
| "run_event (Ev_flush tid sid dirty) d = surface_flush tid sid dirty d"
| "run_event (Ev_present tid hwnd) d = map_option snd (iosdrv_present_now tid hwnd d)"
| "run_event (Ev_surface_gone sid) d = Some (surface_destroy sid d)"

fun run_events :: "driver_event list \<Rightarrow> driver \<Rightarrow> driver option" where
  "run_events [] d = Some d"
| "run_events (e # es) d = (case run_event e d of None \<Rightarrow> None | Some d' \<Rightarrow> run_events es d')"

definition driver_start :: "ipc_state \<Rightarrow> host_hooks \<Rightarrow> string option \<Rightarrow> driver" where
  "driver_start i k path = \<lparr>drv_ipc = i, surface_list = [], metrics_once = False, fresh_id = 0, hooks = k,
     host_calls = [], socket_path = path\<rparr>"

lemma run_event_inv: "run_event e d = Some d' \<Longrightarrow> driver_inv d \<Longrightarrow> driver_inv d'"
  by (cases e) (auto simp: paint_inv surface_destroy_inv prod_eq_iff
      intro: caps_inv create_window_inv destroy_window_inv show_window_inv pos_changed_inv flush_inv
        present_now_inv create_surface_cases)

lemma run_events_inv: "run_events es d = Some d' \<Longrightarrow> driver_inv d \<Longrightarrow> driver_inv d'"
  by (induction es arbitrary: d) (auto split: option.splits intro: run_event_inv)

lemma sound_header:
  assumes "sound_surface sf"
  shows "JuiceFullHeaderValid (full_msg hwnd (sf_width sf) (sf_height sf) (sf_stride sf) pad)"
    and "unat (bi_size_image (sf_info sf)) = length (sf_bits sf)"
proof -
  from assms have s: "surface_of (sf_width sf) (sf_height sf) (sf_bits sf)" "sf_stride sf = sf_width sf * 4"
      "sf_info sf = surface_info (sf_width sf) (sf_height sf) (sf_stride sf)"
    by (simp_all add: sound_surface_def)
  note n = surface_nat [OF s(1)]
  have eq: "unat (sf_stride sf) * unat (sf_height sf) = length (sf_bits sf)" using n s(2) by simp
  have "length (sf_bits sf) \<le> 67108864" using n by blast
  then have "length (sf_bits sf) < 2 ^ 32" by simp
  with eq have small: "unat (sf_stride sf) * unat (sf_height sf) < 2 ^ 32"
      "unat (sf_stride sf) * unat (sf_height sf) = length (sf_bits sf)"
    by (metis, metis)
  have "unat (of_nat (unat (sf_stride sf) * unat (sf_height sf)) :: u32) = unat (sf_stride sf) * unat (sf_height sf)"
    using small by (intro unat_of_nat_u32) simp
  moreover have "unat (sf_height sf) * unat (sf_width sf) \<le> 33554432" using n by (simp add: mult.commute)
  ultimately
  show "JuiceFullHeaderValid (full_msg hwnd (sf_width sf) (sf_height sf) (sf_stride sf) pad)"
    using n s(2) small dims_valid [of "sf_width sf" "sf_height sf"]
    by (simp add: JuiceFullHeaderValid_def full_msg_def Let_def)
  show "unat (bi_size_image (sf_info sf)) = length (sf_bits sf)"
    using small by (simp add: s(3) surface_info_def unat_mult_noov)
qed

lemma full_rect_clip:
  assumes "sound_surface sf"
  shows "clip_dirty (sf_width sf) (sf_height sf) (Some (full_rect sf)) = full_rect sf"
    and "present_guard (sf_width sf) (sf_height sf) (sf_stride sf) (Some (full_rect sf))"
proof -
  from assms have s: "surface_of (sf_width sf) (sf_height sf) (sf_bits sf)" "sf_stride sf = sf_width sf * 4"
    by (simp_all add: sound_surface_def)
  note n = surface_nat [OF s(1)]
  then have i: "sint (sf_width sf) = int (unat (sf_width sf))" "sint (sf_height sf) = int (unat (sf_height sf))"
    by (intro sint_u32_small; simp)+
  show c: "clip_dirty (sf_width sf) (sf_height sf) (Some (full_rect sf)) = full_rect sf"
    by (simp add: clip_dirty_def full_rect_def)
  have eq: "unat (sf_stride sf) * unat (sf_height sf) = length (sf_bits sf)" using n s(2) by simp
  then have "unat (sf_stride sf) * unat (sf_height sf) \<le> 4294967295" unfolding eq using n by simp
  moreover have "sf_width sf \<noteq> 0" "sf_height sf \<noteq> 0" using n by auto
  moreover have "\<not> (sint (sf_width sf) \<le> 0 \<or> sint (sf_height sf) \<le> 0)" unfolding i using n by linarith
  ultimately show "present_guard (sf_width sf) (sf_height sf) (sf_stride sf) (Some (full_rect sf))"
    unfolding present_guard_def c Let_def by (simp add: s(2) full_rect_def)
qed

lemma full_frame_packet:
  assumes "sound_surface sf"
  shows "frame_packet hwnd (sf_bits sf) (sf_width sf) (sf_height sf) (sf_stride sf) (Some (full_rect sf)) pad b =
    (full_msg hwnd (sf_width sf) (sf_height sf) (sf_stride sf) pad, sf_bits sf)"
  using surface_nat [of "sf_width sf" "sf_height sf" "sf_bits sf"] assms
  by (simp add: frame_packet_def full_rect_clip Let_def) (simp add: full_rect_def sound_surface_def)

section \<open>Properties\<close>


definition sample_events :: "driver_event list" where
  "sample_events = [Ev_create 0 5, Ev_surface 0 5 (Some \<lparr>rc_left = 0, rc_top = 0, rc_right = 2, rc_bottom = 2\<rparr>) None True True False,
     Ev_flush 0 0 (Some \<lparr>rc_left = 1, rc_top = 1, rc_right = 2, rc_bottom = 2\<rparr>)]"

definition sample_driver :: driver where
  "sample_driver = driver_start (ipc_start [Accepted 3] [Xfer 48, Xfer 48, Xfer 16] [] [] 7 0)
     \<lparr>host_desktop_changed = True, host_window_changed = False, host_window_destroyed = False, host_present_bgra = True\<rparr>
     (Some ''/s'')"

lemma driver_sample_run:
  "case run_events sample_events sample_driver of None \<Rightarrow> False
   | Some d \<Rightarrow> ipc_fd (drv_ipc d) = 3 \<and> length (wire (drv_ipc d)) = 112 \<and> map sf_presented (surface_list d) = [True]"
  by code_simp



definition sample_seed :: "driver option" where
  "sample_seed = run_events (butlast sample_events) sample_driver"


end
