(* ===== verification/Utf_Text.thy ===== *)
theory Utf_Text
  imports Juice_Prelude "HOL-Library.Code_Target_Nat"
begin

text \<open>
  The text helpers of the app: the UTF-8 stream sanitizer of \<^verbatim>\<open>app/JuiceUTF8Stream.c\<close> and the
  UTF-16 chunker of \<^verbatim>\<open>app/JuiceUTF16.h\<close>.  A pointer into a buffer is the list from there to the
  end of the buffer.  The reference is the encoding of Unicode scalar values, \<open>utf8_encode\<close>.
\<close>

section \<open>UTF-8\<close>

definition lead_need :: "u8 \<Rightarrow> int" where
  "lead_need a = (if 0xc2 \<le> a \<and> a \<le> 0xdf then 2 else if 0xe0 \<le> a \<and> a \<le> 0xef then 3
     else if 0xf0 \<le> a \<and> a \<le> 0xf4 then 4 else - 1)"

definition trail_bad :: "u8 \<Rightarrow> nat \<Rightarrow> u8 \<Rightarrow> bool" where
  "trail_bad a i b \<longleftrightarrow> b AND 0xc0 \<noteq> 0x80 \<or>
     i = 1 \<and> (a = 0xe0 \<and> b < 0xa0 \<or> a = 0xed \<and> b \<ge> 0xa0 \<or> a = 0xf0 \<and> b < 0x90 \<or> a = 0xf4 \<and> b \<ge> 0x90)"

fun trail_scan :: "u8 \<Rightarrow> nat \<Rightarrow> bytes \<Rightarrow> bool" where
  "trail_scan a i [] = True"
| "trail_scan a i (b # bs) = (if trail_bad a i b then False else trail_scan a (i + 1) bs)"

text \<open>The length of the scalar at the front; 0 incomplete, -1 malformed.\<close>

definition scalar :: "bytes \<Rightarrow> int" where
  "scalar s =
     (case s of [] \<Rightarrow> 0
      | a # t \<Rightarrow>
        if a < 0x80 then 1
        else let need = lead_need a in
          if need < 0 then - 1
          else if \<not> trail_scan a 1 (take (nat need - 1) t) then - 1
          else if length s < nat need then 0 else need)"

fun complete_from :: "bytes \<Rightarrow> nat \<Rightarrow> nat \<Rightarrow> nat" where
  "complete_from s i 0 = i"
| "complete_from s i (Suc k) = (if scalar (drop i s) = 0 then i else complete_from s (Suc i) k)"

definition JuiceUTF8CompletePrefix :: "bytes option \<Rightarrow> nat" where
  "JuiceUTF8CompletePrefix s =
     (case s of None \<Rightarrow> 0 | Some s \<Rightarrow>
        let n = length s; start = (if n > 3 then n - 3 else 0) in complete_from s start (n - start))"

definition replacement :: bytes where
  "replacement = [0xef, 0xbf, 0xbd]"

text \<open>What is emitted for the scalar at the front, and how far the input moves.\<close>

definition emit :: "bytes \<Rightarrow> bytes" where
  "emit s = (if scalar s > 0 then take (nat (scalar s)) s else replacement)"

definition advance :: "bytes \<Rightarrow> nat" where
  "advance s = (if scalar s > 0 then nat (scalar s) else 1)"

function sanitize_loop :: "bytes \<Rightarrow> nat \<Rightarrow> bytes \<times> nat" where
  "sanitize_loop s room =
     (if s = [] \<or> length (emit s) > room then ([], 0)
      else case sanitize_loop (drop (advance s) s) (room - length (emit s)) of
        (out, consumed) \<Rightarrow> (emit s @ out, advance s + consumed))"
  by pat_completeness auto

termination by (relation "measure (\<lambda>(s, _). length s)") (auto simp: advance_def)

declare sanitize_loop.simps [simp del]

text \<open>
  \<open>out\<close> is \<open>None\<close> for a NULL destination.  The result is the bytes written (the return value is
  their number) and the value stored in \<open>consumed\<close>.
\<close>

definition JuiceUTF8Sanitize :: "bytes option \<Rightarrow> nat \<Rightarrow> unit option \<Rightarrow> nat \<Rightarrow> bytes \<times> nat" where
  "JuiceUTF8Sanitize s n out cap =
     (if s = None \<and> n > 0 \<or> out = None \<and> cap > 0 then ([], 0)
      else sanitize_loop (take n (case s of None \<Rightarrow> [] | Some bs \<Rightarrow> bs)) cap)"

section \<open>The encoding\<close>

definition scalar_value :: "nat \<Rightarrow> bool" where
  "scalar_value c \<longleftrightarrow> c < 0xd800 \<or> 0xe000 \<le> c \<and> c < 0x110000"

definition code_bytes :: "nat \<Rightarrow> nat list" where
  "code_bytes c =
     (if c < 0x80 then [c]
      else if c < 0x800 then [0xc0 + c div 64, 0x80 + c mod 64]
      else if c < 0x10000 then [0xe0 + c div 4096, 0x80 + c div 64 mod 64, 0x80 + c mod 64]
      else [0xf0 + c div 262144, 0x80 + c div 4096 mod 64, 0x80 + c div 64 mod 64, 0x80 + c mod 64])"

definition utf8_encode :: "nat \<Rightarrow> bytes" where
  "utf8_encode c = map of_nat (code_bytes c)"

inductive utf8 :: "bytes \<Rightarrow> bool" where
  utf8_Nil: "utf8 []"
| utf8_Cons: "scalar_value c \<Longrightarrow> utf8 s \<Longrightarrow> utf8 (utf8_encode c @ s)"

lemma byte_lt: "unat b < 256" for b :: u8
  using unsigned_less [of b, where 'a = nat] by simp

lemma cont_iff: "b AND 0xc0 = 0x80 \<longleftrightarrow> 128 \<le> unat b \<and> unat b < 192" for b :: u8
proof -
  have "b AND NOT (mask 6) = push_bit 6 (drop_bit 6 b)" by (auto intro!: bit_word_eqI simp: bit_simps)
  moreover have "NOT (mask 6) = (0xc0 :: u8)" by (simp add: mask_eq_exp_minus_1)
  ultimately have "b AND 0xc0 = push_bit 6 (drop_bit 6 b)" by simp
  then have "unat (b AND 0xc0) = take_bit 8 (push_bit 6 (drop_bit 6 (unat b)))"
    by (simp only: unsigned_push_bit_eq unat_drop_bit_eq) simp
  also have "\<dots> = take_bit 8 (unat b div 64 * 64)"
    by (simp add: push_bit_eq_mult drop_bit_eq_div)
  also have "\<dots> = unat b div 64 * 64"
    using byte_lt [of b] by (intro take_bit_nat_eq_self) simp
  finally have iff: "b AND 0xc0 = 0x80 \<longleftrightarrow> unat b div 64 * 64 = 128"
    by (simp add: word_eq_iff_unsigned [where 'a = nat])
  have "unat b = unat b div 64 * 64 + unat b mod 64" "unat b mod 64 < 64" by simp_all
  then have 1: "unat b div 64 * 64 = 128 \<Longrightarrow> 128 \<le> unat b \<and> unat b < 192" by linarith
  have "128 \<le> unat b \<and> unat b < 192 \<Longrightarrow> unat b div 64 = 2" by (intro div_nat_eqI) simp_all
  then have 2: "128 \<le> unat b \<and> unat b < 192 \<Longrightarrow> unat b div 64 * 64 = 128" by simp
  show ?thesis unfolding iff using 1 2 by blast
qed

lemma unat_byte: "n < 256 \<Longrightarrow> unat (of_nat n :: u8) = n"
  by (simp add: unat_of_nat take_bit_nat_eq_self)

lemma byte_eqI: "unat a = unat b \<Longrightarrow> a = b" for a b :: u8
  by (simp add: word_eq_iff_unsigned [where 'a = nat])

text \<open>The scalars by the values of their bytes.\<close>

definition good2 :: "nat \<Rightarrow> nat \<Rightarrow> bool" where
  "good2 a b \<longleftrightarrow> 128 \<le> b \<and> b < 192 \<and> (a = 0xe0 \<longrightarrow> 0xa0 \<le> b) \<and> (a = 0xed \<longrightarrow> b < 0xa0) \<and>
     (a = 0xf0 \<longrightarrow> 0x90 \<le> b) \<and> (a = 0xf4 \<longrightarrow> b < 0x90)"

definition cont :: "nat \<Rightarrow> bool" where
  "cont b \<longleftrightarrow> 128 \<le> b \<and> b < 192"

lemma byte_eq_iff:
  "a = 0xe0 \<longleftrightarrow> unat a = 0xe0" "a = 0xed \<longleftrightarrow> unat a = 0xed" "a = 0xf0 \<longleftrightarrow> unat a = 0xf0" "a = 0xf4 \<longleftrightarrow> unat a = 0xf4"
  for a :: u8
  by (auto dest: arg_cong [of _ _ unat] intro: byte_eqI)

lemma byte_less_iff:
  "a < 0x80 \<longleftrightarrow> unat a < 0x80" "a < 0xa0 \<longleftrightarrow> unat a < 0xa0" "0xa0 \<le> a \<longleftrightarrow> 0xa0 \<le> unat a" "a < 0x90 \<longleftrightarrow> unat a < 0x90"
  "0x90 \<le> a \<longleftrightarrow> 0x90 \<le> unat a"
  for a :: u8
  by (simp_all add: word_less_unat word_le_unat)

lemma trail_bad_iff:
  "trail_bad a i b \<longleftrightarrow> \<not> (if i = 1 then good2 (unat a) (unat b) else cont (unat b))"
  unfolding trail_bad_def cont_iff byte_eq_iff byte_less_iff good2_def cont_def
  by (auto simp: not_less not_le)

lemma lead_need_iff:
  "lead_need a = (let x = unat a in if 0xc2 \<le> x \<and> x < 0xe0 then 2 else if 0xe0 \<le> x \<and> x < 0xf0 then 3
     else if 0xf0 \<le> x \<and> x < 0xf5 then 4 else - 1)"
  by (auto simp: lead_need_def Let_def word_le_unat)

fun tail_ok :: "nat \<Rightarrow> nat list \<Rightarrow> bool" where
  "tail_ok a [] = True"
| "tail_ok a (b # bs) = (good2 a b \<and> list_all cont bs)"

lemma trail_scan_cont: "1 < i \<Longrightarrow> trail_scan a i bs \<longleftrightarrow> list_all cont (map unat bs)"
  by (induction a i bs rule: trail_scan.induct) (simp_all add: trail_bad_iff)

lemma trail_scan_tail: "trail_scan a 1 bs \<longleftrightarrow> tail_ok (unat a) (map unat bs)"
  by (cases bs) (simp_all add: trail_bad_iff trail_scan_cont)

lemma scalar_Cons:
  "scalar (a # s) =
     (if unat a < 128 then 1
      else let need = lead_need a in
        if need < 0 \<or> \<not> tail_ok (unat a) (map unat (take (nat need - 1) s)) then - 1
        else if length s + 1 < nat need then 0 else need)"
  unfolding scalar_def list.case byte_less_iff(1) Let_def trail_scan_tail by simp

definition need_of :: "nat \<Rightarrow> nat" where
  "need_of x = (if x < 128 then 1 else if 0xc2 \<le> x \<and> x < 0xe0 then 2 else if 0xe0 \<le> x \<and> x < 0xf0 then 3
     else if 0xf0 \<le> x \<and> x < 0xf5 then 4 else 0)"

text \<open>The byte values that make up one scalar.\<close>

fun whole :: "nat list \<Rightarrow> bool" where
  "whole [] = False"
| "whole (a # t) = (need_of a = length t + 1 \<and> tail_ok a t)"

lemma scalar_need:
  "scalar (a # s) = (let need = need_of (unat a) in
     if need = 0 \<or> \<not> tail_ok (unat a) (map unat (take (need - 1) s)) then - 1
     else if length s + 1 < need then 0 else int need)"
proof (cases "unat a < 128")
  case True
  then show ?thesis by (simp add: scalar_Cons need_of_def)
next
  case False
  then have "lead_need a = (if need_of (unat a) = 0 then - 1 else int (need_of (unat a)))"
    by (simp add: lead_need_iff need_of_def Let_def)
  with False show ?thesis unfolding scalar_Cons Let_def by simp
qed

lemma scalar_pos_iff: "0 < k \<and> scalar s = int k \<longleftrightarrow> k \<le> length s \<and> whole (map unat (take k s))"
proof (cases s)
  case Nil
  then show ?thesis by (auto simp: scalar_def)
next
  case (Cons a t)
  show ?thesis
  proof (cases k)
    case (Suc j)
    have "min (length t) j = j \<longleftrightarrow> j \<le> length t" by auto
    moreover have "int (need_of (unat a)) = 1 + int j \<longleftrightarrow> need_of (unat a) = Suc j" by auto
    ultimately show ?thesis using Cons Suc by (auto simp: scalar_need Let_def min_def split: if_splits)
  qed simp
qed

lemma tail_extend:
  assumes "tail_ok a v" "length v < m" "need_of a \<noteq> 0"
  shows "\<exists>t. t \<noteq> [] \<and> length (v @ t) = m \<and> tail_ok a (v @ t) \<and> list_all (\<lambda>x. x < 256) t"
proof (cases v)
  case Nil
  define b :: nat where "b = (if a = 0xe0 then 0xa0 else if a = 0xf0 then 0x90 else 0x80)"
  have "good2 a b" by (auto simp: good2_def b_def)
  moreover have "b < 256" by (simp add: b_def)
  ultimately show ?thesis using assms(2) Nil
    by (intro exI [of _ "b # replicate (m - 1) 0x80"]) (auto simp: list_all_iff cont_def)
next
  case (Cons b w)
  then show ?thesis using assms
    by (intro exI [of _ "replicate (m - length v) 0x80"]) (auto simp: list_all_iff cont_def)
qed

lemma map_unat_of_nat: "list_all (\<lambda>x. x < 256) t \<Longrightarrow> map unat (map of_nat t :: bytes) = t"
  by (induction t) (simp_all add: unat_byte)

lemma tail_ok_prefix: "tail_ok a (v @ w) \<Longrightarrow> tail_ok a v"
  by (cases v) auto

lemma scalar_zero_iff: "scalar s = 0 \<longleftrightarrow> (\<exists>t. t \<noteq> [] \<and> whole (map unat (s @ t)))"
proof (cases s)
  case Nil
  have "whole (map unat ([0] :: bytes))" by (simp add: need_of_def)
  then show ?thesis using Nil by (simp add: scalar_def del: map_append list.map) blast
next
  case (Cons a r)
  show ?thesis
  proof
    assume "scalar s = 0"
    then have z: "tail_ok (unat a) (map unat r)" "length r < need_of (unat a) - 1" "need_of (unat a) \<noteq> 0"
      by (auto simp: Cons scalar_need Let_def split: if_splits)
    from tail_extend [OF z(1) _ z(3), of "need_of (unat a) - 1"] z(2) obtain t where
      t: "t \<noteq> []" "length (map unat r @ t) = need_of (unat a) - 1" "tail_ok (unat a) (map unat r @ t)"
        "list_all (\<lambda>x. x < 256) t"
      by auto
    then have "whole (map unat (s @ map of_nat t))"
      using z(3) map_unat_of_nat [OF t(4)] by (simp add: Cons)
    with t(1) show "\<exists>t. t \<noteq> [] \<and> whole (map unat (s @ t))" by (intro exI [of _ "map of_nat t"]) auto
  next
    assume "\<exists>t. t \<noteq> [] \<and> whole (map unat (s @ t))"
    then show "scalar s = 0"
      by (auto simp: Cons scalar_need Let_def dest: tail_ok_prefix)
  qed
qed

lemma scalar_range: "scalar s = - 1 \<or> scalar s = 0 \<or> (\<exists>k. 0 < k \<and> k \<le> 4 \<and> scalar s = int k)"
proof (cases s)
  case (Cons a t)
  have "need_of x \<le> 4" for x by (simp add: need_of_def)
  then show ?thesis by (auto simp: Cons scalar_need Let_def)
qed (simp add: scalar_def)

lemma code_bytes_whole:
  assumes "scalar_value c"
  shows "whole (code_bytes c) \<and> list_all (\<lambda>x. x < 256) (code_bytes c)"
proof -
  consider "c < 0x80" | "0x80 \<le> c" "c < 0x800" | "0x800 \<le> c" "c < 0x10000" | "0x10000 \<le> c" "c < 0x110000"
    using assms by (fastforce simp: scalar_value_def)
  then show ?thesis
  proof cases
    case 1
    then show ?thesis by (simp add: code_bytes_def need_of_def)
  next
    case 2
    then have "2 \<le> c div 64" "c div 64 < 32" by auto
    with 2 show ?thesis by (auto simp: code_bytes_def need_of_def good2_def)
  next
    case 3
    then have d: "c div 4096 < 16" "c div 64 mod 64 < 64" "c mod 64 < 64" by auto
    have "c = c div 64 * 64 + c mod 64" "c div 64 = c div 4096 * 64 + c div 64 mod 64"
      by (simp_all add: div_mult2_eq [of c 64 64, simplified])
    with 3 assms d have "good2 (0xe0 + c div 4096) (0x80 + c div 64 mod 64)"
      unfolding good2_def scalar_value_def by linarith
    with 3 d show ?thesis
      by (simp add: code_bytes_def need_of_def cont_def) (intro conjI; rule less_trans [OF mod_less_divisor]; simp)
  next
    case 4
    then have d: "c div 262144 < 5" "c div 4096 mod 64 < 64" "c div 64 mod 64 < 64" "c mod 64 < 64" by auto
    have "c = c div 4096 * 4096 + c mod 4096" "c div 4096 = c div 262144 * 64 + c div 4096 mod 64" "c mod 4096 < 4096"
      by (simp_all add: div_mult2_eq [of c 4096 64, simplified])
    with 4 d have "good2 (0xf0 + c div 262144) (0x80 + c div 4096 mod 64)"
      unfolding good2_def by linarith
    with 4 d show ?thesis
      by (simp add: code_bytes_def need_of_def cont_def) (intro conjI; rule less_trans [OF mod_less_divisor]; simp)
  qed
qed

lemma list_2: "length t = 1 \<Longrightarrow> \<exists>b. t = [b]" and list_3: "length t = 2 \<Longrightarrow> \<exists>b c. t = [b, c]"
    and list_4: "length t = 3 \<Longrightarrow> \<exists>b c d. t = [b, c, d]"
  by (auto simp: length_Suc_conv numeral_eq_Suc)

lemma whole_code_bytes:
  assumes "whole v"
  shows "\<exists>c. scalar_value c \<and> v = code_bytes c"
proof -
  obtain a t where v: "v = a # t" "need_of a = length t + 1" "tail_ok a t" using assms by (cases v) auto
  consider "a < 0x80" "t = []" | b where "0xc2 \<le> a" "a < 0xe0" "t = [b]"
    | b c where "0xe0 \<le> a" "a < 0xf0" "t = [b, c]" | b c d where "0xf0 \<le> a" "a < 0xf5" "t = [b, c, d]"
    using v(2) list_2 [of t] list_3 [of t] list_4 [of t] by (fastforce simp: need_of_def split: if_splits)
  then show ?thesis
  proof cases
    case 1
    then show ?thesis using v by (intro exI [of _ a]) (simp add: scalar_value_def code_bytes_def)
  next
    case 2
    define p where "p = a - 0xc0" define q where "q = b - 0x80"
    have p: "a = 0xc0 + p" "2 \<le> p" "p < 32" and q: "b = 0x80 + q" "q < 64"
      using 2 v(3) by (auto simp: p_def q_def good2_def)
    then show ?thesis using v 2
      by (intro exI [of _ "p * 64 + q"]) (simp add: scalar_value_def code_bytes_def)
  next
    case 3
    define p where "p = a - 0xe0" define q where "q = b - 0x80" define r where "r = c - 0x80"
    have p: "a = 0xe0 + p" "p < 16" and q: "b = 0x80 + q" "q < 64" and r: "c = 0x80 + r" "r < 64"
      and g: "p = 0 \<longrightarrow> 32 \<le> q" "p = 13 \<longrightarrow> q < 32"
      using 3 v(3) by (auto simp: p_def q_def r_def good2_def cont_def)
    define x where "x = (p * 64 + q) * 64 + r"
    have "x div 64 = p * 64 + q" "x mod 64 = r" using r unfolding x_def by (simp_all only: mod_mult_self3 mod_less div_mult_self3 div_less add_0_right)
    moreover from this have "x div 4096 = p" "x div 64 mod 64 = q"
      using q by (simp_all add: div_mult2_eq [of x 64 64, simplified])
    moreover have "0x800 \<le> x" "x < 0x10000"
      using p q r g by (simp_all add: x_def) linarith+
    moreover have "x < 0xd800 \<or> 0xe000 \<le> x"
      using p q r g unfolding x_def by (cases "p \<le> 12"; cases "p = 13") auto
    then have "scalar_value x" using calculation by (auto simp: scalar_value_def)
    ultimately show ?thesis using v 3 p q r by (intro exI [of _ x]) (simp add: code_bytes_def)
  next
    case 4
    define p where "p = a - 0xf0" define q where "q = b - 0x80" define r where "r = c - 0x80"
    define u where "u = d - 0x80"
    have p: "a = 0xf0 + p" "p < 5" and q: "b = 0x80 + q" "q < 64" and r: "c = 0x80 + r" "r < 64"
      and u: "d = 0x80 + u" "u < 64" and g: "p = 0 \<longrightarrow> 16 \<le> q" "p = 4 \<longrightarrow> q < 16"
      using 4 v(3) by (auto simp: p_def q_def r_def u_def good2_def cont_def)
    define y where "y = p * 64 + q"
    define x where "x = (y * 64 + r) * 64 + u"
    have y: "y div 64 = p" "y mod 64 = q"
      using q unfolding y_def by (simp_all only: mod_mult_self3 mod_less div_mult_self3 div_less add_0_right)
    have x: "x div 64 = y * 64 + r" "x mod 64 = u"
      using u unfolding x_def by (simp_all only: mod_mult_self3 mod_less div_mult_self3 div_less add_0_right)
    then have x2: "x div 4096 = y" "x div 64 mod 64 = r"
      using r by (simp_all add: div_mult2_eq [of x 64 64, simplified])
    then have "x div 262144 = p" "x div 4096 mod 64 = q"
      using y by (simp_all add: div_mult2_eq [of x 4096 64, simplified])
    note x x2(2) this
    moreover have "0x10000 \<le> x" "x < 0x110000" using p q r u g by (simp_all add: x_def y_def) linarith+
    ultimately show ?thesis using v 4 p q r u by (intro exI [of _ x]) (simp add: code_bytes_def scalar_value_def)
  qed
qed

lemma whole_iff: "whole (map unat s) \<longleftrightarrow> (\<exists>c. scalar_value c \<and> s = utf8_encode c)" for s :: bytes
proof
  assume "whole (map unat s)"
  from whole_code_bytes [OF this] obtain c where c: "scalar_value c" "map unat s = code_bytes c" by auto
  have "s = map of_nat (map unat s)" by (simp add: map_idI)
  with c show "\<exists>c. scalar_value c \<and> s = utf8_encode c" by (auto simp: utf8_encode_def)
next
  assume "\<exists>c. scalar_value c \<and> s = utf8_encode c"
  then show "whole (map unat s)"
    using code_bytes_whole by (auto simp: utf8_encode_def map_unat_of_nat simp del: list.map map_map)
qed

lemma scalar_encode_iff:
  "0 < k \<and> scalar s = int k \<longleftrightarrow> (\<exists>c r. scalar_value c \<and> s = utf8_encode c @ r \<and> k = length (utf8_encode c))"
  unfolding scalar_pos_iff whole_iff
  by (metis append_eq_conv_conj append_take_drop_id le_add1 length_append length_take min.absorb2)

section \<open>Sanitizing\<close>

text \<open>The output when the destination is large enough.\<close>

function clean :: "bytes \<Rightarrow> bytes" where
  "clean s = (if s = [] then [] else emit s @ clean (drop (advance s) s))"
  by pat_completeness auto

termination by (relation "measure length") (auto simp: advance_def)

declare clean.simps [simp del]

lemma clean_Nil [simp]: "clean [] = []"
  by (simp add: clean.simps)

lemma scalar_le: "scalar s > 0 \<Longrightarrow> nat (scalar s) \<le> length s \<and> nat (scalar s) \<le> 4"
  using scalar_range [of s] scalar_pos_iff [of "nat (scalar s)" s] by auto

lemma advance_le: "s \<noteq> [] \<Longrightarrow> 0 < advance s \<and> advance s \<le> length s"
  using scalar_le [of s] by (auto simp: advance_def Suc_le_eq)

lemma emit_length: "length (emit s) \<le> 3 * advance s"
  by (auto simp: emit_def advance_def replacement_def)

lemma replacement_encode: "replacement = utf8_encode 0xfffd"
  by (simp add: replacement_def utf8_encode_def code_bytes_def)

lemma emit_encode: "\<exists>c. scalar_value c \<and> emit s = utf8_encode c"
proof (cases "scalar s > 0")
  case True
  with scalar_pos_iff [of "nat (scalar s)" s] whole_iff [of "take (nat (scalar s)) s"] show ?thesis
    by (auto simp: emit_def)
next
  case False
  moreover have "scalar_value 0xfffd" by (simp add: scalar_value_def)
  ultimately show ?thesis unfolding emit_def replacement_encode by auto
qed

lemma sanitize_bounds:
  "sanitize_loop s room = (out, used) \<Longrightarrow> length out \<le> room \<and> used \<le> length s \<and> utf8 out"
proof (induction s room arbitrary: out used rule: sanitize_loop.induct)
  case (1 s room)
  show ?case
  proof (cases "s = [] \<or> length (emit s) > room")
    case True
    with 1(2) show ?thesis by (auto simp: sanitize_loop.simps [of s] utf8_Nil)
  next
    case False
    obtain o2 u2 where r: "sanitize_loop (drop (advance s) s) (room - length (emit s)) = (o2, u2)" by fastforce
    from 1(2) False r have "out = emit s @ o2" "used = advance s + u2"
      by (auto simp: sanitize_loop.simps [of s])
    moreover note 1(1) [OF False r] advance_le [of s] False emit_encode [of s]
    ultimately show ?thesis by (auto intro: utf8_Cons)
  qed
qed

lemma sanitize_clean: "3 * length s \<le> room \<Longrightarrow> sanitize_loop s room = (clean s, length s)"
proof (induction s room rule: sanitize_loop.induct)
  case (1 s room)
  show ?case
  proof (cases "s = []")
    case True
    then show ?thesis by (simp add: sanitize_loop.simps)
  next
    case False
    note a = advance_le [OF False] emit_length [of s]
    with 1(2) have room: "\<not> length (emit s) > room" by linarith
    have "3 * length (drop (advance s) s) \<le> room - length (emit s)" using a 1(2) by simp
    from 1(1) [OF _ this] False room a show ?thesis
      by (simp add: sanitize_loop.simps [of s] clean.simps [of s])
  qed
qed

lemma sanitize_valid: "utf8 s \<Longrightarrow> sanitize_loop s room = (out, used) \<Longrightarrow> out = take used s"
proof (induction s arbitrary: room out used rule: utf8.induct)
  case utf8_Nil
  then show ?case by (simp add: sanitize_loop.simps)
next
  case (utf8_Cons c s)
  let ?e = "utf8_encode c"
  have k: "scalar (?e @ s) = int (length ?e)" "0 < length ?e"
    using scalar_encode_iff [of "length ?e" "?e @ s"] utf8_Cons(1) by blast+
  then have e: "emit (?e @ s) = ?e" "advance (?e @ s) = length ?e" by (simp_all add: emit_def advance_def)
  show ?case
  proof (cases "length ?e > room")
    case True
    with utf8_Cons(4) e show ?thesis by (simp add: sanitize_loop.simps [of "?e @ s"])
  next
    case False
    obtain o2 u2 where r: "sanitize_loop s (room - length ?e) = (o2, u2)" by fastforce
    from utf8_Cons(3) [OF r] utf8_Cons(4) False e r k(2) show ?thesis
      by (auto simp: sanitize_loop.simps [of "?e @ s"])
  qed
qed

lemma clean_append:
  assumes "\<And>i k. i < length u \<Longrightarrow> 0 < k \<Longrightarrow> scalar (drop i u @ v) = int k \<Longrightarrow> i + k \<le> length u"
  shows "clean (u @ v) = clean u @ clean v"
  using assms
proof (induction "length u" arbitrary: u rule: less_induct)
  case less
  show ?case
  proof (cases "u = []")
    case False
    have same: "scalar u = int k \<longleftrightarrow> scalar (u @ v) = int k" if k: "0 < k" for k
    proof
      assume "scalar u = int k"
      then have "k \<le> length u" "whole (map unat (take k u))" using scalar_pos_iff [of k u] k by blast+
      then have "k \<le> length (u @ v)" "whole (map unat (take k (u @ v)))" by simp_all
      then show "scalar (u @ v) = int k" using scalar_pos_iff [of k "u @ v"] by blast
    next
      assume uv: "scalar (u @ v) = int k"
      then have le: "k \<le> length u" using less(2) [of 0 k] False k by simp
      from uv k have "whole (map unat (take k (u @ v)))" using scalar_pos_iff [of k "u @ v"] by blast
      with le have "whole (map unat (take k u))" by simp
      with le show "scalar u = int k" using scalar_pos_iff [of k u] by blast
    qed
    have pos: "scalar u > 0 \<Longrightarrow> scalar (u @ v) = scalar u" "scalar (u @ v) > 0 \<Longrightarrow> scalar u = scalar (u @ v)"
      using same [of "nat (scalar u)"] same [of "nat (scalar (u @ v))"] by simp_all
    have e: "emit (u @ v) = emit u \<and> advance (u @ v) = advance u"
    proof (cases "scalar u > 0")
      case True
      then show ?thesis
        using pos(1) scalar_le [of u] by (simp_all add: emit_def advance_def)
    next
      case no: False
      then have "\<not> scalar (u @ v) > 0" using pos(2) by auto
      with no show ?thesis by (simp_all add: emit_def advance_def)
    qed
    note e = e [THEN conjunct1] e [THEN conjunct2] advance_le [OF False]
    have "clean (drop (advance u) u @ v) = clean (drop (advance u) u) @ clean v"
    proof (rule less(1))
      fix i k assume i: "i < length (drop (advance u) u)" "0 < k" "scalar (drop i (drop (advance u) u) @ v) = int k"
      then have "i + advance u + k \<le> length u" using less(2) [of "i + advance u" k] by (simp add: add.commute)
      then show "i + k \<le> length (drop (advance u) u)" by simp
    qed (use e False in simp)
    moreover have "drop (advance u) (u @ v) = drop (advance u) u @ v" using e by simp
    ultimately show ?thesis using e(1,2) False by (simp add: clean.simps [of "u @ v"] clean.simps [of u])
  qed simp
qed

lemma complete_from_cases:
  "i \<le> complete_from s i k \<and> complete_from s i k \<le> i + k \<and>
   (complete_from s i k < i + k \<longrightarrow> scalar (drop (complete_from s i k) s) = 0) \<and>
   (\<forall>j. i \<le> j \<and> j < complete_from s i k \<longrightarrow> scalar (drop j s) \<noteq> 0)"
proof (induction k arbitrary: i)
  case (Suc k)
  show ?case
  proof (cases "scalar (drop i s) = 0")
    case False
    have "scalar (drop j s) \<noteq> 0" if "i \<le> j" "j < complete_from s (Suc i) k" for j
      using False Suc.IH [of "Suc i"] that by (cases "j = i") auto
    with False Suc.IH [of "Suc i"] show ?thesis by auto
  qed simp
qed simp

lemma prefix_cases:
  fixes s :: bytes
  defines "p \<equiv> JuiceUTF8CompletePrefix (Some s)"
  shows "p \<le> length s" "length s \<le> p + 3" "p < length s \<Longrightarrow> scalar (drop p s) = 0"
    "length s \<le> j + 3 \<Longrightarrow> j < p \<Longrightarrow> scalar (drop j s) \<noteq> 0"
proof -
  define b where "b = (if length s > 3 then length s - 3 else 0)"
  have p: "p = complete_from s b (length s - b)" and b: "b + (length s - b) = length s" "length s \<le> b + 3"
      "length s \<le> j + 3 \<Longrightarrow> b \<le> j" for j
    by (auto simp: p_def b_def JuiceUTF8CompletePrefix_def Let_def)
  note c = complete_from_cases [of b s "length s - b", folded p, unfolded b(1)]
  show "p \<le> length s" "length s \<le> p + 3" "p < length s \<Longrightarrow> scalar (drop p s) = 0"
    "length s \<le> j + 3 \<Longrightarrow> j < p \<Longrightarrow> scalar (drop j s) \<noteq> 0"
    using c b by auto
qed

lemma tail_cont: "tail_ok a t \<Longrightarrow> x \<in> set t \<Longrightarrow> cont x"
  by (cases t) (auto simp: good2_def cont_def list_all_iff)

lemma inner_byte:
  assumes "0 < k" "scalar s = int k" "0 < i" "i < k"
  shows "scalar (drop i s) = - 1"
proof -
  from assms(1,2) have k: "k \<le> length s" "whole (map unat (take k s))" using scalar_pos_iff [of k s] by auto
  then obtain a t where t: "take k s = a # t" "tail_ok (unat a) (map unat t)" by (cases "take k s") auto
  have "s ! i = take k s ! i" using assms(4) by simp
  also have "\<dots> = t ! (i - 1)" using t assms(3) by (simp add: nth_Cons')
  finally have "s ! i = t ! (i - 1)" .
  moreover have "i - 1 < length t" using t(1) k(1) assms by (metis One_nat_def Suc_pred length_Cons length_take less_Suc_eq_le min.absorb2 not_less_eq)
  ultimately have "cont (unat (s ! i))" using tail_cont [OF t(2)] by simp
  then have "need_of (unat (s ! i)) = 0" by (simp add: cont_def need_of_def)
  moreover have "drop i s = s ! i # drop (Suc i) s" using assms k(1) by (simp add: Cons_nth_drop_Suc)
  ultimately show ?thesis by (simp add: scalar_need)
qed

lemma no_crossing:
  assumes p: "p = JuiceUTF8CompletePrefix (Some s)" and i: "i < p" and k: "0 < k" "scalar (drop i (s @ t)) = int k"
  shows "i + k \<le> p"
proof (rule ccontr)
  assume cross: "\<not> i + k \<le> p"
  note c = prefix_cases [of s, folded p]
  have k4: "k \<le> 4" using scalar_le [of "drop i (s @ t)"] k by simp
  have kw: "whole (map unat (take k (drop i (s @ t))))" using scalar_pos_iff [of k "drop i (s @ t)"] k by auto
  show False
  proof (cases "i + k \<le> length s")
    case True
    with i cross c(3) have z: "scalar (drop p s) = 0" by simp
    have "take k (drop i (s @ t)) = take k (drop i s)" using True by simp
    with kw True have "scalar (drop i s) = int k" using scalar_pos_iff [of k "drop i s"] by auto
    from inner_byte [OF k(1) this, of "p - i"] i cross have "scalar (drop p s) = - 1" by simp
    with z show False by simp
  next
    case False
    have "take k (drop i (s @ t)) = drop i s @ take (k - (length s - i)) t" using False i c(1) by simp
    moreover have "take (k - (length s - i)) t \<noteq> []"
    proof
      assume "take (k - (length s - i)) t = []"
      moreover have "k \<le> length (drop i (s @ t))" using scalar_pos_iff [of k "drop i (s @ t)"] k by auto
      ultimately show False using False i c(1) by auto
    qed
    ultimately have "scalar (drop i s) = 0" unfolding scalar_zero_iff using kw by metis
    moreover have "length s \<le> i + 3" using False k4 by linarith
    ultimately show False using c(4) i by blast
  qed
qed

lemma clean_chunks:
  assumes "p = JuiceUTF8CompletePrefix (Some s)"
  shows "clean (s @ t) = clean (take p s) @ clean (drop p s @ t)"
proof -
  have p: "p \<le> length s" using prefix_cases(1) [of s] assms by simp
  have "clean (take p s @ (drop p s @ t)) = clean (take p s) @ clean (drop p s @ t)"
  proof (rule clean_append)
    fix i k assume i: "i < length (take p s)" "0 < k" "scalar (drop i (take p s) @ (drop p s @ t)) = int k"
    have "drop i (take p s) @ (drop p s @ t) = drop i (s @ t)"
      using i(1) p by (metis append.assoc append_take_drop_id drop_append length_take min.absorb2 less_imp_le_nat diff_is_0_eq drop0)
    with i no_crossing [OF assms, of i k t] p show "i + k \<le> length (take p s)" by simp
  qed
  then show ?thesis by (simp flip: append_assoc)
qed

section \<open>UTF-16\<close>

definition JuiceUTF16ChunkLength :: "bytes option \<Rightarrow> nat \<Rightarrow> nat \<Rightarrow> nat" where
  "JuiceUTF16ChunkLength data remaining limit =
     (case data of None \<Rightarrow> 0 | Some bs \<Rightarrow>
      if remaining = 0 \<or> odd remaining then 0
      else let len = (if remaining < limit then remaining else limit) div 2 * 2 in
      if len = 0 then 0
      else if len < remaining then
        let before = le16 bs (len - 2); after = le16 bs len in
        if 0xd800 \<le> before \<and> before \<le> 0xdbff \<and> 0xdc00 \<le> after \<and> after \<le> 0xdfff then len - 2 else len
      else len)"

text \<open>A cut at \<open>k\<close> separates the halves of a surrogate pair.\<close>

definition splits_pair :: "bytes \<Rightarrow> nat \<Rightarrow> bool" where
  "splits_pair bs k \<longleftrightarrow> 0 < k \<and> k < length bs \<and> unat (le16 bs (k - 2)) \<in> {0xd800..0xdbff} \<and> unat (le16 bs k) \<in> {0xdc00..0xdfff}"

lemma chunk_length_cases:
  fixes bs :: bytes and limit :: nat
  assumes "bs \<noteq> []" "even (length bs)"
  defines "len \<equiv> min (length bs) limit div 2 * 2"
  shows "JuiceUTF16ChunkLength (Some bs) (length bs) limit = (if splits_pair bs len then len - 2 else len)"
proof -
  have "(if length bs < limit then length bs else limit) = min (length bs) limit" by simp
  moreover have "\<not> (length bs = 0 \<or> odd (length bs))" using assms by simp
  ultimately show ?thesis
    unfolding JuiceUTF16ChunkLength_def option.case len_def splits_pair_def Let_def
    by (auto simp: word_le_unat)
qed

section \<open>Properties\<close>

text \<open>
  C27: The sanitizer is total and safe on every input: it writes at most the capacity, never
  claims more input than there is, always writes valid UTF-8 (a concatenation of encoded
  Unicode scalar values), copies valid UTF-8 unchanged, and consumes the whole input
  whenever the capacity is three times its length.
\<close>

theorem utf8_sanitize_sound:
  assumes "JuiceUTF8Sanitize (Some s) (length s) (Some ()) cap = (out, consumed)"
  shows "length out \<le> cap \<and> consumed \<le> length s \<and> utf8 out \<and> (utf8 s \<longrightarrow> out = take consumed s) \<and>
    (3 * length s \<le> cap \<longrightarrow> consumed = length s)"
  using sanitize_bounds [of s cap out consumed] sanitize_valid [of s cap out consumed]
    sanitize_clean [of s cap] assms
  by (auto simp: JuiceUTF8Sanitize_def)

theorem utf8_sanitize_sound_witness:
  "utf8 (fst (JuiceUTF8Sanitize (Some [0x41, 0xff, 0xc3, 0xa9]) 4 (Some ()) 12)) \<and>
   snd (JuiceUTF8Sanitize (Some [0x41, 0xff, 0xc3, 0xa9]) 4 (Some ()) 12) = 4"
proof -
  obtain out used where r: "JuiceUTF8Sanitize (Some [0x41, 0xff, 0xc3, 0xa9]) (length [0x41 :: u8, 0xff, 0xc3, 0xa9]) (Some ()) 12 = (out, used)"
    by fastforce
  from utf8_sanitize_sound [OF r] r show ?thesis by (simp add: numeral_eq_Suc)
qed

text \<open>
  C28: Reading in pieces changes nothing.  Cut a stream anywhere, sanitize the part before
  \<open>JuiceUTF8CompletePrefix\<close> and carry the rest, at most three bytes, over to the next piece:
  the concatenated output is that of sanitizing the whole stream at once.
\<close>

theorem utf8_stream_chunked:
  assumes "p = JuiceUTF8CompletePrefix (Some s)" "3 * length (s @ t) \<le> cap"
  shows "p \<le> length s \<and> length s \<le> p + 3 \<and>
    fst (JuiceUTF8Sanitize (Some (s @ t)) (length (s @ t)) (Some ()) cap) =
    fst (JuiceUTF8Sanitize (Some (take p s)) p (Some ()) cap) @
    fst (JuiceUTF8Sanitize (Some (drop p s @ t)) (length (drop p s @ t)) (Some ()) cap)"
proof -
  have p: "p \<le> length s" "length s \<le> p + 3" using prefix_cases(1,2) [of s] assms(1) by simp_all
  have room: "3 * length (take p s) \<le> cap" "3 * length (drop p s @ t) \<le> cap" using p(1) assms(2) by simp_all
  show ?thesis
    using clean_chunks [OF assms(1), of t] p sanitize_clean [OF assms(2)] sanitize_clean [OF room(1)] sanitize_clean [OF room(2)]
    by (simp add: JuiceUTF8Sanitize_def)
qed

theorem utf8_stream_chunked_witness:
  "fst (JuiceUTF8Sanitize (Some [0x41, 0xe2, 0x82, 0xac]) 4 (Some ()) 99) =
   fst (JuiceUTF8Sanitize (Some (take 1 [0x41, 0xe2])) 1 (Some ()) 99) @
   fst (JuiceUTF8Sanitize (Some (drop 1 [0x41, 0xe2] @ [0x82, 0xac])) 3 (Some ()) 99)"
proof -
  have "JuiceUTF8CompletePrefix (Some [0x41, 0xe2]) = 1" by code_simp
  then show ?thesis using utf8_stream_chunked [of 1 "[0x41, 0xe2]" "[0x82, 0xac]" 99] by (simp add: numeral_eq_Suc)
qed

text \<open>
  C40: A UTF-16 chunk is the longest even prefix within the limit that does not cut a
  surrogate pair in two, and with room for one pair it is never empty, so a sender that
  loops over the chunks makes progress.
\<close>

theorem utf16_chunk_maximal:
  assumes "bs \<noteq> []" "even (length bs)" "n = JuiceUTF16ChunkLength (Some bs) (length bs) limit"
  shows "even n \<and> n \<le> limit \<and> n \<le> length bs \<and> \<not> splits_pair bs n \<and>
    (\<forall>k. even k \<and> k \<le> limit \<and> k \<le> length bs \<and> \<not> splits_pair bs k \<longrightarrow> k \<le> n) \<and>
    (4 \<le> limit \<longrightarrow> 0 < n)"
proof -
  define len where "len = min (length bs) limit div 2 * 2"
  have n: "n = (if splits_pair bs len then len - 2 else len)"
    using chunk_length_cases [OF assms(1,2), of limit] by (simp add: assms(3) len_def)
  have "len \<le> min (length bs) limit" unfolding len_def by (rule div_times_less_eq_dividend)
  then have len: "even len" "len \<le> limit" "len \<le> length bs" by (simp_all add: len_def)
  have max: "k \<le> len" if k: "even k" "k \<le> limit" "k \<le> length bs" for k
  proof -
    have "k div 2 * 2 \<le> len" unfolding len_def using k by (intro mult_right_mono div_le_mono) simp_all
    with k(1) show ?thesis by simp
  qed
  have "2 \<le> length bs" using assms(1,2) by (cases bs; cases "tl bs") auto
  with max [of 2] have two: "2 \<le> len" if "4 \<le> limit" using that by simp
  have four: "4 \<le> len" if "4 \<le> limit" "splits_pair bs len"
  proof -
    have "2 < length bs" using that two unfolding splits_pair_def by linarith
    with assms(2) have "4 \<le> length bs" by presburger
    with max [of 4] that show ?thesis by simp
  qed
  show ?thesis
  proof (cases "splits_pair bs len")
    case True
    then have "0 < len" "unat (le16 bs (len - 2)) \<le> 0xdbff" by (simp_all add: splits_pair_def)
    then have "\<not> splits_pair bs (len - 2)" by (simp add: splits_pair_def)
    moreover have "k \<le> len - 2" if k: "even k" "k \<le> limit" "k \<le> length bs" "\<not> splits_pair bs k" for k
    proof -
      have "k \<noteq> len" using True k(4) by auto
      with max [OF k(1-3)] have "k < len" by simp
      with k(1) len(1) show ?thesis by presburger
    qed
    moreover have "even (len - 2)" "len - 2 \<le> limit" "len - 2 \<le> length bs" using len by simp_all
    moreover have "0 < len - 2" if "4 \<le> limit" using four [OF that True] by simp
    ultimately show ?thesis using True n by simp
  next
    case False
    moreover have "0 < len" if "4 \<le> limit" using two [OF that] by simp
    ultimately show ?thesis using n len max by simp
  qed
qed

definition sample_utf16 :: bytes where
  "sample_utf16 = [0x41, 0, 0x3d, 0xd8, 0, 0xde]"

theorem utf16_chunk_maximal_witness:
  "\<not> splits_pair sample_utf16 (JuiceUTF16ChunkLength (Some sample_utf16) (length sample_utf16) 4) \<and>
   0 < JuiceUTF16ChunkLength (Some sample_utf16) (length sample_utf16) 4"
proof -
  have "sample_utf16 \<noteq> []" "even (length sample_utf16)" by (simp_all add: sample_utf16_def)
  from utf16_chunk_maximal [OF this refl, of 4] show ?thesis by simp
qed

end
