(* ===== verification/Profile_Policy.thy ===== *)
theory Profile_Policy
  imports Main
begin

text \<open>
  The validator of Wine DLL overrides in \<^verbatim>\<open>app/JuiceProfilePolicy.c\<close>.  The index \<^verbatim>\<open>i\<close> into the text
  is the rest of the text from there.  The reference is a grammar by separators: clauses
  between semicolons, module names between commas, one equals sign, distinct orders.
\<close>

unbundle bit_operations_syntax

section \<open>The scanner\<close>

definition between :: "char \<Rightarrow> char \<Rightarrow> char \<Rightarrow> bool" where
  "between lo hi c \<longleftrightarrow> (of_char lo :: nat) \<le> of_char c \<and> (of_char c :: nat) \<le> of_char hi"

definition module_char :: "char \<Rightarrow> bool" where
  "module_char c \<longleftrightarrow> between (CHR ''a'') (CHR ''z'') c \<or> between (CHR ''A'') (CHR ''Z'') c \<or>
     between (CHR ''0'') (CHR ''9'') c \<or> c \<in> set ''_-.*''"

definition lower_char :: "char \<Rightarrow> bool" where
  "lower_char = between (CHR ''a'') (CHR ''z'')"

definition spaces :: "string \<Rightarrow> string" where
  "spaces s = dropWhile (\<lambda>c. c = CHR '' '') s"

lemma length_spaces: "length (spaces s) \<le> length s"
  unfolding spaces_def by (rule length_dropWhile_le)

lemma scan_shorter:
  assumes "c # t = spaces (dropWhile P (spaces s))"
  shows "length t < length s"
proof -
  have "length (c # t) \<le> length (dropWhile P (spaces s))" unfolding assms by (rule length_spaces)
  also have "\<dots> \<le> length (spaces s)" by (rule length_dropWhile_le)
  also have "\<dots> \<le> length s" by (rule length_spaces)
  finally show ?thesis by simp
qed

text \<open>The module names up to the equals sign: the rest of the text after it, or invalid.\<close>

function modules :: "string \<Rightarrow> string option" where
  "modules s =
     (let name = takeWhile module_char (spaces s); rest = spaces (dropWhile module_char (spaces s)) in
      if name = [] \<or> length name > 255 then None
      else case rest of
        [] \<Rightarrow> None
      | c # t \<Rightarrow> if c = CHR '','' then modules t else if c = CHR ''='' then Some t else None)"
  by pat_completeness auto

termination by (relation "measure length") (auto dest: scan_shorter)

definition order_bit :: "string \<Rightarrow> nat" where
  "order_bit w = (if w = ''n'' \<or> w = ''native'' then 1 else if w = ''b'' \<or> w = ''builtin'' then 2 else 0)"

definition at_end :: "string \<Rightarrow> bool" where
  "at_end s \<longleftrightarrow> s = [] \<or> hd s = CHR '';''"

text \<open>The load orders of a clause, after the equals sign: the rest from its end, or invalid.\<close>

function orders :: "nat \<Rightarrow> string \<Rightarrow> string option" where
  "orders seen s =
     (if at_end (spaces s) then Some (spaces s)
      else let bit = order_bit (takeWhile lower_char (spaces s)); rest = spaces (dropWhile lower_char (spaces s)) in
      if bit = 0 \<or> seen AND bit \<noteq> 0 then None
      else if at_end rest then Some rest
      else case rest of
        [] \<Rightarrow> None
      | c # t \<Rightarrow> if c \<noteq> CHR '','' \<or> at_end (spaces t) then None else orders (seen OR bit) (spaces t))"
  by pat_completeness auto

termination
  by (relation "measure (\<lambda>(_, s). length s)") (auto dest!: scan_shorter intro!: le_less_trans [OF length_spaces])

definition clause :: "string \<Rightarrow> string option" where
  "clause s = (case modules s of None \<Rightarrow> None | Some t \<Rightarrow> orders 0 t)"

declare modules.simps [simp del] orders.simps [simp del]

lemma modules_shorter: "modules s = Some t \<Longrightarrow> length t < length s"
proof (induction s rule: modules.induct)
  case (1 s)
  show ?case
    using 1(2) 1(1) [OF refl refl] unfolding modules.simps [of s] Let_def
    by (auto split: if_splits list.splits) (metis scan_shorter less_trans, metis scan_shorter)
qed

lemma orders_shorter: "orders seen s = Some t \<Longrightarrow> length t \<le> length s"
proof (induction seen s rule: orders.induct)
  case (1 seen s)
  have "length (spaces (dropWhile lower_char (spaces s))) \<le> length s"
    by (meson length_dropWhile_le length_spaces le_trans)
  moreover have "length (spaces t) \<le> length s" if "spaces (dropWhile lower_char (spaces s)) = c # t" for c t
    using scan_shorter [OF that [symmetric]] length_spaces [of t] by linarith
  ultimately show ?case
    using 1(2) 1(1) [OF _ refl refl] length_spaces [of s] unfolding orders.simps [of seen s] Let_def
    by (auto split: if_splits list.splits)
qed

lemma clause_shorter: "clause s = Some t \<Longrightarrow> length t < length s"
  using orders_shorter modules_shorter by (fastforce simp: clause_def split: option.splits)

function overrides :: "string \<Rightarrow> bool" where
  "overrides s =
     (if s = [] then True
      else case clause s of None \<Rightarrow> False
        | Some [] \<Rightarrow> True
        | Some (_ # v) \<Rightarrow> if v = [] then False else overrides v)"
  by pat_completeness auto

termination by (relation "measure length") (auto dest: clause_shorter)

declare overrides.simps [simp del]

definition JuiceDLLOverridesValid :: "string option \<Rightarrow> nat \<Rightarrow> bool" where
  "JuiceDLLOverridesValid s n =
     (if s = None \<and> n > 0 \<or> n > 4096 then False
      else if n = 0 then True
      else overrides (take n (case s of None \<Rightarrow> [] | Some s \<Rightarrow> s)))"

section \<open>The grammar\<close>

fun split_on :: "'a \<Rightarrow> 'a list \<Rightarrow> 'a list list" where
  "split_on c [] = [[]]"
| "split_on c (x # xs) =
     (if x = c then [] # split_on c xs else (x # hd (split_on c xs)) # tl (split_on c xs))"

definition trim :: "string \<Rightarrow> string" where
  "trim s = rev (spaces (rev (spaces s)))"

definition name_ok :: "string \<Rightarrow> bool" where
  "name_ok x \<longleftrightarrow> x \<noteq> [] \<and> length x \<le> 255 \<and> list_all module_char x"

definition orders_ok :: "string \<Rightarrow> bool" where
  "orders_ok r \<longleftrightarrow> trim r = [] \<or>
     (let bits = map (\<lambda>w. order_bit (trim w)) (split_on (CHR '','') r) in 0 \<notin> set bits \<and> distinct bits)"

definition clause_ok :: "string \<Rightarrow> bool" where
  "clause_ok c =
     (case split_on (CHR ''='') c of
        [l, r] \<Rightarrow> list_all (\<lambda>m. name_ok (trim m)) (split_on (CHR '','') l) \<and> orders_ok r
      | _ \<Rightarrow> False)"

definition overrides_grammar :: "string \<Rightarrow> bool" where
  "overrides_grammar s \<longleftrightarrow> length s \<le> 4096 \<and> (s = [] \<or> list_all clause_ok (split_on (CHR '';'') s))"

lemma split_on_none: "c \<notin> set l \<Longrightarrow> split_on c l = [l]"
  by (induction l) auto

lemma split_on_sep: "c \<notin> set l \<Longrightarrow> split_on c (l @ c # t) = l # split_on c t"
  by (induction l) auto

lemma split_on_cases:
  obtains "c \<notin> set s" "split_on c s = [s]"
  | l t where "s = l @ c # t" "c \<notin> set l" "split_on c s = l # split_on c t"
proof (cases "c \<in> set s")
  case True
  then obtain l t where "s = l @ c # t" "c \<notin> set l" by (meson split_list_first)
  with that(2) [of l t] split_on_sep [of c l t] show ?thesis by simp
qed (use that(1) split_on_none [of c s] in simp)

section \<open>Lexemes\<close>

definition blank :: "string \<Rightarrow> bool" where
  "blank s \<longleftrightarrow> list_all (\<lambda>c. c = CHR '' '') s"

lemma blank_simps [simp]: "blank []" "blank (a @ b) \<longleftrightarrow> blank a \<and> blank b" "blank (rev a) \<longleftrightarrow> blank a"
  by (auto simp: blank_def list_all_iff)

lemma spaces_blank: "blank a \<Longrightarrow> spaces (a @ s) = spaces s"
  by (induction a) (auto simp: spaces_def blank_def)

lemma spaces_stop: "s = [] \<or> hd s \<noteq> CHR '' '' \<Longrightarrow> spaces s = s"
  by (cases s) (auto simp: spaces_def)

lemma spaces_split: "\<exists>a. s = a @ spaces s \<and> blank a \<and> (spaces s = [] \<or> hd (spaces s) \<noteq> CHR '' '')"
proof -
  have "blank (takeWhile (\<lambda>c. c = CHR '' '') s)" by (auto simp: blank_def list_all_iff dest: set_takeWhileD)
  moreover have "spaces s = [] \<or> hd (spaces s) \<noteq> CHR '' ''" unfolding spaces_def using hd_dropWhile by blast
  ultimately show ?thesis unfolding spaces_def by (metis takeWhile_dropWhile_id)
qed

lemma trim_word:
  assumes "blank a" "blank b" "x = [] \<or> hd x \<noteq> CHR '' '' \<and> last x \<noteq> CHR '' ''"
  shows "trim (a @ x @ b) = x"
proof (cases "x = []")
  case True
  then show ?thesis using spaces_blank [of "a @ b" "[]"] assms by (simp add: trim_def) (simp add: spaces_def)
next
  case False
  with assms have "spaces (a @ x @ b) = x @ b" by (simp add: spaces_blank spaces_stop)
  moreover have "spaces (rev b @ rev x) = rev x"
    using assms False by (simp add: spaces_blank spaces_stop hd_rev)
  ultimately show ?thesis by (simp add: trim_def)
qed

lemma trim_split: "\<exists>a b. s = a @ trim s @ b \<and> blank a \<and> blank b \<and> (trim s = [] \<or> hd (trim s) \<noteq> CHR '' '')"
proof -
  obtain a where a: "s = a @ spaces s" "blank a" "spaces s = [] \<or> hd (spaces s) \<noteq> CHR '' ''" using spaces_split by blast
  obtain b where b: "rev (spaces s) = b @ spaces (rev (spaces s))" "blank b" using spaces_split by blast
  have "spaces s = trim s @ rev b" using b(1) unfolding trim_def by (metis rev_append rev_rev_ident)
  with a b(2) show ?thesis by (intro exI [of _ a] exI [of _ "rev b"]) (cases "trim s"; auto)
qed

lemma lex:
  assumes "\<not> P (CHR '' '')" "blank a" "blank b" "x \<noteq> []" "list_all P x" "t = [] \<or> \<not> P (hd t) \<and> hd t \<noteq> CHR '' ''"
  shows "takeWhile P (spaces (a @ x @ b @ t)) = x" "spaces (dropWhile P (spaces (a @ x @ b @ t))) = t"
proof -
  have "hd x \<noteq> CHR '' ''" using assms(1,4,5) by (cases x) auto
  then have s: "spaces (a @ x @ b @ t) = x @ b @ t" using assms(2,4) by (simp add: spaces_blank spaces_stop)
  have bt: "b @ t = [] \<or> \<not> P (hd (b @ t))" using assms(1,3,6) by (cases b) (auto simp: blank_def)
  have "\<forall>c \<in> set x. P c" using assms(5) by (simp add: list_all_iff)
  moreover have "takeWhile P (b @ t) = []" "dropWhile P (b @ t) = b @ t" using bt by (cases "b @ t"; auto)+
  ultimately show "takeWhile P (spaces (a @ x @ b @ t)) = x" "spaces (dropWhile P (spaces (a @ x @ b @ t))) = t"
    unfolding s using assms(3,6) by (auto simp: spaces_blank spaces_stop)
qed

lemma unlex:
  assumes "\<not> P (CHR '' '')" "takeWhile P (spaces s) \<noteq> []"
  shows "\<exists>m. s = m @ spaces (dropWhile P (spaces s)) \<and> trim m = takeWhile P (spaces s) \<and>
    (\<forall>c \<in> set m. P c \<or> c = CHR '' '')"
proof -
  let ?x = "takeWhile P (spaces s)"
  obtain a where a: "s = a @ spaces s" "blank a" using spaces_split by blast
  obtain b where b: "dropWhile P (spaces s) = b @ spaces (dropWhile P (spaces s))" "blank b" using spaces_split by blast
  have x: "\<forall>c \<in> set ?x. P c" by (auto dest: set_takeWhileD)
  with assms have "hd ?x \<noteq> CHR '' ''" "last ?x \<noteq> CHR '' ''" by (metis hd_in_set, metis last_in_set)
  then have "trim (a @ ?x @ b) = ?x" by (intro trim_word a(2) b(2) disjI2 conjI)
  moreover have "s = (a @ ?x @ b) @ spaces (dropWhile P (spaces s))"
    using a(1) b(1) takeWhile_dropWhile_id [of P "spaces s"] by (metis append.assoc)
  moreover have "\<forall>c \<in> set (a @ ?x @ b). P c \<or> c = CHR '' ''"
    using x a(2) b(2) by (auto simp: blank_def list_all_iff)
  ultimately show ?thesis by blast
qed

lemma separators [simp]:
  "\<not> module_char (CHR '' '')" "\<not> module_char (CHR '','')" "\<not> module_char (CHR ''='')" "\<not> module_char (CHR '';'')"
  "\<not> lower_char (CHR '' '')" "\<not> lower_char (CHR '','')" "\<not> lower_char (CHR ''='')" "\<not> lower_char (CHR '';'')"
  by (simp_all add: module_char_def lower_char_def between_def)

section \<open>Scanner and grammar\<close>

lemma modules_sound:
  "modules s = Some t \<Longrightarrow> \<exists>l. s = l @ CHR ''='' # t \<and> CHR ''='' \<notin> set l \<and> CHR '';'' \<notin> set l \<and>
     list_all (\<lambda>m. name_ok (trim m)) (split_on (CHR '','') l)"
proof (induction s rule: modules.induct)
  case (1 s)
  let ?x = "takeWhile module_char (spaces s)" and ?r = "spaces (dropWhile module_char (spaces s))"
  from 1(2) have x: "?x \<noteq> []" "length ?x \<le> 255" and r: "?r \<noteq> []"
    by (auto simp: modules.simps [of s] Let_def split: if_splits list.splits)
  obtain m where m: "s = m @ ?r" "trim m = ?x" "\<forall>c \<in> set m. module_char c \<or> c = CHR '' ''"
    using unlex [OF separators(1) x(1)] by blast
  have ok: "name_ok (trim m)" using x m(2) by (auto simp: name_ok_def list_all_iff dest: set_takeWhileD)
  have free: "CHR ''='' \<notin> set m" "CHR '';'' \<notin> set m" "CHR '','' \<notin> set m" using m(3) by auto
  obtain c u where cu: "?r = c # u" using r by (cases ?r) auto
  show ?case
  proof (cases "c = CHR '',''")
    case True
    with 1(2) cu x have "modules u = Some t" by (simp add: modules.simps [of s] Let_def)
    from 1(1) [OF refl refl _ cu True this] x obtain l where
      l: "u = l @ CHR ''='' # t" "CHR ''='' \<notin> set l" "CHR '';'' \<notin> set l" "list_all (\<lambda>m. name_ok (trim m)) (split_on (CHR '','') l)"
      by (metis not_less)
    from l m(1) cu True ok free show ?thesis
      by (intro exI [of _ "m @ CHR '','' # l"]) (simp add: split_on_sep)
  next
    case False
    with 1(2) cu x have "c = CHR ''=''" "u = t"
      by (auto simp: modules.simps [of s] Let_def split: if_splits)
    with m(1) cu ok free show ?thesis by (intro exI [of _ m]) (simp add: split_on_none)
  qed
qed

lemma name_lex:
  assumes "name_ok (trim m)" "t = [] \<or> \<not> module_char (hd t) \<and> hd t \<noteq> CHR '' ''"
  shows "takeWhile module_char (spaces (m @ t)) = trim m" "spaces (dropWhile module_char (spaces (m @ t))) = t"
proof -
  obtain a b where m: "m = a @ trim m @ b" "blank a" "blank b" using trim_split by blast
  have "trim m \<noteq> []" "list_all module_char (trim m)" using assms(1) by (auto simp: name_ok_def)
  from lex [OF separators(1) m(2,3) this assms(2)] m(1)
  show "takeWhile module_char (spaces (m @ t)) = trim m" "spaces (dropWhile module_char (spaces (m @ t))) = t"
    by (metis append.assoc)+
qed

lemma modules_complete:
  "list_all (\<lambda>m. name_ok (trim m)) (split_on (CHR '','') l) \<Longrightarrow> modules (l @ CHR ''='' # t) = Some t"
proof (induction "length l" arbitrary: l rule: less_induct)
  case less
  show ?case
  proof (cases rule: split_on_cases [of "CHR '',''" l])
    case 1
    with less(2) have ok: "name_ok (trim l)" by simp
    from name_lex [OF ok, of "CHR ''='' # t"] ok show ?thesis
      by (simp add: modules.simps [of "l @ _"] name_ok_def)
  next
    case (2 m u)
    with less(2) have ok: "name_ok (trim m)" "list_all (\<lambda>m. name_ok (trim m)) (split_on (CHR '','') u)" by simp_all
    from less(1) [OF _ ok(2)] 2(1) have "modules (u @ CHR ''='' # t) = Some t" by simp
    with name_lex [OF ok(1), of "CHR '','' # u @ CHR ''='' # t"] ok(1) 2(1) show ?thesis
      by (simp add: modules.simps [of "m @ _"] name_ok_def)
  qed
qed

lemma order_bit_word: "order_bit w \<noteq> 0 \<Longrightarrow> w \<noteq> [] \<and> list_all lower_char w"
  by (auto simp: order_bit_def lower_char_def between_def split: if_splits)

lemma order_bit_range: "order_bit w \<in> {0, 1, 2}"
  by (simp add: order_bit_def)

lemma bits_or:
  assumes "b \<in> {1, 2}" "c \<in> {1, 2 :: nat}"
  shows "(seen OR b) AND c = 0 \<longleftrightarrow> seen AND c = 0 \<and> b \<noteq> c"
proof -
  have "(seen OR b) AND c = (seen AND c) OR (b AND c)" by (simp add: bit_eq_iff bit_simps) blast
  moreover have "x OR y = 0 \<longleftrightarrow> x = 0 \<and> y = 0" for x y :: nat by (simp add: bit_eq_iff bit_simps) blast
  moreover have "b AND c = 0 \<longleftrightarrow> b \<noteq> c" using assms by auto
  ultimately show ?thesis by simp
qed

definition fresh_bits :: "nat \<Rightarrow> string \<Rightarrow> bool" where
  "fresh_bits seen r \<longleftrightarrow> (let bits = map (\<lambda>w. order_bit (trim w)) (split_on (CHR '','') r) in
     0 \<notin> set bits \<and> distinct bits \<and> (\<forall>b \<in> set bits. seen AND b = 0))"

lemma fresh_bits_one: "CHR '','' \<notin> set r \<Longrightarrow>
    fresh_bits seen r \<longleftrightarrow> order_bit (trim r) \<noteq> 0 \<and> seen AND order_bit (trim r) = 0"
  by (auto simp: fresh_bits_def split_on_none)

lemma fresh_bits_more:
  assumes "CHR '','' \<notin> set m"
  shows "fresh_bits seen (m @ CHR '','' # r) \<longleftrightarrow> order_bit (trim m) \<noteq> 0 \<and> seen AND order_bit (trim m) = 0 \<and>
    fresh_bits (seen OR order_bit (trim m)) r"
proof (cases "order_bit (trim m) = 0")
  case False
  then have b: "order_bit (trim m) \<in> {1, 2}" using order_bit_range [of "trim m"] by auto
  let ?bs = "map (\<lambda>w. order_bit (trim w)) (split_on (CHR '','') r)"
  have "0 \<notin> set ?bs \<Longrightarrow> \<forall>c \<in> set ?bs. c \<in> {1, 2}" using order_bit_range by fastforce
  then have "0 \<notin> set ?bs \<Longrightarrow>
      (\<forall>c \<in> set ?bs. (seen OR order_bit (trim m)) AND c = 0) \<longleftrightarrow> (\<forall>c \<in> set ?bs. seen AND c = 0) \<and> order_bit (trim m) \<notin> set ?bs"
    using bits_or [OF b] by blast
  with False show ?thesis unfolding fresh_bits_def Let_def split_on_sep [OF assms] by auto
qed (simp add: fresh_bits_def split_on_sep [OF assms])

lemma trim_lead: "blank a \<Longrightarrow> trim (a @ s) = trim s"
  by (simp add: trim_def spaces_blank)

lemma split_on_ne: "split_on c r \<noteq> []"
  by (cases r) auto

lemma split_on_lead:
  "c \<notin> set a \<Longrightarrow> split_on c (a @ r) = (a @ hd (split_on c r)) # tl (split_on c r)"
  by (induction a) (auto simp: split_on_ne)

lemma blank_free: "blank a \<Longrightarrow> c \<noteq> CHR '' '' \<Longrightarrow> c \<notin> set a"
  by (auto simp: blank_def list_all_iff)

lemma map_split_lead:
  assumes "c \<notin> set a" "\<And>x. f (a @ x) = f x"
  shows "map f (split_on c (a @ r)) = map f (split_on c r)"
proof (cases "split_on c r")
  case (Cons x xs)
  show ?thesis unfolding split_on_lead [OF assms(1)] Cons list.sel list.map assms(2) ..
qed (simp add: split_on_ne)

lemma fresh_bits_lead:
  assumes "blank a"
  shows "fresh_bits seen (a @ r) = fresh_bits seen r"
proof -
  have "map (\<lambda>w. order_bit (trim w)) (split_on (CHR '','') (a @ r)) = map (\<lambda>w. order_bit (trim w)) (split_on (CHR '','') r)"
    by (rule map_split_lead) (simp_all add: blank_free assms trim_lead)
  then show ?thesis unfolding fresh_bits_def by presburger
qed

lemma orders_sound:
  "orders seen s = Some t \<Longrightarrow> \<exists>r. s = r @ t \<and> at_end t \<and> CHR '';'' \<notin> set r \<and> CHR ''='' \<notin> set r \<and>
     (blank r \<or> fresh_bits seen r) \<and> (blank r \<longrightarrow> at_end (spaces s))"
proof (induction seen s rule: orders.induct)
  case (1 seen s)
  let ?w = "takeWhile lower_char (spaces s)" and ?r = "spaces (dropWhile lower_char (spaces s))"
  show ?case
  proof (cases "at_end (spaces s)")
    case True
    obtain a where a: "s = a @ spaces s" "blank a" using spaces_split by blast
    have "CHR '';'' \<notin> set a \<and> CHR ''='' \<notin> set a" using a(2) by (auto simp: blank_def list_all_iff)
    with True a 1(2) show ?thesis by (auto simp: orders.simps [of seen s])
  next
    case no: False
    with 1(2) have w: "order_bit ?w \<noteq> 0" "seen AND order_bit ?w = 0"
      by (auto simp: orders.simps [of seen s] Let_def split: if_splits)
    note ne = order_bit_word [OF w(1)]
    then have ne1: "?w \<noteq> []" by simp
    obtain m where m: "s = m @ ?r" "trim m = ?w" "\<forall>c \<in> set m. lower_char c \<or> c = CHR '' ''"
      using unlex [OF separators(5) ne1] by blast
    have free: "CHR ''='' \<notin> set m" "CHR '';'' \<notin> set m" "CHR '','' \<notin> set m" using m(3) by auto
    have nb: "\<not> blank m"
    proof
      assume "blank m"
      then have "trim m = []" using trim_word [of m "[]" "[]"] by simp
      with m(2) ne1 show False by simp
    qed
    show ?thesis
    proof (cases "at_end ?r")
      case True
      with 1(2) no w have "t = ?r" by (simp add: orders.simps [of seen s] Let_def)
      with True m free w nb show ?thesis by (intro exI [of _ m]) (simp add: fresh_bits_one)
    next
      case False
      then obtain c u where cu: "?r = c # u" by (cases ?r) (auto simp: at_end_def)
      from 1(2) no w False cu have c: "c = CHR '',''" "\<not> at_end (spaces u)"
          "orders (seen OR order_bit ?w) (spaces u) = Some t"
        by (auto simp: orders.simps [of seen s] Let_def split: if_splits)
      have cond: "\<not> (order_bit ?w = 0 \<or> seen AND order_bit ?w \<noteq> 0)" "\<not> (c \<noteq> CHR '','' \<or> at_end (spaces u))" using w c by auto
      from 1(1) [OF no refl refl cond(1) False cu cond(2) c(3)] obtain r where
        r: "spaces u = r @ t" "at_end t" "CHR '';'' \<notin> set r" "CHR ''='' \<notin> set r"
           "blank r \<or> fresh_bits (seen OR order_bit ?w) r" "blank r \<longrightarrow> at_end (spaces (spaces u))"
        by blast
      have ss: "spaces (spaces u) = spaces u" using spaces_split [of u] spaces_stop by blast
      obtain a where a: "u = a @ spaces u" "blank a" using spaces_split by blast
      have fr: "fresh_bits (seen OR order_bit ?w) r" "\<not> blank r" using r c(2) ss by auto
      have "fresh_bits (seen OR order_bit ?w) (a @ r)" using fresh_bits_lead [OF a(2)] fr(1) by blast
      then have "fresh_bits seen (m @ CHR '','' # a @ r)" using fresh_bits_more [OF free(3)] w m(2) by simp
      moreover have "s = (m @ CHR '','' # a @ r) @ t" using m(1) cu c(1) a(1) r(1) by simp
      moreover have "CHR '';'' \<notin> set a \<and> CHR ''='' \<notin> set a" using a(2) by (auto simp: blank_def list_all_iff)
      ultimately show ?thesis using r free nb by (intro exI [of _ "m @ CHR '','' # a @ r"]) auto
    qed
  qed
qed

lemma order_lex:
  assumes "order_bit (trim m) \<noteq> 0" "t = [] \<or> \<not> lower_char (hd t) \<and> hd t \<noteq> CHR '' ''"
  shows "takeWhile lower_char (spaces (m @ t)) = trim m" "spaces (dropWhile lower_char (spaces (m @ t))) = t"
    "\<not> at_end (spaces (m @ t))"
proof -
  obtain a b where m: "m = a @ trim m @ b" "blank a" "blank b" using trim_split by blast
  have w: "trim m \<noteq> []" "list_all lower_char (trim m)" using order_bit_word [OF assms(1)] by auto
  from lex [OF separators(5) m(2,3) w assms(2)] m(1)
  show x: "takeWhile lower_char (spaces (m @ t)) = trim m" and "spaces (dropWhile lower_char (spaces (m @ t))) = t"
    by (metis append.assoc)+
  from x w(1) show "\<not> at_end (spaces (m @ t))"
    by (cases "spaces (m @ t)") (auto simp: at_end_def split: if_splits)
qed

lemma at_end_stop: "at_end u \<Longrightarrow> u = [] \<or> \<not> lower_char (hd u) \<and> hd u \<noteq> CHR '' ''"
  by (auto simp: at_end_def)

lemma spaces_append_end: "\<not> at_end (spaces (r @ [])) \<Longrightarrow> \<not> at_end (spaces (r @ u))"
proof (induction r)
  case Nil
  then show ?case by (simp add: spaces_def at_end_def)
next
  case (Cons c r)
  have sp: "spaces ((c # r) @ w) = (if c = CHR '' '' then spaces (r @ w) else c # r @ w)" for w by (simp add: spaces_def)
  show ?case
    using Cons unfolding sp by (cases "c = CHR '' ''") (simp_all add: at_end_def)
qed

lemma fresh_not_end:
  assumes "fresh_bits seen r"
  shows "\<not> at_end (spaces (r @ u))"
proof (cases rule: split_on_cases [of "CHR '',''" r])
  case 1
  with assms have b: "order_bit (trim r) \<noteq> 0" by (simp add: fresh_bits_one)
  have "\<not> at_end (spaces (r @ []))" by (rule order_lex(3) [OF b]) simp
  moreover obtain a where a: "r = a @ spaces r" "blank a" using spaces_split by blast
  ultimately show ?thesis using spaces_append_end [of r u] by simp
next
  case (2 m v)
  with assms have b: "order_bit (trim m) \<noteq> 0" by (simp add: fresh_bits_more)
  have "\<not> at_end (spaces (m @ CHR '','' # v @ u))" by (rule order_lex(3) [OF b]) simp
  with 2(1) show ?thesis by simp
qed

lemma orders_complete:
  "fresh_bits seen r \<Longrightarrow> at_end u \<Longrightarrow> orders seen (r @ u) = Some u"
proof (induction "length r" arbitrary: r seen rule: less_induct)
  case less
  show ?case
  proof (cases rule: split_on_cases [of "CHR '',''" r])
    case 1
    with less(2) have b: "order_bit (trim r) \<noteq> 0" "seen AND order_bit (trim r) = 0" by (simp_all add: fresh_bits_one)
    note l = order_lex [OF b(1) at_end_stop [OF less(3)]]
    with b less(3) show ?thesis by (simp add: orders.simps [of seen "r @ u"])
  next
    case (2 m v)
    with less(2) have b: "order_bit (trim m) \<noteq> 0" "seen AND order_bit (trim m) = 0" "fresh_bits (seen OR order_bit (trim m)) v"
      by (simp_all add: fresh_bits_more)
    have "\<not> lower_char (hd (CHR '','' # v @ u)) \<and> hd (CHR '','' # v @ u) \<noteq> CHR '' ''" by simp
    note l = order_lex [OF b(1) disjI2 [OF this]]
    obtain a where a: "v @ u = a @ spaces (v @ u)" "blank a" using spaces_split by blast
    have "orders (seen OR order_bit (trim m)) (v @ u) = Some u" using less(1) [OF _ b(3) less(3)] 2(1) by simp
    moreover have ss: "spaces (spaces s) = spaces s" for s using spaces_split [of s] spaces_stop by blast
    then have "orders x (spaces s) = orders x s" for x s by (simp add: orders.simps [of x "spaces s"] orders.simps [of x s])
    ultimately have "orders (seen OR order_bit (trim m)) (spaces (v @ u)) = Some u" by simp
    with l b 2(1) fresh_not_end [OF b(3), of u] show ?thesis
      by (simp add: orders.simps [of seen "m @ _"] at_end_def)
  qed
qed

lemma blank_trim: "blank r \<longleftrightarrow> trim r = []"
proof
  assume "blank r"
  then show "trim r = []" using trim_word [of r "[]" "[]"] by simp
next
  assume "trim r = []"
  moreover obtain a b where "r = a @ trim r @ b" "blank a" "blank b" using trim_split by blast
  ultimately show "blank r" by (metis append_Nil blank_simps(2))
qed

lemma orders_ok_iff: "orders_ok r \<longleftrightarrow> blank r \<or> fresh_bits 0 r"
  by (auto simp: orders_ok_def fresh_bits_def blank_trim Let_def)

lemma clause_complete:
  assumes "clause_ok c" "at_end u"
  shows "clause (c @ u) = Some u"
proof -
  obtain l r where lr: "split_on (CHR ''='') c = [l, r]" "list_all (\<lambda>m. name_ok (trim m)) (split_on (CHR '','') l)" "orders_ok r"
    using assms(1) by (auto simp: clause_ok_def split: list.splits)
  have c: "c = l @ CHR ''='' # r"
  proof (cases rule: split_on_cases [of "CHR ''=''" c])
    case (2 l' t)
    then have "l' = l" "split_on (CHR ''='') t = [r]" using lr(1) by simp_all
    moreover from this have "t = r"
      by (cases rule: split_on_cases [of "CHR ''=''" t]) (simp_all add: split_on_ne [symmetric])
    ultimately show ?thesis using 2(1) by simp
  qed (use lr(1) in simp)
  have "modules (c @ u) = Some (r @ u)" using modules_complete [OF lr(2), of "r @ u"] c by simp
  moreover have "orders 0 (r @ u) = Some u"
  proof (cases "blank r")
    case True
    have "spaces u = u" using assms(2) by (intro spaces_stop) (auto simp: at_end_def)
    with True assms(2) show ?thesis by (simp add: orders.simps [of 0 "r @ u"] spaces_blank)
  next
    case False
    with lr(3) assms(2) show ?thesis by (simp add: orders_ok_iff orders_complete)
  qed
  ultimately show ?thesis by (simp add: clause_def)
qed

lemma clause_sound:
  assumes "clause s = Some u"
  shows "\<exists>c. s = c @ u \<and> clause_ok c \<and> at_end u \<and> CHR '';'' \<notin> set c"
proof -
  obtain t where t: "modules s = Some t" "orders 0 t = Some u" using assms by (auto simp: clause_def split: option.splits)
  obtain l where l: "s = l @ CHR ''='' # t" "CHR ''='' \<notin> set l" "CHR '';'' \<notin> set l"
      "list_all (\<lambda>m. name_ok (trim m)) (split_on (CHR '','') l)"
    using modules_sound [OF t(1)] by blast
  obtain r where r: "t = r @ u" "at_end u" "CHR '';'' \<notin> set r" "CHR ''='' \<notin> set r" "blank r \<or> fresh_bits 0 r"
    using orders_sound [OF t(2)] by blast
  then have "clause_ok (l @ CHR ''='' # r)"
    using l by (simp add: clause_ok_def split_on_sep split_on_none orders_ok_iff)
  with l r show ?thesis by (intro exI [of _ "l @ CHR ''='' # r"]) auto
qed

lemma overrides_iff: "s \<noteq> [] \<Longrightarrow> overrides s \<longleftrightarrow> list_all clause_ok (split_on (CHR '';'') s)"
proof (induction "length s" arbitrary: s rule: less_induct)
  case less
  have empty: "\<not> clause_ok []" by (simp add: clause_ok_def)
  show ?case
  proof (cases rule: split_on_cases [of "CHR '';''" s])
    case 1
    have "clause s = Some [] \<longleftrightarrow> clause_ok s"
      using clause_complete [of s "[]"] clause_sound [of s "[]"] by (auto simp: at_end_def)
    moreover have "clause s = Some u \<Longrightarrow> u = []" for u
      using clause_sound [of s u] 1(1) by (cases u) (auto simp: at_end_def)
    ultimately show ?thesis using less(2) 1(2)
      by (auto simp: overrides.simps [of s] split: option.splits list.splits)
  next
    case (2 c v)
    have "clause s = Some u \<longleftrightarrow> clause_ok c \<and> u = CHR '';'' # v" for u
    proof
      assume "clause s = Some u"
      then obtain d where d: "s = d @ u" "clause_ok d" "at_end u" "CHR '';'' \<notin> set d" using clause_sound by blast
      have "u \<noteq> []" using d 2 by auto
      then obtain w where "u = CHR '';'' # w" using d(3) by (cases u) (auto simp: at_end_def)
      with d 2 show "clause_ok c \<and> u = CHR '';'' # v" by (auto simp: append_eq_append_conv2 append_eq_Cons_conv Cons_eq_append_conv)
    next
      assume "clause_ok c \<and> u = CHR '';'' # v"
      then show "clause s = Some u" using clause_complete [of c u] 2(1) by (simp add: at_end_def)
    qed
    then have cl: "clause s = (if clause_ok c then Some (CHR '';'' # v) else None)"
      by (cases "clause s") auto
    have "overrides s \<longleftrightarrow> clause_ok c \<and> v \<noteq> [] \<and> overrides v"
      using less(2) cl by (simp add: overrides.simps [of s])
    moreover have "v \<noteq> [] \<Longrightarrow> overrides v \<longleftrightarrow> list_all clause_ok (split_on (CHR '';'') v)"
      using less(1) [of v] 2(1) by simp
    moreover have "v = [] \<Longrightarrow> \<not> list_all clause_ok (split_on (CHR '';'') v)" using empty by simp
    ultimately show ?thesis using 2(3) by (cases "v = []") simp_all
  qed
qed

section \<open>Properties\<close>

text \<open>
  C29: The index-based scanner accepts exactly the override grammar: at most 4096 characters
  that are empty or a list of clauses between semicolons, each with one equals sign, module
  names of 1 to 255 characters between commas on its left, and on its right nothing or
  distinct orders (n, native, b or builtin, a long and a short spelling counting as the same
  order) between commas, with spaces allowed around every word.
\<close>

theorem overrides_valid_grammar:
  "JuiceDLLOverridesValid (Some s) (length s) \<longleftrightarrow> overrides_grammar s"
  using overrides_iff [of s] by (auto simp: JuiceDLLOverridesValid_def overrides_grammar_def)

end
