(* ===== verification/Pe_Inspect.thy ===== *)
theory Pe_Inspect
  imports Juice_Prelude "HOL-Library.Code_Target_Nat"
begin

text \<open>
  The structural preflight of Windows executables in \<^verbatim>\<open>app/JuicePEInspect.c\<close>.  The inspector takes
  a reader; the two readers are memory and a file descriptor, whose \<^verbatim>\<open>pread\<close> results are a script.
  The locale \<open>positioned_reader\<close> is the contract between them: a successful read gives the bytes
  of the file at that place.
\<close>

section \<open>Types\<close>

datatype pe_errno = ENOEXEC | EINVAL | Errno nat

record JuicePEInfo =
  machine :: u16
  subsystem :: u16
  sections :: u16
  entry_rva :: u32
  image_size :: u32
  pe32_plus :: bool
  is_dll :: bool
  managed :: bool

definition zero_info :: JuicePEInfo where
  "zero_info = \<lparr>machine = 0, subsystem = 0, sections = 0, entry_rva = 0, image_size = 0,
     pe32_plus = False, is_dll = False, managed = False\<rparr>"

text \<open>
  A reader's result is an error or the bytes, with the rest of its script; \<open>None\<close> has not
  returned.  An inspection returns its error, if any, and what it left in the output.
\<close>

type_synonym 'st reader = "u64 \<Rightarrow> nat \<Rightarrow> 'st \<Rightarrow> ((pe_errno + bytes) \<times> 'st) option"
type_synonym 'st inspection = "((pe_errno option \<times> JuicePEInfo) \<times> 'st) option"

section \<open>The inspector\<close>

definition range_ok :: "u64 \<Rightarrow> u64 \<Rightarrow> u64 \<Rightarrow> bool" where
  "range_ok offset count flen \<longleftrightarrow> offset \<le> flen \<and> count \<le> flen - offset"

definition invalid :: "'st \<Rightarrow> 'st inspection" where
  "invalid st = Some ((Some ENOEXEC, zero_info), st)"

definition with_read :: "'st reader \<Rightarrow> u64 \<Rightarrow> nat \<Rightarrow> (bytes \<Rightarrow> 'st \<Rightarrow> 'st inspection) \<Rightarrow> 'st \<Rightarrow> 'st inspection" where
  "with_read read_at offset count k st =
     (case read_at offset count st of
        None \<Rightarrow> None
      | Some (Inl e, st') \<Rightarrow> Some ((Some e, zero_info), st')
      | Some (Inr bs, st') \<Rightarrow> k bs st')"

definition inspect_optional :: "u64 \<Rightarrow> u16 \<Rightarrow> u16 \<Rightarrow> u16 \<Rightarrow> u16 \<Rightarrow> u64 \<Rightarrow> bytes \<Rightarrow> 'st \<Rightarrow> 'st inspection" where
  "inspect_optional flen mach sects opt_size flags table got st =
     (let opt = got @ replicate (240 - length got) 0; magic = le16 opt 0 in
      if magic \<noteq> 0x10b \<and> magic \<noteq> 0x20b then invalid st
      else let plus = (magic = 0x20b); directory_offset = (if plus then 112 else 96) :: u32 in
      if ucast opt_size < directory_offset then invalid st
      else if mach = 0x14c \<and> plus \<or>
              (mach = 0x8664 \<or> mach = 0xaa64 \<or> mach = 0xa641 \<or> mach = 0xa64e) \<and> \<not> plus then invalid st
      else let headers = le32 opt 60; image = le32 opt 56 in
      if (ucast headers :: u64) < table + ucast sects * 40 \<or> ucast headers > flen \<or> image = 0 \<or> image < headers
      then invalid st
      else let directories = le32 opt (unat directory_offset - 4) in
      if directories > (ucast opt_size - directory_offset) div 8 then invalid st
      else let clr = unat directory_offset + 14 * 8;
               managed = (directories > 14 \<and> le32 opt clr \<noteq> 0 \<and> le32 opt (clr + 4) \<noteq> 0)
      in Some ((None, \<lparr>machine = mach, subsystem = le16 opt 68, sections = sects, entry_rva = le32 opt 16,
            image_size = image, pe32_plus = plus, is_dll = has_bits flags 0x2000, managed = managed\<rparr>), st))"

definition inspect_coff :: "'st reader \<Rightarrow> u64 \<Rightarrow> u64 \<Rightarrow> bytes \<Rightarrow> 'st \<Rightarrow> 'st inspection" where
  "inspect_coff read_at flen pe coff st =
     (if take 4 coff \<noteq> [0x50, 0x45, 0, 0] then invalid st
      else let mach = le16 coff 4; sects = le16 coff 6; opt_size = le16 coff 20; flags = le16 coff 22;
               optional = pe + 24; table = optional + ucast opt_size in
      if sects = 0 \<or> sects > 96 \<or> opt_size < 96 \<or> \<not> range_ok optional (ucast opt_size) flen \<or>
         \<not> range_ok table (ucast sects * 40) flen then invalid st
      else with_read read_at optional (min (unat opt_size) 240)
             (inspect_optional flen mach sects opt_size flags table) st)"

definition inspect :: "'st reader \<Rightarrow> u64 \<Rightarrow> 'st \<Rightarrow> 'st inspection" where
  "inspect read_at flen st =
     (if \<not> range_ok 0 64 flen then invalid st
      else with_read read_at 0 64 (\<lambda>dos st.
        if byte_at dos 0 \<noteq> 0x4d \<or> byte_at dos 1 \<noteq> 0x5a then invalid st
        else let pe = ucast (le32 dos 60) :: u64 in
        if pe < 64 \<or> \<not> range_ok pe 24 flen then invalid st
        else with_read read_at pe 24 (inspect_coff read_at flen pe) st) st)"

section \<open>The readers\<close>

definition memory_read :: "bytes \<Rightarrow> unit reader" where
  "memory_read data offset count st =
     (if \<not> range_ok offset (of_nat count) (of_nat (length data)) then Some (Inl ENOEXEC, st)
      else Some (Inr (sub_list (unat offset) count data), st))"

definition JuicePEInspectBytes :: "bytes option \<Rightarrow> nat \<Rightarrow> bool \<Rightarrow> (pe_errno option \<times> JuicePEInfo)" where
  "JuicePEInspectBytes bytes len info =
     (if bytes = None \<and> len > 0 \<or> \<not> info then (Some EINVAL, zero_info)
      else case inspect (memory_read (take len (case bytes of None \<Rightarrow> [] | Some bs \<Rightarrow> bs))) (of_nat len) () of
        None \<Rightarrow> (None, zero_info)
      | Some (r, _) \<Rightarrow> r)"

text \<open>Results of \<^verbatim>\<open>pread\<close>: some bytes (none at the end of the file), interrupted, or an error.\<close>

datatype pread = Pread nat | Pintr | Pfail nat

function fd_read :: "bytes \<Rightarrow> u64 \<Rightarrow> nat \<Rightarrow> pread list \<Rightarrow> ((pe_errno + bytes) \<times> pread list) option" where
  "fd_read data offset count os =
     (if count = 0 then Some (Inr [], os)
      else case os of
        [] \<Rightarrow> None
      | Pintr # os \<Rightarrow> fd_read data offset count os
      | Pfail e # os \<Rightarrow> Some (Inl (Errno e), os)
      | Pread k # os \<Rightarrow>
          (let got = sub_list (unat offset) (min k count) data in
           if got = [] then Some (Inl ENOEXEC, os)
           else case fd_read data (offset + of_nat (length got)) (count - length got) os of
               Some (Inr bs, os') \<Rightarrow> Some (Inr (got @ bs), os')
             | r \<Rightarrow> r))"
  by pat_completeness auto

termination by (relation "measure (\<lambda>(_, _, _, os). length os)") simp_all

declare fd_read.simps [simp del]

text \<open>\<open>stat\<close> is the result of \<^verbatim>\<open>fstat\<close>: an error, or whether the file is regular and its size.\<close>

definition JuicePEInspectFD :: "bytes \<Rightarrow> (nat + bool \<times> int) \<Rightarrow> pread list \<Rightarrow> bool \<Rightarrow> (pe_errno option \<times> JuicePEInfo) option" where
  "JuicePEInspectFD data stat os info =
     (if \<not> info then Some (Some EINVAL, zero_info)
      else case stat of
        Inl e \<Rightarrow> Some (Some (Errno e), zero_info)
      | Inr (regular, st_size) \<Rightarrow>
          if \<not> regular \<or> st_size < 0 then Some (Some EINVAL, zero_info)
          else map_option fst (inspect (fd_read data) (word_of_int st_size) os))"

definition JuicePEMachineName :: "u16 \<Rightarrow> string" where
  "JuicePEMachineName m = (if m = 0x14c then ''x86'' else if m = 0x8664 then ''x86_64'' else if m = 0xaa64 then ''ARM64''
     else if m = 0xa641 then ''ARM64EC'' else if m = 0xa64e then ''ARM64X'' else ''unknown'')"

section \<open>Reader contract\<close>

text \<open>Range checks at machine width are range checks.\<close>

lemma range_ok_iff: "range_ok offset count flen \<longleftrightarrow> unat offset + unat count \<le> unat flen"
proof
  assume r: "range_ok offset count flen"
  then have "unat (flen - offset) = unat flen - unat offset" by (simp add: range_ok_def unat_sub)
  with r show "unat offset + unat count \<le> unat flen" by (simp add: range_ok_def word_le_unat) linarith
next
  assume r: "unat offset + unat count \<le> unat flen"
  then have "offset \<le> flen" by (simp add: word_le_unat)
  with r show "range_ok offset count flen" by (simp add: range_ok_def word_le_unat unat_sub)
qed

lemma unat_of_nat_u64: "n < 2 ^ 64 \<Longrightarrow> unat (of_nat n :: u64) = n"
  by (simp add: unat_of_nat take_bit_nat_eq_self)

definition ideal_read :: "bytes \<Rightarrow> unit reader" where
  "ideal_read data offset count st = Some (Inr (sub_list (unat offset) count data), st)"

lemma optional_state:
  "inspect_optional flen mach sects opt_size flags table got st =
     Some (fst (the (inspect_optional flen mach sects opt_size flags table got ())), st)"
  unfolding inspect_optional_def invalid_def Let_def by simp

text \<open>\<open>fine n st\<close>: in state \<open>st\<close> the reader can still deliver \<open>n\<close> bytes.\<close>

locale positioned_reader =
  fixes read_at :: "'st reader" and content :: bytes and fine :: "nat \<Rightarrow> 'st \<Rightarrow> bool"
  assumes read_exact: "fine (n + count) st \<Longrightarrow> unat offset + count \<le> length content \<Longrightarrow>
      \<exists>st'. read_at offset count st = Some (Inr (sub_list (unat offset) count content), st') \<and> fine n st'"
    and fine_le: "fine n st \<Longrightarrow> m \<le> n \<Longrightarrow> fine m st"
    and fine_length: "fine n st \<Longrightarrow> length content < 2 ^ 64"
begin

lemma with_read_exact:
  assumes "fine (n + count) st" "unat offset + count \<le> length content"
  obtains st' where "fine n st'" "with_read read_at offset count k st = k (sub_list (unat offset) count content) st'"
  using read_exact [OF assms] by (auto simp: with_read_def)

lemma coff_exact:
  assumes "fine 240 st" "flen = of_nat (length content)"
  shows "\<exists>r st'. inspect_coff read_at flen pe coff st = Some (r, st') \<and>
    inspect_coff (ideal_read content) flen pe coff () = Some (r, ())"
proof (cases "take 4 coff \<noteq> [0x50, 0x45, 0, 0] \<or> le16 coff 6 = 0 \<or> le16 coff 6 > 96 \<or> le16 coff 20 < 96 \<or>
    \<not> range_ok (pe + 24) (ucast (le16 coff 20)) flen \<or> \<not> range_ok (pe + 24 + ucast (le16 coff 20)) (ucast (le16 coff 6) * 40) flen")
  case True
  then show ?thesis by (auto simp: inspect_coff_def invalid_def Let_def)
next
  case False
  let ?n = "min (unat (le16 coff 20)) 240"
  have "unat flen = length content" using assms fine_length by (simp add: unat_of_nat_u64)
  then have "unat (pe + 24) + unat (ucast (le16 coff 20) :: u64) \<le> length content" using False by (simp add: range_ok_iff)
  moreover have "unat (ucast (le16 coff 20) :: u64) = unat (le16 coff 20)" by (simp add: unat_ucast_up)
  ultimately have "unat (pe + 24) + ?n \<le> length content" by simp
  moreover have "fine (0 + ?n) st" using fine_le [OF assms(1)] by simp
  ultimately obtain st' where "with_read read_at (pe + 24) ?n k st = k (sub_list (unat (pe + 24)) ?n content) st'" for k
    using read_exact [of 0 ?n st "pe + 24"] by (auto simp: with_read_def)
  then show ?thesis
    using False optional_state [of flen "le16 coff 4" "le16 coff 6" "le16 coff 20" "le16 coff 22"
        "pe + 24 + ucast (le16 coff 20)" "sub_list (unat (pe + 24)) ?n content" st']
      optional_state [of flen "le16 coff 4" "le16 coff 6" "le16 coff 20" "le16 coff 22"
        "pe + 24 + ucast (le16 coff 20)" "sub_list (unat (pe + 24)) ?n content" "()"]
    by (auto simp: inspect_coff_def Let_def with_read_def ideal_read_def)
qed

lemma inspect_exact:
  assumes "fine 328 st" "flen = of_nat (length content)"
  shows "\<exists>r st'. inspect read_at flen st = Some (r, st') \<and> inspect (ideal_read content) flen () = Some (r, ())"
proof (cases "range_ok 0 64 flen")
  case False
  then show ?thesis by (simp add: inspect_def invalid_def)
next
  case True
  have len: "unat flen = length content" using assms fine_length by (simp add: unat_of_nat_u64)
  obtain st1 where r1: "read_at 0 64 st = Some (Inr (sub_list 0 64 content), st1)" "fine 264 st1"
    using read_exact [of 264 64 st 0] assms(1) True len by (auto simp: range_ok_iff)
  let ?pe = "ucast (le32 (sub_list 0 64 content) 60) :: u64"
  show ?thesis
  proof (cases "byte_at (sub_list 0 64 content) 0 \<noteq> 0x4d \<or> byte_at (sub_list 0 64 content) 1 \<noteq> 0x5a \<or> ?pe < 64 \<or> \<not> range_ok ?pe 24 flen")
    case bad: True
    with True r1 show ?thesis
      by (auto simp: inspect_def invalid_def with_read_def ideal_read_def Let_def)
  next
    case False
    with len obtain st2 where r2: "read_at ?pe 24 st1 = Some (Inr (sub_list (unat ?pe) 24 content), st2)" "fine 240 st2"
      using read_exact [of 240 24 st1 ?pe] r1(2) by (auto simp: range_ok_iff)
    from coff_exact [OF r2(2) assms(2), of ?pe "sub_list (unat ?pe) 24 content"] True False r1 r2 show ?thesis
      by (auto simp: inspect_def with_read_def ideal_read_def Let_def)
  qed
qed

end

interpretation mem: positioned_reader "memory_read f" f "\<lambda>n st. length f < 2 ^ 64" for f
proof
  fix offset :: u64 and count n :: nat and st :: unit
  assume a: "length f < 2 ^ 64" "unat offset + count \<le> length f"
  then have "range_ok offset (of_nat count) (of_nat (length f))" by (simp add: range_ok_iff unat_of_nat_u64)
  with a(1) show "\<exists>st'. memory_read f offset count st = Some (Inr (sub_list (unat offset) count f), st') \<and>
      length f < 2 ^ 64"
    by (simp add: memory_read_def)
qed simp_all

fun positive :: "pread \<Rightarrow> bool" where
  "positive (Pread k) = (0 < k)"
| "positive Pintr = True"
| "positive (Pfail e) = False"

fun transfers :: "pread list \<Rightarrow> nat" where
  "transfers [] = 0"
| "transfers (Pread k # os) = Suc (transfers os)"
| "transfers (o1 # os) = transfers os"

lemma fd_read_exact:
  assumes "list_all positive os" "n + count \<le> transfers os" "unat offset + count \<le> length data" "length data < 2 ^ 63"
  shows "\<exists>os'. fd_read data offset count os = Some (Inr (sub_list (unat offset) count data), os') \<and>
    list_all positive os' \<and> n \<le> transfers os'"
  using assms
proof (induction data offset count os rule: fd_read.induct)
  case (1 data offset count os)
  show ?case
  proof (cases "count = 0")
    case True
    with 1(3-) show ?thesis by (auto simp: fd_read.simps [of data offset 0])
  next
    case False
    note pos = False
    with 1(4) obtain o1 os1 where os: "os = o1 # os1" by (cases os) auto
    show ?thesis
    proof (cases o1)
      case Pintr
      with 1(2) [OF False] 1(3-) os False show ?thesis
        by (simp add: fd_read.simps [of data offset count "Pintr # os1"])
    next
      case (Pread k)
      let ?got = "sub_list (unat offset) (min k count) data"
      have k: "0 < k" using 1(3) os Pread by simp
      have g: "length ?got = min k count" "?got \<noteq> []" using 1(5) False k by (auto simp: sub_list_def)
      have off: "unat (offset + of_nat (length ?got)) = unat offset + min k count"
        using 1(5,6) g(1) by (subst unat_add_noov) (simp_all add: unat_of_nat_u64)
      have rest: "list_all positive os1" "n + (count - length ?got) \<le> transfers os1"
          "unat (offset + of_nat (length ?got)) + (count - length ?got) \<le> length data"
        using 1(3-5) os Pread k False off [unfolded g(1)] unfolding g(1) by simp_all
      from 1(1) [OF False os Pread refl g(2) rest 1(6)]
      obtain os' where os': "fd_read data (offset + of_nat (length ?got)) (count - length ?got) os1 =
          Some (Inr (sub_list (unat offset + min k count) (count - min k count) data), os')"
          "list_all positive os'" "n \<le> transfers os'"
        unfolding g(1) off [unfolded g(1)] by blast
      have "?got @ sub_list (unat offset + min k count) (count - min k count) data = sub_list (unat offset) count data"
        by (simp add: sub_list_append_sub_list)
      with os' os Pread False g show ?thesis by (simp add: fd_read.simps [of data offset count "Pread k # os1"] Let_def)
    next
      case Pfail
      with 1(3) os show ?thesis by simp
    qed
  qed
qed

interpretation fd: positioned_reader "fd_read f" f
  "\<lambda>n os. list_all positive os \<and> n \<le> transfers os \<and> length f < 2 ^ 63" for f
  by unfold_locales (use fd_read_exact in \<open>auto dest: order_trans\<close>)

section \<open>What an accepted file is\<close>

lemma le16_sub_list: "i + 2 \<le> n \<Longrightarrow> le16 (sub_list off n bs) i = le16 bs (off + i)"
  by (simp add: le16_def)

lemma le32_sub_list: "i + 4 \<le> n \<Longrightarrow> le32 (sub_list off n bs) i = le32 bs (off + i)"
  by (simp add: le32_def le16_def)

lemma le16_append: "i + 2 \<le> length a \<Longrightarrow> le16 (a @ b) i = le16 a i"
  by (simp add: le16_def byte_at_append)

lemma le32_append: "i + 4 \<le> length a \<Longrightarrow> le32 (a @ b) i = le32 a i"
  by (simp add: le32_def le16_def byte_at_append)

text \<open>The facts about the file that an inspection without error establishes.\<close>

definition sound_pe :: "bytes \<Rightarrow> JuicePEInfo \<Rightarrow> bool" where
  "sound_pe bs info \<longleftrightarrow>
     (let pe = unat (le32 bs 60); opt = pe + 24; opt_size = unat (le16 bs (pe + 20));
          table_end = opt + opt_size + 40 * unat (sections info); headers = unat (le32 bs (opt + 60)) in
      byte_at bs 0 = 0x4d \<and> byte_at bs 1 = 0x5a \<and> 64 \<le> pe \<and> sub_list pe 4 bs = [0x50, 0x45, 0, 0] \<and>
      machine info = le16 bs (pe + 4) \<and> sections info = le16 bs (pe + 6) \<and>
      1 \<le> unat (sections info) \<and> unat (sections info) \<le> 96 \<and> 96 \<le> opt_size \<and>
      table_end \<le> headers \<and> headers \<le> length bs \<and> headers \<le> unat (image_size info) \<and>
      (pe32_plus info \<longrightarrow> le16 bs opt = 0x20b) \<and> (\<not> pe32_plus info \<longrightarrow> le16 bs opt = 0x10b) \<and>
      (machine info = 0x14c \<longrightarrow> \<not> pe32_plus info) \<and>
      (machine info \<in> {0x8664, 0xaa64, 0xa641, 0xa64e} \<longrightarrow> pe32_plus info) \<and>
      entry_rva info = le32 bs (opt + 16) \<and> image_size info = le32 bs (opt + 56) \<and>
      subsystem info = le16 bs (opt + 68) \<and> is_dll info = has_bits (le16 bs (pe + 22)) 0x2000 \<and>
      (let dirs = opt + (if pe32_plus info then 112 else 96) in
        managed info \<longrightarrow> 14 < unat (le32 bs (dirs - 4)) \<and> le32 bs (dirs + 112) \<noteq> 0 \<and> le32 bs (dirs + 116) \<noteq> 0 \<and>
          dirs + 120 \<le> opt + opt_size))"

lemma directories_fit:
  fixes d off :: u32 and opt_size :: u16
  assumes "\<not> d > (ucast opt_size - off) div 8" "14 < d" "\<not> ucast opt_size < off"
  shows "unat off + 120 \<le> unat opt_size" "14 < unat d"
proof -
  have w: "unat (ucast opt_size :: u32) = unat opt_size" by (simp add: unat_ucast_up)
  have "unat (ucast opt_size - off) = unat opt_size - unat off"
    using assms(3) w by (subst unat_sub) (simp_all add: not_less)
  with assms(1) have "unat d \<le> (unat opt_size - unat off) div 8" by (simp add: word_less_unat not_less unat_div)
  then have "unat d * 8 \<le> unat opt_size - unat off" by (simp add: less_eq_div_iff_mult_less_eq)
  moreover show "14 < unat d" using assms(2) by (simp add: word_less_unat)
  moreover have "unat off \<le> unat opt_size" using assms(3) w by (simp add: word_less_unat not_less)
  ultimately show "unat off + 120 \<le> unat opt_size" by linarith
qed

lemma optional_sound:
  assumes r: "inspect_optional flen mach sects opt_size flags table got st = Some ((None, info), st')"
    and got: "length got = min (unat opt_size) 240" and size: "96 \<le> unat opt_size"
  shows "\<exists>off. off = (if le16 got 0 = 0x20b then 112 else 96) \<and> (le16 got 0 = 0x10b \<or> le16 got 0 = 0x20b) \<and>
     table + ucast sects * 40 \<le> (ucast (le32 got 60) :: u64) \<and> ucast (le32 got 60) \<le> flen \<and> le32 got 60 \<le> le32 got 56 \<and>
     off \<le> unat opt_size \<and> \<not> (mach = 0x14c \<and> off = 112) \<and> (mach \<in> {0x8664, 0xaa64, 0xa641, 0xa64e} \<longrightarrow> off = 112) \<and>
     (managed info \<longrightarrow> 14 < unat (le32 got (off - 4)) \<and> off + 120 \<le> unat opt_size \<and>
         le32 got (off + 112) \<noteq> 0 \<and> le32 got (off + 116) \<noteq> 0) \<and>
     info = \<lparr>machine = mach, subsystem = le16 got 68, sections = sects, entry_rva = le32 got 16, image_size = le32 got 56,
       pe32_plus = (le16 got 0 = 0x20b), is_dll = has_bits flags 0x2000, managed = managed info\<rparr>"
proof -
  let ?opt = "got @ replicate (240 - length got) 0"
  have w: "unat (ucast opt_size :: u32) = unat opt_size" by (simp add: unat_ucast_up)
  have a: "le16 ?opt i = le16 got i" "le32 ?opt i = le32 got i" if "i + 4 \<le> 96" for i
    using that got size by (simp_all add: le16_append le32_append)
  have d: "le32 ?opt (unat off + 112) = le32 got (unat off + 112)" "le32 ?opt (unat off + 116) = le32 got (unat off + 116)"
    if "unat off + 120 \<le> unat opt_size" "unat off \<le> 112" for off :: u32
    using that got by (simp_all add: le32_append)
  have e108: "le32 ?opt 108 = le32 got 108" if "112 \<le> unat opt_size" using that got by (simp add: le32_append)
  note f = a(1) [of 0, simplified] a(2) [of 60, simplified] a(2) [of 56, simplified] a(2) [of 16, simplified]
    a(1) [of 68, simplified] a(2) [of 92, simplified]
  define off :: u32 where "off = (if le16 got 0 = 0x20b then 112 else 96)"
  have lt: "ucast opt_size < off \<longleftrightarrow> unat opt_size < unat off" for off :: u32 by (simp add: word_less_unat w)
    from r have c: "le16 got 0 = 0x10b \<or> le16 got 0 = 0x20b" "\<not> ucast opt_size < off"
        "\<not> (mach = 0x14c \<and> off = 112 \<or> (mach = 0x8664 \<or> mach = 0xaa64 \<or> mach = 0xa641 \<or> mach = 0xa64e) \<and> off \<noteq> 112)"
        "\<not> ((ucast (le32 got 60) :: u64) < table + ucast sects * 40 \<or> ucast (le32 got 60) > flen \<or>
           le32 got 56 = 0 \<or> le32 got 56 < le32 got 60)"
        "\<not> le32 ?opt (unat off - 4) > (ucast opt_size - off) div 8"
        "info = \<lparr>machine = mach, subsystem = le16 got 68, sections = sects, entry_rva = le32 got 16,
            image_size = le32 got 56, pe32_plus = (le16 got 0 = 0x20b), is_dll = has_bits flags 0x2000,
            managed = (le32 ?opt (unat off - 4) > 14 \<and> le32 ?opt (unat off + 112) \<noteq> 0 \<and> le32 ?opt (unat off + 116) \<noteq> 0)\<rparr>"
      unfolding inspect_optional_def invalid_def Let_def f off_def by (auto split: if_splits)
    have o: "off = 112 \<longleftrightarrow> le16 got 0 = 0x20b" "unat off = (if le16 got 0 = 0x20b then 112 else 96)" "unat off \<le> 112"
      by (simp_all add: off_def)
    have dir: "le32 ?opt (unat off - 4) = le32 got (unat off - 4)"
      using c(2) e108 f(6) o by (auto simp: lt)
    have m: "managed info \<longrightarrow> 14 < unat (le32 got (unat off - 4)) \<and> unat off + 120 \<le> unat opt_size \<and>
        le32 got (unat off + 112) \<noteq> 0 \<and> le32 got (unat off + 116) \<noteq> 0"
      using c(2,5,6) directories_fit [of opt_size off "le32 got (unat off - 4)"] d [of off] o(3) by (auto simp: dir)
    show ?thesis
    proof (intro exI [of _ "unat off"] conjI)
      show "info = \<lparr>machine = mach, subsystem = le16 got 68, sections = sects, entry_rva = le32 got 16, image_size = le32 got 56,
          pe32_plus = (le16 got 0 = 0x20b), is_dll = has_bits flags 0x2000, managed = managed info\<rparr>"
        by (subst c(6)) (simp add: c(6))
      show "managed info \<longrightarrow> 14 < unat (le32 got (unat off - 4)) \<and> unat off + 120 \<le> unat opt_size \<and>
          le32 got (unat off + 112) \<noteq> 0 \<and> le32 got (unat off + 116) \<noteq> 0" by (rule m)
    qed (use c(1-4) o in \<open>auto simp: lt not_less\<close>)
qed

lemma optional_error: "inspect_optional flen mach sects opt_size flags table got st = Some ((Some e, info), st') \<Longrightarrow> info = zero_info"
  unfolding inspect_optional_def invalid_def Let_def by (auto split: if_splits)

lemma coff_error: "inspect_coff (ideal_read bs) flen pe coff st = Some ((Some e, info), st') \<Longrightarrow> info = zero_info"
  unfolding inspect_coff_def invalid_def Let_def with_read_def ideal_read_def
  by (auto split: if_splits dest: optional_error)

lemma inspect_error: "inspect (ideal_read bs) flen st = Some ((Some e, info), st') \<Longrightarrow> info = zero_info"
  unfolding inspect_def invalid_def Let_def with_read_def ideal_read_def [of _ 0] ideal_read_def [of _ "ucast _"]
  by (auto split: if_splits dest: coff_error)

lemma inspect_sound:
  assumes r: "inspect (ideal_read bs) (of_nat (length bs)) () = Some ((e, info), st)" and len: "length bs < 2 ^ 64"
  shows "(e \<noteq> None \<longrightarrow> info = zero_info) \<and> (e = None \<longrightarrow> sound_pe bs info)"
proof -
  let ?pe = "ucast (le32 bs 60) :: u64"
  have pe: "unat ?pe = unat (le32 bs 60)" "unat ?pe < 2 ^ 32"
    using unat_u32_lt [of "le32 bs 60"] by (simp_all add: unat_ucast_up)
  define coff where "coff = sub_list (unat ?pe) 24 bs"
  define osz where "osz = le16 bs (unat ?pe + 20)"
  define got where "got = sub_list (unat ?pe + 24) (min (unat osz) 240) bs"
  have flen: "unat (of_nat (length bs) :: u64) = length bs" using len by (simp add: unat_of_nat_u64)
  have p24: "unat (?pe + 24) = unat ?pe + 24" using pe(2) by (subst unat_add_noov) simp_all
  have u: "unat (ucast (w :: u16) :: u64) = unat w" "unat w < 65536" for w
    using unat_u16_lt [of w] by (simp_all add: unat_ucast_up)
  have tab: "unat (?pe + 24 + ucast osz) = unat ?pe + 24 + unat osz"
    using pe(2) u [of osz] by (subst unat_add_noov) (simp_all add: p24)
  have sec: "unat (ucast (w :: u16) * 40 :: u64) = unat w * 40" for w
    using u [of w] by (subst unat_mult_noov) simp_all
  show ?thesis
  proof (cases "e = None")
    case False
    with r show ?thesis using inspect_error [of bs "of_nat (length bs)" "()" _ info st] by (cases e) simp_all
  next
    case True
    with r have c: "range_ok 0 64 (of_nat (length bs))" "byte_at bs 0 = 0x4d" "byte_at bs 1 = 0x5a" "\<not> ?pe < 64"
        "range_ok ?pe 24 (of_nat (length bs))"
        "inspect_coff (ideal_read bs) (of_nat (length bs)) ?pe coff () = Some ((None, info), st)"
      unfolding inspect_def invalid_def Let_def with_read_def ideal_read_def [of _ 0] ideal_read_def [of _ "ucast _"]
      by (auto simp: le32_sub_list coff_def split: if_splits)
    have le: "le16 coff 4 = le16 bs (unat ?pe + 4)" "le16 coff 6 = le16 bs (unat ?pe + 6)" "le16 coff 20 = osz"
        "le16 coff 22 = le16 bs (unat ?pe + 22)"
      by (simp_all add: coff_def osz_def le16_sub_list)
    let ?s = "le16 bs (unat ?pe + 6)"
    from c(6) have k: "take 4 coff = [0x50, 0x45, 0, 0]" "\<not> (?s = 0 \<or> ?s > 96 \<or> osz < 96)"
        "range_ok (?pe + 24) (ucast osz) (of_nat (length bs))"
        "range_ok (?pe + 24 + ucast osz) (ucast ?s * 40) (of_nat (length bs))"
        "inspect_optional (of_nat (length bs)) (le16 bs (unat ?pe + 4)) ?s osz (le16 bs (unat ?pe + 22))
           (?pe + 24 + ucast osz) got () = Some ((None, info), st)"
      unfolding inspect_coff_def invalid_def Let_def le with_read_def ideal_read_def got_def p24
      by (auto split: if_splits)
    have room: "unat ?pe + 24 + unat osz \<le> length bs" using k(3) by (simp add: range_ok_iff flen p24 u)
    have got: "length got = min (unat osz) 240" using room by (simp add: got_def)
    have o96: "96 \<le> unat osz" using k(2) by (simp add: word_less_unat not_less)
    have g: "le16 got i = le16 bs (unat ?pe + 24 + i)" "le32 got i = le32 bs (unat ?pe + 24 + i)"
      if "i + 4 \<le> min (unat osz) 240" for i
      using that by (simp_all add: got_def le16_sub_list le32_sub_list)
    have g96: "le16 got i = le16 bs (unat ?pe + 24 + i)" "le32 got i = le32 bs (unat ?pe + 24 + i)" if "i + 4 \<le> 96" for i
      using that o96 g [of i] by simp_all
    from optional_sound [OF k(5) got o96] obtain off where
      o: "off = (if le16 got 0 = 0x20b then 112 else 96)" "le16 got 0 = 0x10b \<or> le16 got 0 = 0x20b"
        "?pe + 24 + ucast osz + ucast ?s * 40 \<le> (ucast (le32 got 60) :: u64)" "ucast (le32 got 60) \<le> (of_nat (length bs) :: u64)"
        "le32 got 60 \<le> le32 got 56" "off \<le> unat osz" "\<not> (le16 bs (unat ?pe + 4) = 0x14c \<and> off = 112)"
        "le16 bs (unat ?pe + 4) \<in> {0x8664, 0xaa64, 0xa641, 0xa64e} \<longrightarrow> off = 112"
        "managed info \<longrightarrow> 14 < unat (le32 got (off - 4)) \<and> off + 120 \<le> unat osz \<and>
           le32 got (off + 112) \<noteq> 0 \<and> le32 got (off + 116) \<noteq> 0"
      and info: "info = \<lparr>machine = le16 bs (unat ?pe + 4), subsystem = le16 got 68, sections = ?s, entry_rva = le32 got 16,
        image_size = le32 got 56, pe32_plus = (le16 got 0 = 0x20b), is_dll = has_bits (le16 bs (unat ?pe + 22)) 0x2000,
        managed = managed info\<rparr>"
      by blast
    have hdr: "unat (?pe + 24 + ucast osz + ucast ?s * 40) = unat ?pe + 24 + unat osz + unat ?s * 40"
      using pe(2) u [of osz] u [of ?s] by (subst unat_add_noov) (simp_all add: tab sec)
    have h: "unat (ucast (le32 got 60) :: u64) = unat (le32 got 60)" by (simp add: unat_ucast_up)
    have b1: "unat ?pe + 24 + unat osz + unat ?s * 40 \<le> unat (le32 got 60)"
      using o(3) unfolding word_le_unat h hdr .
    have b2: "unat (le32 got 60) \<le> length bs" "unat (le32 got 60) \<le> unat (le32 got 56)"
      using o(4,5) unfolding word_le_unat h flen by simp_all
    have off: "off \<le> 112" "96 \<le> off" using o(1) by simp_all
    have m: "managed info \<longrightarrow> 14 < unat (le32 bs (unat ?pe + 24 + off - 4)) \<and> off + 120 \<le> unat osz \<and>
        le32 bs (unat ?pe + 24 + off + 112) \<noteq> 0 \<and> le32 bs (unat ?pe + 24 + off + 116) \<noteq> 0"
    proof
      assume "managed info"
      with o(9) have x: "14 < unat (le32 got (off - 4))" "off + 120 \<le> unat osz" "le32 got (off + 112) \<noteq> 0" "le32 got (off + 116) \<noteq> 0"
        by blast+
      have le: "off - 4 + 4 \<le> min (unat osz) 240" "off + 112 + 4 \<le> min (unat osz) 240" "off + 116 + 4 \<le> min (unat osz) 240"
        using x(2) off by simp_all
      have "unat ?pe + 24 + (off - 4) = unat ?pe + 24 + off - 4" using off by simp
      with x g(2) [OF le(1)] g(2) [OF le(2)] g(2) [OF le(3)]
      show "14 < unat (le32 bs (unat ?pe + 24 + off - 4)) \<and> off + 120 \<le> unat osz \<and>
          le32 bs (unat ?pe + 24 + off + 112) \<noteq> 0 \<and> le32 bs (unat ?pe + 24 + off + 116) \<noteq> 0"
        by (simp add: ac_simps)
    qed
    have pe4: "sub_list (unat ?pe) 4 bs = [0x50, 0x45, 0, 0]" using k(1) by (simp add: coff_def sub_list_def min_def)
    have p64: "64 \<le> unat ?pe" using c(4) by (simp add: word_less_unat not_less)
    have ns: "1 \<le> unat ?s" "unat ?s \<le> 96" using k(2) by (simp_all add: word_less_unat not_less unat_gt_0 Suc_le_eq)
    have f: "machine info = le16 bs (unat ?pe + 4)" "sections info = ?s" "subsystem info = le16 bs (unat ?pe + 24 + 68)"
        "entry_rva info = le32 bs (unat ?pe + 24 + 16)" "image_size info = le32 bs (unat ?pe + 24 + 56)"
        "pe32_plus info = (le16 bs (unat ?pe + 24) = 0x20b)" "is_dll info = has_bits (le16 bs (unat ?pe + 22)) 0x2000"
      by (subst info, simp add: g96)+
    have mag: "le16 got 0 = le16 bs (unat ?pe + 24)" "le32 got 60 = le32 bs (unat ?pe + 24 + 60)" "le32 got 56 = le32 bs (unat ?pe + 24 + 56)"
      by (simp_all add: g96)
    have "sound_pe bs info"
      unfolding sound_pe_def Let_def pe(1) [symmetric]
      using c(2,3) pe4 p64 ns o96 b1 b2 m o(1,2,7,8) unfolding f mag osz_def
      by (cases "le16 bs (unat ?pe + 24) = 0x20b") (simp_all add: mult.commute)
    then show ?thesis using True by simp
  qed
qed

section \<open>Properties\<close>

lemma bytes_ideal:
  assumes "length bs < 2 ^ 64"
  shows "Some (JuicePEInspectBytes (Some bs) (length bs) True, ()) = inspect (ideal_read bs) (of_nat (length bs)) ()"
proof -
  obtain r st' where "inspect (memory_read bs) (of_nat (length bs)) () = Some (r, st')"
      "inspect (ideal_read bs) (of_nat (length bs)) () = Some (r, ())"
    using mem.inspect_exact [of bs "of_nat (length bs)" "()"] assms by blast
  then show ?thesis by (simp add: JuicePEInspectBytes_def)
qed

text \<open>
  C15: What an accepted executable is.  If the inspection of a buffer reports no error, the
  buffer has the DOS and PE signatures, between 1 and 96 sections whose table lies inside the
  declared headers, which lie inside the file and inside the image; the optional header's
  kind agrees with the machine; and every field of the result is the field of the file.  If
  it reports an error, the result is all zero.
\<close>

theorem pe_inspect_sound:
  assumes "length bs < 2 ^ 64" "JuicePEInspectBytes (Some bs) (length bs) True = (e, info)"
  shows "if e = None then sound_pe bs info else info = zero_info"
  using inspect_sound [of bs e info "()"] bytes_ideal [OF assms(1)] assms by simp

definition sample_pe :: bytes where
  "sample_pe = [0x4d, 0x5a] @ replicate 58 0 @ [64, 0, 0, 0] @ [0x50, 0x45, 0, 0, 0x64, 0xaa, 1, 0] @ replicate 12 0 @
     [112, 0, 0, 0x20] @ [0x0b, 2] @ replicate 54 0 @ [0, 16, 0, 0, 0, 1, 0, 0] @ replicate 48 0 @ replicate 56 0"

lemma sample_pe_length: "length sample_pe = 256"
  by (simp add: sample_pe_def)

lemma sample_pe_byte:
  "byte_at sample_pe i = (if i < 256 then
     (if i = 0 then 0x4d else if i = 1 then 0x5a else if i = 60 then 64 else if i = 64 then 0x50 else if i = 65 then 0x45
      else if i = 68 then 0x64 else if i = 69 then 0xaa else if i = 70 then 1 else if i = 84 then 112 else if i = 87 then 0x20
      else if i = 88 then 0x0b else if i = 89 then 2 else if i = 145 then 16 else if i = 149 then 1 else 0) else 0)"
  by (auto simp: byte_at_def sample_pe_def nth_append nth_Cons')

lemma sample_pe_fields:
  "le32 sample_pe 60 = 64" "le16 sample_pe 68 = 0xaa64" "le16 sample_pe 70 = 1" "le16 sample_pe 84 = 112" "le16 sample_pe 86 = 0x2000"
  "le16 sample_pe 88 = 0x20b" "le32 sample_pe 148 = 256" "le32 sample_pe 144 = 4096" "le32 sample_pe 196 = 0"
  by (simp_all add: le32_def le16_def sample_pe_byte)

lemma sample_pe_sig: "sub_list 64 4 sample_pe = [0x50, 0x45, 0, 0]"
  by (simp add: sub_list_def sample_pe_def)

lemma sample_pe_accepted: "fst (JuicePEInspectBytes (Some sample_pe) (length sample_pe) True) = None"
proof -
  have sig: "take 4 (sub_list 64 24 sample_pe) = [0x50, 0x45, 0, 0]"
    using sample_pe_sig by (simp add: sub_list_def min_def)
  have opt: "le16 (sub_list 88 112 sample_pe @ z) i = le16 sample_pe (88 + i)"
    "le32 (sub_list 88 112 sample_pe @ z) i = le32 sample_pe (88 + i)" if "i + 4 \<le> 112" for i z
    using that by (simp_all add: le16_append le32_append le16_sub_list le32_sub_list sample_pe_length)
  have "fst (fst (the (inspect (ideal_read sample_pe) 256 ()))) = None"
    by (simp add: inspect_def inspect_coff_def inspect_optional_def with_read_def ideal_read_def range_ok_def Let_def
        le32_sub_list le16_sub_list sample_pe_fields sample_pe_byte sig opt)
  then show ?thesis using bytes_ideal [of sample_pe] by (simp add: sample_pe_length) (metis fst_conv option.sel)
qed

theorem pe_inspect_sound_witness: "sound_pe sample_pe (snd (JuicePEInspectBytes (Some sample_pe) (length sample_pe) True))"
  using pe_inspect_sound [of sample_pe "fst (JuicePEInspectBytes (Some sample_pe) (length sample_pe) True)"
      "snd (JuicePEInspectBytes (Some sample_pe) (length sample_pe) True)"] sample_pe_accepted
  by (simp add: sample_pe_length)

text \<open>
  C20: Inspecting an open file gives the same answer as inspecting its bytes in memory, for
  any pattern of short reads and interruptions, and it does give an answer once at most 328
  of the reads have returned data (the inspector never needs more bytes than that, whatever
  the size of the file).
\<close>

theorem pe_inspect_fd_agrees:
  assumes "length bs < 2 ^ 63" "list_all positive os" "328 \<le> transfers os"
  shows "JuicePEInspectFD bs (Inr (True, int (length bs))) os True = Some (JuicePEInspectBytes (Some bs) (length bs) True)"
proof -
  obtain r st' where "inspect (fd_read bs) (of_nat (length bs)) os = Some (r, st')"
      "inspect (ideal_read bs) (of_nat (length bs)) () = Some (r, ())"
    using fd.inspect_exact [of os bs "of_nat (length bs)"] assms by auto
  moreover have "length bs < 2 ^ 64" using assms(1) by simp
  ultimately show ?thesis using bytes_ideal [of bs] by (simp add: JuicePEInspectFD_def)
qed

theorem pe_inspect_fd_agrees_witness:
  "JuicePEInspectFD sample_pe (Inr (True, 256)) (Pintr # replicate 328 (Pread 100)) True =
     Some (JuicePEInspectBytes (Some sample_pe) 256 True)"
proof -
  note l = sample_pe_length
  have t: "transfers (replicate n (Pread 100)) = n" for n by (induction n) simp_all
  have "list_all positive (Pintr # replicate 328 (Pread 100))" by (simp add: list_all_iff)
  from pe_inspect_fd_agrees [OF _ this, of sample_pe] show ?thesis by (simp only: l t transfers.simps) simp
qed

end
