(* ===== verification/Ios_Control.thy ===== *)
theory Ios_Control
  imports Byte_Stream Display_Wire
begin

text \<open>
  The file-import and host-action bridge: \<^verbatim>\<open>wine/dlls/wineios.drv/control.c\<close> on the Unix side and the
  exported wrappers of \<^verbatim>\<open>dllmain.c\<close>.  The static variables are a record; the kernel is three
  scripts (connect, write, receive) and the bytes the host has sent.  The two character-set
  converters of ntdll are parameters: \<open>to_wide bs n\<close> is \<^verbatim>\<open>ntdll_umbstowcs\<close> (\<open>None\<close> for a negative
  count) and \<open>to_utf8 ws n\<close> is \<^verbatim>\<open>ntdll_wcstoumbs\<close>.  Reading a C string past the end of the object
  that holds it has no defined result: \<open>None\<close>.
\<close>

section \<open>Constants and messages\<close>

definition JUICE_CONTROL_MAGIC :: u32 where "JUICE_CONTROL_MAGIC = 0x4a554354"
definition JUICE_CONTROL_VERSION :: u16 where "JUICE_CONTROL_VERSION = 1"
definition JUICE_CONTROL_PATH_MAX :: nat where "JUICE_CONTROL_PATH_MAX = 2048"
definition JUICE_CONTROL_DETAIL_MAX :: nat where "JUICE_CONTROL_DETAIL_MAX = 512"
definition JUICE_CONTROL_IMPORT_REQUEST :: u16 where "JUICE_CONTROL_IMPORT_REQUEST = 1"
definition JUICE_CONTROL_IMPORT_RESPONSE :: u16 where "JUICE_CONTROL_IMPORT_RESPONSE = 2"
definition JUICE_CONTROL_HOST_ACTION :: u16 where "JUICE_CONTROL_HOST_ACTION = 3"
definition JUICE_IOS_API_VERSION :: u32 where "JUICE_IOS_API_VERSION = 1"
definition JUICE_IOS_PATH_CHARS :: nat where "JUICE_IOS_PATH_CHARS = 1024"
definition JUICE_IOS_DETAIL_CHARS :: nat where "JUICE_IOS_DETAIL_CHARS = 256"
definition JUICE_IOS_STATUS_PENDING :: u32 where "JUICE_IOS_STATUS_PENDING = 1"
definition JUICE_IOS_STATUS_COMPLETE :: u32 where "JUICE_IOS_STATUS_COMPLETE = 2"
definition JUICE_IOS_STATUS_ERROR :: u32 where "JUICE_IOS_STATUS_ERROR = 4"

lemmas control_consts = JUICE_CONTROL_MAGIC_def JUICE_CONTROL_VERSION_def JUICE_CONTROL_PATH_MAX_def
  JUICE_CONTROL_DETAIL_MAX_def JUICE_CONTROL_IMPORT_REQUEST_def JUICE_CONTROL_IMPORT_RESPONSE_def
  JUICE_CONTROL_HOST_ACTION_def JUICE_IOS_API_VERSION_def JUICE_IOS_PATH_CHARS_def JUICE_IOS_DETAIL_CHARS_def
  JUICE_IOS_STATUS_PENDING_def JUICE_IOS_STATUS_COMPLETE_def JUICE_IOS_STATUS_ERROR_def

definition put16 :: "u16 \<Rightarrow> bytes" where
  "put16 w = [ucast w, ucast (drop_bit 8 w)]"

record control_message =
  c_magic :: u32
  c_version :: u16
  c_type :: u16
  c_size :: u32
  c_request_id :: u32
  c_status :: u32
  c_flags :: u32
  c_path :: bytes
  c_detail :: bytes

definition CONTROL_BYTES :: nat where
  "CONTROL_BYTES = 2584"

definition encode_control :: "control_message \<Rightarrow> bytes" where
  "encode_control m = put32 (c_magic m) @ put16 (c_version m) @ put16 (c_type m) @ put32 (c_size m) @
     put32 (c_request_id m) @ put32 (c_status m) @ put32 (c_flags m) @ c_path m @ c_detail m"

definition decode_control :: "bytes \<Rightarrow> control_message" where
  "decode_control bs = \<lparr>c_magic = le32 bs 0, c_version = le16 bs 4, c_type = le16 bs 6, c_size = le32 bs 8,
     c_request_id = le32 bs 12, c_status = le32 bs 16, c_flags = le32 bs 20,
     c_path = sub_list 24 2048 bs, c_detail = sub_list 2072 512 bs\<rparr>"

text \<open>A message as \<^verbatim>\<open>memset\<close> and the assignments of \<^verbatim>\<open>begin_file_import\<close> and \<^verbatim>\<open>host_action\<close> build it.\<close>

definition request_message :: "u16 \<Rightarrow> u32 \<Rightarrow> u32 \<Rightarrow> bytes \<Rightarrow> control_message" where
  "request_message type request_id flags path = \<lparr>c_magic = JUICE_CONTROL_MAGIC, c_version = JUICE_CONTROL_VERSION,
     c_type = type, c_size = of_nat CONTROL_BYTES, c_request_id = request_id, c_status = 1, c_flags = flags,
     c_path = path @ replicate (JUICE_CONTROL_PATH_MAX - length path) 0, c_detail = replicate JUICE_CONTROL_DETAIL_MAX 0\<rparr>"

definition valid_message :: "control_message \<Rightarrow> u16 \<Rightarrow> bool" where
  "valid_message m type \<longleftrightarrow> c_magic m = JUICE_CONTROL_MAGIC \<and> c_version m = JUICE_CONTROL_VERSION \<and>
     c_size m = of_nat CONTROL_BYTES \<and> c_type m = type"

section \<open>State\<close>

datatype NTSTATUS = STATUS_SUCCESS | STATUS_REVISION_MISMATCH | STATUS_DEVICE_BUSY | STATUS_DEVICE_NOT_CONNECTED

text \<open>\<open>open_fds\<close> counts the descriptors the bridge holds; \<open>sent\<close> lists what each connection carried.\<close>

record control =
  import_fd :: int
  import_request_id :: u32
  response :: bytes
  request_sequence :: u32
  getpid :: u32
  socket_env :: "string option"
  connects :: "nat option list"
  writes_script :: "io_result list"
  receives :: "io_result list"
  inbound :: bytes
  open_fds :: nat
  sent :: "bytes list"

definition close_import :: "control \<Rightarrow> control" where
  "close_import s = s\<lparr>import_fd := -1, import_request_id := 0, response := [],
     open_fds := (if import_fd s \<ge> 0 then open_fds s - 1 else open_fds s)\<rparr>"

text \<open>
  \<open>connects\<close>: a descriptor, or \<open>None\<close> when \<^verbatim>\<open>socket\<close> or \<^verbatim>\<open>connect\<close> failed (the latter closes the
  descriptor again).  An exhausted script is a failure.
\<close>

definition connect_control_socket :: "control \<Rightarrow> int \<times> control" where
  "connect_control_socket s =
     (case socket_env s of
        None \<Rightarrow> (-1, s)
      | Some path \<Rightarrow>
          if path = [] \<or> length path \<ge> 104 then (-1, s)
          else case connects s of
            [] \<Rightarrow> (-1, s)
          | None # cs \<Rightarrow> (-1, s\<lparr>connects := cs\<rparr>)
          | Some fd # cs \<Rightarrow> (int fd, s\<lparr>connects := cs, open_fds := open_fds s + 1\<rparr>))"

definition control_write :: "bytes \<Rightarrow> control \<Rightarrow> (bool \<times> control) option" where
  "control_write data s =
     (case write_all (writes_script s) data of
        (Blocked, _, _) \<Rightarrow> None
      | (Done, out, os) \<Rightarrow> Some (True, s\<lparr>writes_script := os, sent := sent s @ [out]\<rparr>)
      | (Failed _, out, os) \<Rightarrow> Some (False, s\<lparr>writes_script := os, sent := sent s @ [out]\<rparr>))"

section \<open>Text\<close>

text \<open>The C string at the front of an object's bytes.\<close>

definition c_string :: "bytes \<Rightarrow> bytes option" where
  "c_string bs = (if 0 \<in> set bs then Some (takeWhile (\<lambda>b. b \<noteq> 0) bs) else None)"

definition copy_utf8_to_wide :: "(bytes \<Rightarrow> nat \<Rightarrow> u16 list option) \<Rightarrow> nat \<Rightarrow> bytes \<Rightarrow> u16 list option" where
  "copy_utf8_to_wide to_wide capacity source =
     (case c_string source of
        None \<Rightarrow> None
      | Some text \<Rightarrow>
          if capacity = 0 then Some []
          else if text = [] then Some [0]
          else Some ((case to_wide text (capacity - 1) of None \<Rightarrow> [] | Some ws \<Rightarrow> ws) @ [0]))"

definition wide_string :: "u16 list \<Rightarrow> u16 list" where
  "wide_string ws = takeWhile (\<lambda>w. w \<noteq> 0) ws"

definition copy_wide_to_utf8 :: "(u16 list \<Rightarrow> nat \<Rightarrow> bytes option) \<Rightarrow> nat \<Rightarrow> u16 list \<Rightarrow> bytes" where
  "copy_wide_to_utf8 to_utf8 capacity source =
     (if capacity = 0 \<or> wide_string source = [] then []
      else case to_utf8 (wide_string source) (capacity - 1) of None \<Rightarrow> [] | Some bs \<Rightarrow> bs)"

definition ascii_bytes :: "string \<Rightarrow> bytes" where
  "ascii_bytes s = map of_char s @ [0]"

section \<open>Unix calls\<close>

record begin_params =
  bp_version :: u32
  bp_filters :: u32
  bp_request_id :: u32
  bp_status :: u32

definition next_request_id :: "control \<Rightarrow> u32 \<times> control" where
  "next_request_id s =
     (let n = request_sequence s + 1 in (push_bit 16 (getpid s) XOR n, s\<lparr>request_sequence := n\<rparr>))"

definition begin_file_import :: "begin_params \<Rightarrow> control \<Rightarrow> (NTSTATUS \<times> begin_params \<times> control) option" where
  "begin_file_import p s =
     (let p = p\<lparr>bp_status := JUICE_IOS_STATUS_ERROR, bp_request_id := 0\<rparr> in
      if bp_version p \<noteq> JUICE_IOS_API_VERSION then Some (STATUS_REVISION_MISMATCH, p, s)
      else if import_fd s \<ge> 0 then Some (STATUS_DEVICE_BUSY, p, s)
      else case connect_control_socket s of (fd, s) \<Rightarrow>
        let s = s\<lparr>import_fd := fd\<rparr> in
        if fd < 0 then Some (STATUS_DEVICE_NOT_CONNECTED, p, s)
        else case next_request_id s of (rid, s) \<Rightarrow>
          (case control_write (encode_control (request_message JUICE_CONTROL_IMPORT_REQUEST rid (bp_filters p) [])) s of
             None \<Rightarrow> None
           | Some (False, s) \<Rightarrow> Some (STATUS_DEVICE_NOT_CONNECTED, p, close_import s)
           | Some (True, s) \<Rightarrow>
               Some (STATUS_SUCCESS, p\<lparr>bp_request_id := rid, bp_status := JUICE_IOS_STATUS_PENDING\<rparr>,
                 s\<lparr>import_request_id := rid\<rparr>)))"

record poll_params =
  pp_version :: u32
  pp_request_id :: u32
  pp_status :: u32
  pp_path :: "u16 list"
  pp_detail :: "u16 list"

datatype recv_end = Recv_full | Recv_again | Recv_closed

text \<open>The receive loop: how it ended, the bytes of the response so far, and the rest of the scripts.\<close>

fun recv_loop :: "io_result list \<Rightarrow> bytes \<Rightarrow> bytes \<Rightarrow> (recv_end \<times> bytes \<times> bytes \<times> io_result list) option" where
  "recv_loop [] inb resp = (if length resp \<ge> CONTROL_BYTES then Some (Recv_full, resp, inb, []) else None)"
| "recv_loop (o1 # os) inb resp =
     (if length resp \<ge> CONTROL_BYTES then Some (Recv_full, resp, inb, o1 # os)
      else case o1 of
        Eintr \<Rightarrow> recv_loop os inb resp
      | Eagain \<Rightarrow> Some (Recv_again, resp, inb, os)
      | Efail \<Rightarrow> Some (Recv_closed, resp, inb, os)
      | Xfer n \<Rightarrow>
          (let got = take (min n (CONTROL_BYTES - length resp)) inb in
           if got = [] then Some (Recv_closed, resp, inb, os)
           else recv_loop os (drop (length got) inb) (resp @ got)))"

definition poll_fail :: "(bytes \<Rightarrow> nat \<Rightarrow> u16 list option) \<Rightarrow> string \<Rightarrow> poll_params \<Rightarrow> poll_params" where
  "poll_fail to_wide text p =
     p\<lparr>pp_detail := (case copy_utf8_to_wide to_wide JUICE_IOS_DETAIL_CHARS (ascii_bytes text) of None \<Rightarrow> [0] | Some ws \<Rightarrow> ws)\<rparr>"

definition poll_finish ::
  "(bytes \<Rightarrow> nat \<Rightarrow> u16 list option) \<Rightarrow> poll_params \<Rightarrow> recv_end \<Rightarrow> control \<Rightarrow> NTSTATUS \<times> poll_params option \<times> control" where
  "poll_finish to_wide p e s =
     (case e of
        Recv_again \<Rightarrow> (STATUS_SUCCESS, Some (p\<lparr>pp_status := JUICE_IOS_STATUS_PENDING\<rparr>), s)
      | Recv_closed \<Rightarrow>
          (STATUS_SUCCESS, Some (poll_fail to_wide ''The Juice host closed the control channel.'' p), close_import s)
      | Recv_full \<Rightarrow>
          let m = decode_control (response s) in
          if \<not> valid_message m JUICE_CONTROL_IMPORT_RESPONSE \<or> c_request_id m \<noteq> pp_request_id p then
            (STATUS_SUCCESS, Some (poll_fail to_wide ''Invalid response from the Juice host.'' p), close_import s)
          else
            (STATUS_SUCCESS,
             (case (copy_utf8_to_wide to_wide JUICE_IOS_PATH_CHARS (c_path m @ c_detail m),
                    copy_utf8_to_wide to_wide JUICE_IOS_DETAIL_CHARS (c_detail m)) of
                (Some path, Some detail) \<Rightarrow> Some (p\<lparr>pp_status := c_status m, pp_path := path, pp_detail := detail\<rparr>)
              | _ \<Rightarrow> None), close_import s))"

definition poll_file_import ::
  "(bytes \<Rightarrow> nat \<Rightarrow> u16 list option) \<Rightarrow> poll_params \<Rightarrow> control \<Rightarrow> (NTSTATUS \<times> poll_params option \<times> control) option" where
  "poll_file_import to_wide p s =
     (let p = p\<lparr>pp_status := JUICE_IOS_STATUS_ERROR, pp_path := [0], pp_detail := [0]\<rparr> in
      if pp_version p \<noteq> JUICE_IOS_API_VERSION then Some (STATUS_REVISION_MISMATCH, Some p, s)
      else if import_fd s < 0 \<or> pp_request_id p \<noteq> import_request_id s then
        Some (STATUS_SUCCESS, Some (poll_fail to_wide ''No matching import request.'' p), s)
      else case recv_loop (receives s) (inbound s) (response s) of
          None \<Rightarrow> None
        | Some (e, resp, inb, os) \<Rightarrow>
            Some (poll_finish to_wide p e (s\<lparr>response := resp, inbound := inb, receives := os\<rparr>)))"

record action_params =
  ap_version :: u32
  ap_action :: u32
  ap_status :: u32
  ap_path :: "u16 list"

definition host_action ::
  "(u16 list \<Rightarrow> nat \<Rightarrow> bytes option) \<Rightarrow> action_params \<Rightarrow> control \<Rightarrow> (NTSTATUS \<times> action_params \<times> control) option" where
  "host_action to_utf8 p s =
     (let p = p\<lparr>ap_status := JUICE_IOS_STATUS_ERROR\<rparr> in
      if ap_version p \<noteq> JUICE_IOS_API_VERSION then Some (STATUS_REVISION_MISMATCH, p, s)
      else case connect_control_socket s of (fd, s) \<Rightarrow>
        if fd < 0 then Some (STATUS_DEVICE_NOT_CONNECTED, p, s)
        else case next_request_id s of (rid, s) \<Rightarrow>
          (case control_write (encode_control (request_message JUICE_CONTROL_HOST_ACTION rid (ap_action p)
               (copy_wide_to_utf8 to_utf8 JUICE_CONTROL_PATH_MAX (ap_path p)))) s of
             None \<Rightarrow> None
           | Some (False, s) \<Rightarrow> Some (STATUS_DEVICE_NOT_CONNECTED, p, s\<lparr>open_fds := open_fds s - 1\<rparr>)
           | Some (True, s) \<Rightarrow>
               Some (STATUS_SUCCESS, p\<lparr>ap_status := JUICE_IOS_STATUS_COMPLETE\<rparr>, s\<lparr>open_fds := open_fds s - 1\<rparr>)))"

section \<open>The exported wrappers\<close>

text \<open>\<^verbatim>\<open>lstrcpynW\<close>: at most \<open>n - 1\<close> characters and a terminator.\<close>

definition lstrcpynW :: "nat \<Rightarrow> u16 list \<Rightarrow> u16 list" where
  "lstrcpynW n src = take (n - 1) (wide_string src) @ [0]"

text \<open>The second component is what is stored through \<^verbatim>\<open>request_id\<close>, if anything.\<close>

definition JuiceIOSBeginFileImport :: "u32 \<Rightarrow> bool \<Rightarrow> control \<Rightarrow> (u32 \<times> u32 option \<times> control) option" where
  "JuiceIOSBeginFileImport filters has_out s =
     (if \<not> has_out then Some (JUICE_IOS_STATUS_ERROR, None, s)
      else case begin_file_import \<lparr>bp_version = JUICE_IOS_API_VERSION, bp_filters = filters, bp_request_id = 0,
             bp_status = JUICE_IOS_STATUS_ERROR\<rparr> s of
          None \<Rightarrow> None
        | Some (status, p, s) \<Rightarrow>
            if status \<noteq> STATUS_SUCCESS then Some (JUICE_IOS_STATUS_ERROR, None, s)
            else Some (bp_status p, Some (bp_request_id p), s))"

record import_result =
  ir_version :: u32
  ir_request_id :: u32
  ir_status :: u32
  ir_path :: "u16 list"
  ir_detail :: "u16 list"

definition JuiceIOSPollFileImport ::
  "(bytes \<Rightarrow> nat \<Rightarrow> u16 list option) \<Rightarrow> u32 \<Rightarrow> bool \<Rightarrow> control \<Rightarrow> (u32 \<times> import_result option \<times> control) option" where
  "JuiceIOSPollFileImport to_wide request_id result_ok s =
     (if \<not> result_ok then Some (JUICE_IOS_STATUS_ERROR, None, s)
      else case poll_file_import to_wide \<lparr>pp_version = JUICE_IOS_API_VERSION, pp_request_id = request_id,
             pp_status = JUICE_IOS_STATUS_ERROR, pp_path = [0], pp_detail = [0]\<rparr> s of
          Some (STATUS_SUCCESS, Some p, s) \<Rightarrow>
            Some (pp_status p, Some \<lparr>ir_version = JUICE_IOS_API_VERSION, ir_request_id = request_id, ir_status = pp_status p,
              ir_path = lstrcpynW JUICE_IOS_PATH_CHARS (pp_path p), ir_detail = lstrcpynW JUICE_IOS_DETAIL_CHARS (pp_detail p)\<rparr>, s)
        | Some (_, Some p, s) \<Rightarrow> Some (JUICE_IOS_STATUS_ERROR, None, s)
        | _ \<Rightarrow> None)"

definition JuiceIOSHostAction ::
  "(u16 list \<Rightarrow> nat \<Rightarrow> bytes option) \<Rightarrow> u32 \<Rightarrow> u16 list option \<Rightarrow> control \<Rightarrow> (u32 \<times> control) option" where
  "JuiceIOSHostAction to_utf8 action path s =
     (case host_action to_utf8 \<lparr>ap_version = JUICE_IOS_API_VERSION, ap_action = action, ap_status = JUICE_IOS_STATUS_ERROR,
         ap_path = (case path of None \<Rightarrow> [0] | Some p \<Rightarrow> lstrcpynW JUICE_IOS_PATH_CHARS p)\<rparr> s of
        None \<Rightarrow> None
      | Some (status, p, s) \<Rightarrow> Some (if status \<noteq> STATUS_SUCCESS then JUICE_IOS_STATUS_ERROR else ap_status p, s))"

section \<open>Round trip\<close>

definition message_ok :: "control_message \<Rightarrow> bool" where
  "message_ok m \<longleftrightarrow> length (c_path m) = JUICE_CONTROL_PATH_MAX \<and> length (c_detail m) = JUICE_CONTROL_DETAIL_MAX"

lemma length_put16 [simp]: "length (put16 w) = 2"
  by (simp add: put16_def)

lemma le16_put16_at:
  assumes "i = length pre"
  shows "le16 (pre @ put16 w @ post) i = w"
proof -
  have "ucast (ucast w :: u8) OR push_bit 8 (ucast (ucast (drop_bit 8 w) :: u8)) = w" for w :: u16
    by (rule bit_word_eqI) (auto simp: bit_simps)
  then show ?thesis using assms by (simp add: le16_def byte_at_append put16_def byte_at_def nth_append)
qed

lemma length_encode_control: "message_ok m \<Longrightarrow> length (encode_control m) = CONTROL_BYTES"
  by (simp add: encode_control_def message_ok_def control_consts CONTROL_BYTES_def)

lemma decode_encode_control_append:
  assumes "message_ok m"
  shows "decode_control (encode_control m @ rest) = m"
proof -
  define a where "a = put32 (c_magic m)"
  define b where "b = a @ put16 (c_version m)"
  define c where "c = b @ put16 (c_type m)"
  define d where "d = c @ put32 (c_size m)"
  define e where "e = d @ put32 (c_request_id m)"
  define f where "f = e @ put32 (c_status m)"
  define g where "g = f @ put32 (c_flags m)"
  note defs = a_def b_def c_def d_def e_def f_def g_def
  have lens: "length a = 4" "length b = 6" "length c = 8" "length d = 12" "length e = 16" "length f = 20" "length g = 24"
    by (simp_all add: defs)
  let ?x = "encode_control m @ rest"
  have "le32 ?x 0 = c_magic m" using le32_put32_at [of 0 "[]"] by (simp add: encode_control_def)
  moreover have "le16 ?x 4 = c_version m" using le16_put16_at [of 4 a] by (simp add: lens encode_control_def defs)
  moreover have "le16 ?x 6 = c_type m" using le16_put16_at [of 6 b] by (simp add: lens encode_control_def defs)
  moreover have "le32 ?x 8 = c_size m" using le32_put32_at [of 8 c] by (simp add: lens encode_control_def defs)
  moreover have "le32 ?x 12 = c_request_id m" using le32_put32_at [of 12 d] by (simp add: lens encode_control_def defs)
  moreover have "le32 ?x 16 = c_status m" using le32_put32_at [of 16 e] by (simp add: lens encode_control_def defs)
  moreover have "le32 ?x 20 = c_flags m" using le32_put32_at [of 20 f] by (simp add: lens encode_control_def defs)
  moreover have x: "?x = g @ c_path m @ c_detail m @ rest" by (simp add: encode_control_def defs)
  moreover have "sub_list 24 2048 ?x = c_path m" "sub_list 2072 512 ?x = c_detail m"
    using assms unfolding x by (simp_all add: sub_list_def lens message_ok_def control_consts)
  ultimately show ?thesis unfolding decode_control_def by simp
qed

section \<open>Invariant\<close>

definition control_inv :: "control \<Rightarrow> bool" where
  "control_inv s \<longleftrightarrow> open_fds s = (if import_fd s \<ge> 0 then 1 else 0) \<and>
     (import_fd s < 0 \<longrightarrow> response s = [] \<and> import_request_id s = 0) \<and> length (response s) < CONTROL_BYTES \<and>
     (\<forall>w \<in> set (sent s). \<exists>m. message_ok m \<and> is_prefix w (encode_control m) \<and>
        c_magic m = JUICE_CONTROL_MAGIC \<and> c_size m = of_nat CONTROL_BYTES)"

lemma connect_frame:
  assumes "connect_control_socket s = (fd, s')"
  shows "import_fd s' = import_fd s \<and> import_request_id s' = import_request_id s \<and> response s' = response s \<and> sent s' = sent s \<and>
    open_fds s' = open_fds s + (if fd \<ge> 0 then 1 else 0)"
  using assms by (auto simp: connect_control_socket_def split: option.splits if_splits list.splits)

lemma write_frame:
  assumes "control_write data s = Some (b, s')"
  shows "\<exists>w. is_prefix w data \<and> sent s' = sent s @ [w] \<and> import_fd s' = import_fd s \<and> (b \<longrightarrow> w = data) \<and>
    import_request_id s' = import_request_id s \<and> response s' = response s \<and> open_fds s' = open_fds s"
  using assms all_writer.send_prefix [of "writes_script s" data] all_writer.send_done [of "writes_script s" data]
  by (auto simp: control_write_def split: prod.splits io_end.splits)

lemma request_message_ok:
  "length path \<le> JUICE_CONTROL_PATH_MAX \<Longrightarrow> message_ok (request_message type rid flags path)"
  by (simp add: message_ok_def request_message_def)

lemma request_fields:
  "c_magic (request_message type rid flags path) = JUICE_CONTROL_MAGIC"
  "c_size (request_message type rid flags path) = of_nat CONTROL_BYTES"
  by (simp_all add: request_message_def)

lemma begin_inv:
  assumes "control_inv s" "begin_file_import p s = Some (st, p', s')"
  shows "control_inv s'"
proof (cases "bp_version p \<noteq> JUICE_IOS_API_VERSION \<or> import_fd s \<ge> 0")
  case True
  with assms show ?thesis by (auto simp: begin_file_import_def Let_def split: if_splits)
next
  case False
  obtain fd s1 where c: "connect_control_socket s = (fd, s1)" by fastforce
  note f = connect_frame [OF c]
  let ?s2 = "s1\<lparr>import_fd := fd, request_sequence := request_sequence s1 + 1\<rparr>"
  let ?rid = "push_bit 16 (getpid s1) XOR (request_sequence s1 + 1)"
  let ?m = "request_message JUICE_CONTROL_IMPORT_REQUEST ?rid (bp_filters p) []"
  show ?thesis
  proof (cases "fd < 0")
    case True
    with assms False c f show ?thesis by (auto simp: begin_file_import_def control_inv_def)
  next
    case fd: False
    from assms(2) False c fd obtain b s3 where w: "control_write (encode_control ?m) ?s2 = Some (b, s3)"
        and s': "s' = (if b then s3\<lparr>import_request_id := ?rid\<rparr> else close_import s3)"
      by (auto simp: begin_file_import_def next_request_id_def Let_def split: option.splits bool.splits)
    have ok: "message_ok ?m" by (rule request_message_ok) simp
    from write_frame [OF w] obtain x where x: "is_prefix x (encode_control ?m)" "sent s3 = sent s1 @ [x]" "import_fd s3 = fd"
        "import_request_id s3 = import_request_id s1" "response s3 = response s1" "open_fds s3 = open_fds s1"
      by auto
    with assms(1) False f fd ok s' show ?thesis
      by (auto simp: control_inv_def close_import_def request_fields CONTROL_BYTES_def intro!: exI [of _ ?m])
  qed
qed

lemma recv_loop_short:
  "recv_loop os inb resp = Some (e, resp', inb', os') \<Longrightarrow> length resp < CONTROL_BYTES \<Longrightarrow>
     (e = Recv_full \<longrightarrow> length resp' = CONTROL_BYTES) \<and> (e \<noteq> Recv_full \<longrightarrow> length resp' < CONTROL_BYTES)"
proof (induction os inb resp rule: recv_loop.induct)
  case (2 o1 os inb resp)
  show ?case
  proof (cases o1)
    case (Xfer n)
    let ?got = "take (min n (CONTROL_BYTES - length resp)) inb"
    show ?thesis
    proof (cases "?got = []")
      case True
      with 2(3,4) Xfer show ?thesis by (auto simp: Let_def)
    next
      case False
      let ?resp = "resp @ ?got"
      from 2(3,4) Xfer False have run: "recv_loop os (drop (length ?got) inb) ?resp = Some (e, resp', inb', os')"
        by (simp add: Let_def del: take_eq_Nil take_eq_Nil2)
      show ?thesis
      proof (cases "length ?resp < CONTROL_BYTES")
        case True
        from 2(1) [OF _ Xfer refl False run True] 2(4) show ?thesis by simp
      next
        case no: False
        then have "length ?resp = CONTROL_BYTES" using 2(4) by simp
        moreover have "e = Recv_full \<and> resp' = ?resp"
          using run no by (cases os) (auto split: if_splits)
        ultimately show ?thesis by simp
      qed
    qed
  qed (use 2 in auto)
qed (auto split: if_splits)

lemma poll_inv:
  assumes "control_inv s" "poll_file_import to_wide p s = Some (st, p', s')"
  shows "control_inv s'"
proof (cases "pp_version p \<noteq> JUICE_IOS_API_VERSION \<or> import_fd s < 0 \<or> pp_request_id p \<noteq> import_request_id s")
  case True
  with assms show ?thesis by (auto simp: poll_file_import_def Let_def split: if_splits)
next
  case False
  with assms(2) obtain e resp inb os where r: "recv_loop (receives s) (inbound s) (response s) = Some (e, resp, inb, os)"
    by (auto simp: poll_file_import_def Let_def split: option.splits)
  let ?s = "s\<lparr>response := resp, inbound := inb, receives := os\<rparr>"
  have len: "e \<noteq> Recv_full \<longrightarrow> length resp < CONTROL_BYTES"
    using recv_loop_short [OF r] assms(1) by (simp add: control_inv_def)
  have "snd (snd (poll_finish to_wide q e ?s)) = (if e = Recv_again then ?s else close_import ?s)" for q
    by (cases e) (simp_all add: poll_finish_def Let_def)
  moreover have "\<exists>q. Some (st, p', s') = Some (poll_finish to_wide q e ?s)"
    by (rule exI [of _ "p\<lparr>pp_status := JUICE_IOS_STATUS_ERROR, pp_path := [0], pp_detail := [0]\<rparr>"])
      (use assms(2) False r in \<open>auto simp: poll_file_import_def Let_def\<close>)
  ultimately have "s' = (if e = Recv_again then ?s else close_import ?s)" by (metis option.sel snd_conv)
  moreover have "control_inv (close_import ?s)"
    using assms(1) False by (simp add: control_inv_def close_import_def CONTROL_BYTES_def)
  moreover have "e = Recv_again \<Longrightarrow> control_inv ?s"
    using assms(1) False len by (simp add: control_inv_def)
  ultimately show ?thesis by (simp split: if_splits)
qed

text \<open>What the development assumes of ntdll's converter: it respects the capacity it is given.\<close>

definition bounded_utf8 :: "(u16 list \<Rightarrow> nat \<Rightarrow> bytes option) \<Rightarrow> bool" where
  "bounded_utf8 conv \<longleftrightarrow> (\<forall>ws n bs. conv ws n = Some bs \<longrightarrow> length bs \<le> n)"

lemma copy_wide_bound:
  assumes "bounded_utf8 conv"
  shows "length (copy_wide_to_utf8 conv n src) \<le> n"
proof (cases "conv (wide_string src) (n - 1)")
  case (Some bs)
  then have "length bs \<le> n - 1" using assms unfolding bounded_utf8_def by blast
  then have "length bs \<le> n" by simp
  with Some show ?thesis by (simp add: copy_wide_to_utf8_def)
qed (simp add: copy_wide_to_utf8_def)

lemma action_inv:
  assumes "bounded_utf8 to_utf8" "control_inv s" "host_action to_utf8 p s = Some (st, p', s')"
  shows "control_inv s'"
proof (cases "ap_version p \<noteq> JUICE_IOS_API_VERSION")
  case True
  with assms show ?thesis by (auto simp: host_action_def Let_def split: if_splits)
next
  case False
  obtain fd s1 where c: "connect_control_socket s = (fd, s1)" by fastforce
  note f = connect_frame [OF c]
  let ?s2 = "s1\<lparr>request_sequence := request_sequence s1 + 1\<rparr>"
  let ?rid = "push_bit 16 (getpid s1) XOR (request_sequence s1 + 1)"
  let ?path = "copy_wide_to_utf8 to_utf8 JUICE_CONTROL_PATH_MAX (ap_path p)"
  let ?m = "request_message JUICE_CONTROL_HOST_ACTION ?rid (ap_action p) ?path"
  show ?thesis
  proof (cases "fd < 0")
    case True
    with assms False c f show ?thesis by (auto simp: host_action_def control_inv_def)
  next
    case fd: False
    from assms(3) False c fd obtain b s3 where w: "control_write (encode_control ?m) ?s2 = Some (b, s3)"
        and s': "s' = s3\<lparr>open_fds := open_fds s3 - 1\<rparr>"
      by (auto simp: host_action_def next_request_id_def Let_def split: option.splits bool.splits)
    have "length ?path \<le> JUICE_CONTROL_PATH_MAX"
      by (rule copy_wide_bound [OF assms(1)])
    then have ok: "message_ok ?m" by (rule request_message_ok)
    from write_frame [OF w] obtain x where x: "is_prefix x (encode_control ?m)" "sent s3 = sent s1 @ [x]" "import_fd s3 = import_fd s1"
        "import_request_id s3 = import_request_id s1" "response s3 = response s1" "open_fds s3 = open_fds s1"
      by auto
    with assms(2) False f fd ok s' show ?thesis
      by (auto simp: control_inv_def request_fields intro!: exI [of _ ?m])
  qed
qed

section \<open>Delivery\<close>

text \<open>A host that keeps the connection open: interruptions, empty polls and non-empty pieces.\<close>

fun lively :: "io_result \<Rightarrow> bool" where
  "lively (Xfer n) = (0 < n)"
| "lively Eintr = True"
| "lively Eagain = True"
| "lively Efail = False"

fun pieces :: "io_result list \<Rightarrow> nat" where
  "pieces [] = 0"
| "pieces (Xfer n # os) = Suc (pieces os)"
| "pieces (o1 # os) = pieces os"

lemma recv_progress:
  assumes "list_all lively os" "CONTROL_BYTES \<le> length resp + length inb" "length resp < CONTROL_BYTES"
    "CONTROL_BYTES \<le> length resp + pieces os"
  shows "\<exists>e resp' inb' os'. recv_loop os inb resp = Some (e, resp', inb', os') \<and> resp' @ inb' = resp @ inb \<and>
    (e = Recv_full \<and> length resp' = CONTROL_BYTES \<or>
     e = Recv_again \<and> length resp' < CONTROL_BYTES \<and> length os' < length os \<and> list_all lively os' \<and>
       CONTROL_BYTES \<le> length resp' + pieces os')"
  using assms
proof (induction os inb resp rule: recv_loop.induct)
  case (2 o1 os inb resp)
  show ?case
  proof (cases o1)
    case (Xfer n)
    let ?got = "take (min n (CONTROL_BYTES - length resp)) inb"
    have n: "0 < n" using 2(3) Xfer by simp
    have ne: "?got \<noteq> []" using 2(4,5) n by auto
    let ?resp = "resp @ ?got" and ?inb = "drop (length ?got) inb"
    have split: "?resp @ ?inb = resp @ inb" by (simp add: min_def) 
    have step: "recv_loop (o1 # os) inb resp = recv_loop os ?inb ?resp"
      using 2(5) Xfer ne by (simp add: Let_def del: take_eq_Nil take_eq_Nil2)
    have le: "length ?resp \<le> CONTROL_BYTES" "CONTROL_BYTES \<le> length ?resp + length ?inb" using 2(4,5) by auto
    have one: "1 \<le> length ?got" using ne by (cases ?got) auto
    show ?thesis
    proof (cases "length ?resp < CONTROL_BYTES")
      case True
      have "CONTROL_BYTES \<le> length ?resp + pieces os" 
        using 2(6) Xfer one unfolding length_append by (simp only: pieces.simps)
      from 2(1) [OF _ Xfer refl ne _ le(2) True this] 2(3,5) obtain e resp' inb' os' where
        r: "recv_loop os ?inb ?resp = Some (e, resp', inb', os')" "resp' @ inb' = ?resp @ ?inb"
          "e = Recv_full \<and> length resp' = CONTROL_BYTES \<or>
           e = Recv_again \<and> length resp' < CONTROL_BYTES \<and> length os' < length os \<and> list_all lively os' \<and>
             CONTROL_BYTES \<le> length resp' + pieces os'"
        by auto
      have "length os' < length os \<Longrightarrow> length os' < length (o1 # os)" by simp
      with r show ?thesis unfolding step split by blast
    next
      case False
      then have full: "length ?resp = CONTROL_BYTES" using le by simp
      then have "recv_loop os ?inb ?resp = Some (Recv_full, ?resp, ?inb, os)" by (cases os) simp_all
      with full split show ?thesis unfolding step by blast
    qed
  next
    case Eintr
    with 2(2) 2(3-) obtain e resp' inb' os' where
      "recv_loop os inb resp = Some (e, resp', inb', os')" "resp' @ inb' = resp @ inb"
      "e = Recv_full \<and> length resp' = CONTROL_BYTES \<or>
       e = Recv_again \<and> length resp' < CONTROL_BYTES \<and> length os' < length os \<and> list_all lively os' \<and>
         CONTROL_BYTES \<le> length resp' + pieces os'"
      by auto
    moreover have "length os' < length os \<Longrightarrow> length os' < length (o1 # os)" by simp
    moreover have "recv_loop (o1 # os) inb resp = recv_loop os inb resp" using Eintr 2(5) by simp
    ultimately show ?thesis by metis
  next
    case Eagain
    with 2(3-) show ?thesis by auto
  next
    case Efail
    with 2(3) show ?thesis by simp
  qed
qed simp

definition poll_request :: "u32 \<Rightarrow> poll_params" where
  "poll_request rid = \<lparr>pp_version = JUICE_IOS_API_VERSION, pp_request_id = rid, pp_status = JUICE_IOS_STATUS_ERROR,
     pp_path = [0], pp_detail = [0]\<rparr>"

text \<open>\<open>n\<close> polls in a row: their results and the state after them.\<close>

fun polls :: "(bytes \<Rightarrow> nat \<Rightarrow> u16 list option) \<Rightarrow> u32 \<Rightarrow> nat \<Rightarrow> control \<Rightarrow> (poll_params option list \<times> control) option" where
  "polls to_wide rid 0 s = Some ([], s)"
| "polls to_wide rid (Suc n) s =
     (case poll_file_import to_wide (poll_request rid) s of
        None \<Rightarrow> None
      | Some (_, p, s) \<Rightarrow> (case polls to_wide rid n s of None \<Rightarrow> None | Some (ps, s) \<Rightarrow> Some (p # ps, s)))"

definition pending_poll :: "poll_params option \<Rightarrow> bool" where
  "pending_poll p \<longleftrightarrow> (\<exists>q. p = Some q \<and> pp_status q = JUICE_IOS_STATUS_PENDING)"

lemma polls_deliver:
  assumes "import_fd s \<ge> 0" "import_request_id s = rid" "response s @ inbound s = encode_control m @ rest"
    and m: "message_ok m" "valid_message m JUICE_CONTROL_IMPORT_RESPONSE" "c_request_id m = rid"
    and "length (response s) < CONTROL_BYTES" "list_all lively (receives s)" "CONTROL_BYTES \<le> length (response s) + pieces (receives s)"
    and t: "copy_utf8_to_wide to_wide JUICE_IOS_PATH_CHARS (c_path m @ c_detail m) = Some path"
      "copy_utf8_to_wide to_wide JUICE_IOS_DETAIL_CHARS (c_detail m) = Some detail"
  shows "\<exists>n ps q s'. polls to_wide rid (Suc n) s = Some (ps @ [Some q], s') \<and> length ps = n \<and> list_all pending_poll ps \<and>
    pp_status q = c_status m \<and> pp_path q = path \<and> pp_detail q = detail \<and> import_fd s' = -1 \<and> response s' = []"
  using assms(1-3,7-9)
proof (induction "length (receives s)" arbitrary: s rule: less_induct)
  case less
  have len: "length (encode_control m) = CONTROL_BYTES" by (rule length_encode_control [OF m(1)])
  have "length (response s) + length (inbound s) = length (encode_control m @ rest)"
    using less(4) by (metis length_append)
  then have enough: "CONTROL_BYTES \<le> length (response s) + length (inbound s)" using len by simp
  from recv_progress [OF less(6) enough less(5,7)] obtain e resp inb os where
    r: "recv_loop (receives s) (inbound s) (response s) = Some (e, resp, inb, os)" "resp @ inb = response s @ inbound s"
      "e = Recv_full \<and> length resp = CONTROL_BYTES \<or>
       e = Recv_again \<and> length resp < CONTROL_BYTES \<and> length os < length (receives s) \<and> list_all lively os \<and>
         CONTROL_BYTES \<le> length resp + pieces os"
    by blast
  let ?s = "s\<lparr>response := resp, inbound := inb, receives := os\<rparr>"
  have poll: "poll_file_import to_wide (poll_request rid) s = Some (poll_finish to_wide (poll_request rid) e ?s)"
    using less(2,3) r(1) by (simp add: poll_file_import_def poll_request_def)
  show ?case
  proof (cases e)
    case Recv_full
    then have "resp = encode_control m" using r(2,3) less(4) len by (metis append_eq_append_conv recv_end.distinct(1))
    then have "decode_control resp = m" using decode_encode_control_append [OF m(1), of "[]"] by simp
    then have "poll_finish to_wide (poll_request rid) e ?s =
        (STATUS_SUCCESS, Some ((poll_request rid)\<lparr>pp_status := c_status m, pp_path := path, pp_detail := detail\<rparr>), close_import ?s)"
      using m(2,3) t Recv_full by (simp add: poll_finish_def poll_request_def)
    with poll have "polls to_wide rid (Suc 0) s =
        Some ([] @ [Some ((poll_request rid)\<lparr>pp_status := c_status m, pp_path := path, pp_detail := detail\<rparr>)], close_import ?s)"
      by simp
    moreover have "import_fd (close_import ?s) = -1 \<and> response (close_import ?s) = []" by (simp add: close_import_def)
    ultimately show ?thesis
      by (intro exI [of _ 0] exI [of _ "[]"] exI [of _ "(poll_request rid)\<lparr>pp_status := c_status m, pp_path := path, pp_detail := detail\<rparr>"]
          exI [of _ "close_import ?s"]) simp
  next
    case Recv_again
    then have f: "poll_finish to_wide (poll_request rid) e ?s =
        (STATUS_SUCCESS, Some ((poll_request rid)\<lparr>pp_status := JUICE_IOS_STATUS_PENDING\<rparr>), ?s)"
      by (simp add: poll_finish_def)
    have "\<exists>n ps q s'. polls to_wide rid (Suc n) ?s = Some (ps @ [Some q], s') \<and> length ps = n \<and> list_all pending_poll ps \<and>
        pp_status q = c_status m \<and> pp_path q = path \<and> pp_detail q = detail \<and> import_fd s' = -1 \<and> response s' = []"
      by (rule less(1)) (use less(2-4) r(2,3) Recv_again in auto)
    then obtain n ps q s' where h: "polls to_wide rid (Suc n) ?s = Some (ps @ [Some q], s')" "length ps = n" "list_all pending_poll ps"
        "pp_status q = c_status m" "pp_path q = path" "pp_detail q = detail" "import_fd s' = -1" "response s' = []"
      by blast
    let ?p = "Some ((poll_request rid)\<lparr>pp_status := JUICE_IOS_STATUS_PENDING\<rparr>)"
    have "polls to_wide rid (Suc (Suc n)) s = Some ((?p # ps) @ [Some q], s')"
      using poll f h(1) by (subst polls.simps) (simp del: polls.simps)
    moreover have "list_all pending_poll (?p # ps)" using h(3) by (simp add: pending_poll_def)
    ultimately show ?thesis using h by (intro exI [of _ "Suc n"] exI [of _ "?p # ps"] exI [of _ q] exI [of _ s']) simp
  next
    case Recv_closed
    with r(3) show ?thesis by simp
  qed
qed

section \<open>Properties\<close>

datatype control_call = Begin u32 | Poll u32 | Action u32 "u16 list option"

fun run_control :: "(bytes \<Rightarrow> nat \<Rightarrow> u16 list option) \<Rightarrow> (u16 list \<Rightarrow> nat \<Rightarrow> bytes option) \<Rightarrow> control_call list \<Rightarrow> control \<Rightarrow> control option" where
  "run_control to_wide to_utf8 [] s = Some s"
| "run_control to_wide to_utf8 (c # cs) s =
     (case (case c of
         Begin filters \<Rightarrow> map_option (\<lambda>(_, _, s). s) (JuiceIOSBeginFileImport filters True s)
       | Poll rid \<Rightarrow> map_option (\<lambda>(_, _, s). s) (JuiceIOSPollFileImport to_wide rid True s)
       | Action action path \<Rightarrow> map_option snd (JuiceIOSHostAction to_utf8 action path s)) of
        None \<Rightarrow> None
      | Some s' \<Rightarrow> run_control to_wide to_utf8 cs s')"

definition control_start :: "u32 \<Rightarrow> string option \<Rightarrow> nat option list \<Rightarrow> io_result list \<Rightarrow> io_result list \<Rightarrow> bytes \<Rightarrow> control" where
  "control_start pid path conns outs ins inb = \<lparr>import_fd = -1, import_request_id = 0, response = [], request_sequence = 0,
     getpid = pid, socket_env = path, connects = conns, writes_script = outs, receives = ins, inbound = inb,
     open_fds = 0, sent = []\<rparr>"

lemma wrapper_inv:
  "JuiceIOSBeginFileImport filters b s = Some (v, r, s') \<Longrightarrow> control_inv s \<Longrightarrow> control_inv s'"
  "JuiceIOSPollFileImport to_wide rid b s = Some (v, ir, s') \<Longrightarrow> control_inv s \<Longrightarrow> control_inv s'"
  "bounded_utf8 to_utf8 \<Longrightarrow> JuiceIOSHostAction to_utf8 action path s = Some (v, s') \<Longrightarrow> control_inv s \<Longrightarrow> control_inv s'"
  by (auto simp: JuiceIOSBeginFileImport_def JuiceIOSPollFileImport_def JuiceIOSHostAction_def
      split: if_splits option.splits prod.splits NTSTATUS.splits dest: begin_inv poll_inv action_inv)

lemma run_control_inv:
  "bounded_utf8 to_utf8 \<Longrightarrow> run_control to_wide to_utf8 cs s = Some s' \<Longrightarrow> control_inv s \<Longrightarrow> control_inv s'"
  by (induction cs arbitrary: s)
    (auto split: option.splits control_call.splits dest: wrapper_inv(1,2) wrapper_inv(3) [of to_utf8])


definition sample_wide :: "bytes \<Rightarrow> nat \<Rightarrow> u16 list option" where
  "sample_wide bs n = Some (take n (map ucast bs))"

definition sample_utf8 :: "u16 list \<Rightarrow> nat \<Rightarrow> bytes option" where
  "sample_utf8 ws n = Some (take n (map ucast ws))"

lemma sample_utf8_bounded: "bounded_utf8 sample_utf8"
  by (simp add: bounded_utf8_def sample_utf8_def)

definition sample_control :: control where
  "sample_control = control_start 7 (Some ''/c'') [Some 3] [Xfer 9999] (replicate 2584 (Xfer 1)) []"

lemma write_whole: "d \<noteq> [] \<Longrightarrow> length d \<le> n \<Longrightarrow> write_all (Xfer n # os) d = (Done, d, os)"
  by (cases d) (simp_all add: Let_def min_absorb2)

lemma sample_begun:
  "\<exists>s. run_control sample_wide sample_utf8 [Begin 1] sample_control = Some s \<and> import_fd s = 3 \<and>
     import_request_id s = 0x70001 \<and> response s = [] \<and> receives s = replicate 2584 (Xfer 1)"
proof -
  have l: "length (encode_control (request_message 1 0x70001 1 [])) = 2584"
    using length_encode_control [OF request_message_ok, of "[]"] by (simp add: CONTROL_BYTES_def)
  then have "write_all [Xfer 9999] (encode_control (request_message 1 0x70001 1 [])) =
      (Done, encode_control (request_message 1 0x70001 1 []), [])"
    by (intro write_whole) auto
  then show ?thesis
    by (simp add: sample_control_def control_start_def JuiceIOSBeginFileImport_def begin_file_import_def
        connect_control_socket_def next_request_id_def control_write_def control_consts Let_def)
qed


text \<open>
  C21: An import completes.  If the host answers the request in flight with a well-formed
  response, then however the kernel cuts it up and however often the caller polls too early,
  every poll reports pending until the last byte has arrived, and the next one reports the
  response's status, path and detail and leaves the bridge idle.
\<close>

theorem import_delivered:
  assumes "import_fd s \<ge> 0" "response s = []" "inbound s = encode_control m @ rest" "message_ok m"
    and "valid_message m JUICE_CONTROL_IMPORT_RESPONSE" "c_request_id m = import_request_id s"
    and "list_all lively (receives s)" "2584 \<le> pieces (receives s)"
    and "copy_utf8_to_wide to_wide JUICE_IOS_PATH_CHARS (c_path m @ c_detail m) = Some path"
    and "copy_utf8_to_wide to_wide JUICE_IOS_DETAIL_CHARS (c_detail m) = Some detail"
  shows "\<exists>n ps q s'. polls to_wide (import_request_id s) (Suc n) s = Some (ps @ [Some q], s') \<and> length ps = n \<and>
    list_all pending_poll ps \<and> pp_status q = c_status m \<and> pp_path q = path \<and> pp_detail q = detail \<and>
    import_fd s' = -1 \<and> response s' = []"
  by (rule polls_deliver [OF assms(1) refl _ assms(4-6) _ assms(7) _ assms(9,10)])
    (use assms(2,3,8) in \<open>simp_all add: CONTROL_BYTES_def\<close>)

definition sample_response :: control_message where
  "sample_response = \<lparr>c_magic = JUICE_CONTROL_MAGIC, c_version = JUICE_CONTROL_VERSION, c_type = JUICE_CONTROL_IMPORT_RESPONSE,
     c_size = 2584, c_request_id = 0x70001, c_status = 2, c_flags = 0, c_path = 0x43 # replicate 2047 0, c_detail = replicate 512 0\<rparr>"

theorem import_delivered_witness:
  "\<exists>s n ps q s'. polls sample_wide 0x70001 (Suc n) s = Some (ps @ [Some q], s') \<and> pp_status q = 2 \<and> pp_path q = [0x43, 0] \<and>
     import_fd s = 3 \<and> import_fd s' = -1"
proof -
  obtain s0 :: control where s0: "import_fd s0 = 3" "import_request_id s0 = 0x70001" "response s0 = []" "receives s0 = replicate 2584 (Xfer 1)"
    using sample_begun by blast
  define s where "s = s0\<lparr>inbound := encode_control sample_response @ []\<rparr>"
  have p: "pieces (replicate n (Xfer k)) = n" for n k by (induction n) simp_all
  have ok: "message_ok sample_response" "valid_message sample_response JUICE_CONTROL_IMPORT_RESPONSE"
    "c_request_id sample_response = import_request_id s"
    by (simp_all add: message_ok_def sample_response_def control_consts valid_message_def CONTROL_BYTES_def s_def s0)
  have path: "copy_utf8_to_wide sample_wide JUICE_IOS_PATH_CHARS (c_path sample_response @ c_detail sample_response) = Some [0x43, 0]"
    by (simp add: copy_utf8_to_wide_def c_string_def sample_response_def sample_wide_def control_consts takeWhile_append)
  have detail: "copy_utf8_to_wide sample_wide JUICE_IOS_DETAIL_CHARS (c_detail sample_response) = Some [0]"
    by (simp add: copy_utf8_to_wide_def c_string_def sample_response_def control_consts takeWhile_replicate)
  have st: "import_fd s \<ge> 0" "response s = []" "inbound s = encode_control sample_response @ []" "list_all lively (receives s)"
      "2584 \<le> pieces (receives s)"
    by (simp_all add: s_def s0 list_all_iff p)
  from import_delivered [OF st(1,2,3) ok st(4,5) path detail] obtain n ps q s' where
    "polls sample_wide (import_request_id s) (Suc n) s = Some (ps @ [Some q], s')" "pp_status q = c_status sample_response"
    "pp_path q = [0x43, 0]" "import_fd s' = -1"
    by blast
  moreover have "import_request_id s = 0x70001" "import_fd s = 3" "c_status sample_response = 2"
    by (simp_all add: s_def s0 sample_response_def)
  ultimately show ?thesis by metis
qed

text \<open>
  Control messages survive the wire: decoding the bytes of a message, whatever follows
  them, gives the message back, and every message takes exactly the fixed size that both
  ends check for.
\<close>

theorem control_roundtrip:
  assumes "message_ok m"
  shows "decode_control (encode_control m @ rest) = m \<and> length (encode_control m) = 2584"
  using decode_encode_control_append [OF assms] length_encode_control [OF assms] by (simp add: CONTROL_BYTES_def)

theorem control_roundtrip_witness: "decode_control (encode_control sample_response @ [1, 2]) = sample_response"
  using control_roundtrip [of sample_response "[1, 2]"]
  by (simp add: message_ok_def sample_response_def control_consts)

text \<open>
  C33: A defect at the trust boundary: when the host's response has no NUL byte in its detail
  field, the poll that completes it computes the length of that field by reading past the
  end of the response object, so its result is undefined.
\<close>

theorem poll_overread:
  assumes "import_fd s \<ge> 0" "recv_loop (receives s) (inbound s) (response s) = Some (Recv_full, encode_control m, inb, os)"
    and "message_ok m" "valid_message m JUICE_CONTROL_IMPORT_RESPONSE" "c_request_id m = import_request_id s"
    and "0 \<notin> set (c_detail m)"
  shows "\<exists>s'. poll_file_import to_wide (poll_request (import_request_id s)) s = Some (STATUS_SUCCESS, None, s')"
proof -
  have "decode_control (encode_control m) = m" using decode_encode_control_append [OF assms(3), of "[]"] by simp
  moreover have "copy_utf8_to_wide to_wide JUICE_IOS_DETAIL_CHARS (c_detail m) = None"
    using assms(6) by (simp add: copy_utf8_to_wide_def c_string_def)
  ultimately show ?thesis
    using assms by (simp add: poll_file_import_def poll_request_def poll_finish_def split: option.splits)
qed

definition bad_response :: control_message where
  "bad_response = sample_response\<lparr>c_detail := replicate 512 0x41\<rparr>"

lemma recv_whole:
  assumes "length d = CONTROL_BYTES"
  shows "recv_loop [Xfer 9999] d [] = Some (Recv_full, d, [], [])"
  using assms by (auto simp: Let_def CONTROL_BYTES_def)

theorem poll_overread_witness:
  "\<exists>s s'. poll_file_import sample_wide (poll_request 0x70001) s = Some (STATUS_SUCCESS, None, s')"
proof -
  obtain s0 :: control where s0: "import_fd s0 = 3" "import_request_id s0 = 0x70001" "response s0 = []"
    using sample_begun by blast
  define s where "s = s0\<lparr>inbound := encode_control bad_response, receives := [Xfer 9999]\<rparr>"
  have ok: "message_ok bad_response" "valid_message bad_response JUICE_CONTROL_IMPORT_RESPONSE"
    "c_request_id bad_response = import_request_id s" "0 \<notin> set (c_detail bad_response)" "import_fd s \<ge> 0"
    by (simp_all add: message_ok_def bad_response_def sample_response_def control_consts valid_message_def CONTROL_BYTES_def s_def s0)
  have "recv_loop (receives s) (inbound s) (response s) = Some (Recv_full, encode_control bad_response, [], [])"
    using recv_whole [OF length_encode_control [OF ok(1)]] by (simp add: s_def s0 del: recv_loop.simps)
  from poll_overread [OF ok(5) this ok(1-4), of sample_wide] show ?thesis by (auto simp: s_def s0)
qed

end
