(* ===== verification/Wine_Base.thy ===== *)
theory Wine_Base
  imports Juice_Prelude
begin

text \<open>
  Vocabulary of the Wine server components: the \<^verbatim>\<open>NTSTATUS\<close> codes of
  \<^verbatim>\<open>wine/include/ntstatus.h\<close> that the modelled requests return.
\<close>

named_theorems status_codes \<open>the numeric values of the status codes\<close>

definition STATUS_WAIT_0 :: u32 where [status_codes]: "STATUS_WAIT_0 = 0"
definition STATUS_ABANDONED_WAIT_0 :: u32 where [status_codes]: "STATUS_ABANDONED_WAIT_0 = 0x80"
definition STATUS_USER_APC :: u32 where [status_codes]: "STATUS_USER_APC = 0xC0"
definition STATUS_KERNEL_APC :: u32 where [status_codes]: "STATUS_KERNEL_APC = 0x100"
definition STATUS_TIMEOUT :: u32 where [status_codes]: "STATUS_TIMEOUT = 0x102"
definition STATUS_PENDING :: u32 where [status_codes]: "STATUS_PENDING = 0x103"
definition STATUS_OBJECT_NAME_EXISTS :: u32 where [status_codes]: "STATUS_OBJECT_NAME_EXISTS = 0x40000000"
definition STATUS_THREAD_WAS_SUSPENDED :: u32 where [status_codes]: "STATUS_THREAD_WAS_SUSPENDED = 0x40000001"
definition STATUS_INVALID_HANDLE :: u32 where [status_codes]: "STATUS_INVALID_HANDLE = 0xC0000008"
definition STATUS_INVALID_PARAMETER :: u32 where [status_codes]: "STATUS_INVALID_PARAMETER = 0xC000000D"
definition STATUS_NO_MEMORY :: u32 where [status_codes]: "STATUS_NO_MEMORY = 0xC0000017"
definition STATUS_ACCESS_DENIED :: u32 where [status_codes]: "STATUS_ACCESS_DENIED = 0xC0000022"
definition STATUS_BUFFER_TOO_SMALL :: u32 where [status_codes]: "STATUS_BUFFER_TOO_SMALL = 0xC0000023"
definition STATUS_OBJECT_TYPE_MISMATCH :: u32 where [status_codes]: "STATUS_OBJECT_TYPE_MISMATCH = 0xC0000024"
definition STATUS_OBJECT_NAME_INVALID :: u32 where [status_codes]: "STATUS_OBJECT_NAME_INVALID = 0xC0000033"
definition STATUS_OBJECT_NAME_NOT_FOUND :: u32 where [status_codes]: "STATUS_OBJECT_NAME_NOT_FOUND = 0xC0000034"
definition STATUS_OBJECT_NAME_COLLISION :: u32 where [status_codes]: "STATUS_OBJECT_NAME_COLLISION = 0xC0000035"
definition STATUS_MUTANT_NOT_OWNED :: u32 where [status_codes]: "STATUS_MUTANT_NOT_OWNED = 0xC0000046"
definition STATUS_SEMAPHORE_LIMIT_EXCEEDED :: u32 where [status_codes]: "STATUS_SEMAPHORE_LIMIT_EXCEEDED = 0xC0000047"
definition STATUS_SUSPEND_COUNT_EXCEEDED :: u32 where [status_codes]: "STATUS_SUSPEND_COUNT_EXCEEDED = 0xC000004A"
definition STATUS_INSUFFICIENT_RESOURCES :: u32 where [status_codes]: "STATUS_INSUFFICIENT_RESOURCES = 0xC000009A"
definition STATUS_PROCESS_IS_TERMINATING :: u32 where [status_codes]: "STATUS_PROCESS_IS_TERMINATING = 0xC000010A"
definition STATUS_NOT_SAME_OBJECT :: u32 where [status_codes]: "STATUS_NOT_SAME_OBJECT = 0xC00001AC"
definition STATUS_HANDLE_NOT_CLOSABLE :: u32 where [status_codes]: "STATUS_HANDLE_NOT_CLOSABLE = 0xC0000235"

end
