(* ===== verification/Wine_Atoms.thy ===== *)
theory Wine_Atoms
  imports Wine_Base
begin

text \<open>
  The atom tables of the Wine server, \<^verbatim>\<open>wine/server/atom.c\<close>, with the string helpers of
  \<^verbatim>\<open>wine/server/unicode.c\<close> they use.

  A name is the list of its UTF-16 units; its byte length is twice the length of the list.  An
  entry is named by its slot in the \<open>atoms\<close> array, which is unique while the entry lives, so the
  doubly linked hash chains are lists of slots in link order.  The case mapping table is
  read from a locale file at startup and is a parameter.  Allocation outcomes are a script in
  the table; an exhausted script is exhausted memory.  The object header of a table is not
  part of the model.
\<close>

section \<open>Strings\<close>

type_synonym wstr = "u16 list"
type_synonym casemap = "nat \<Rightarrow> u16"

definition to_lower :: "casemap \<Rightarrow> u16 \<Rightarrow> u16" where
  "to_lower cm ch =
     ch + cm (unat (cm (unat (cm (unat (drop_bit 8 ch))) + unat (drop_bit 4 ch AND 0x0f))) +
              unat (ch AND 0x0f))"

fun memicmp_strW :: "casemap \<Rightarrow> wstr \<Rightarrow> wstr \<Rightarrow> int" where
  "memicmp_strW cm (a # as) (b # bs) =
     (let ret = uint (to_lower cm a) - uint (to_lower cm b)
      in if ret \<noteq> 0 then ret else memicmp_strW cm as bs)"
| "memicmp_strW cm _ _ = 0"

fun hash_loop :: "casemap \<Rightarrow> u32 \<Rightarrow> wstr \<Rightarrow> u32" where
  "hash_loop cm h [] = h"
| "hash_loop cm h (c # cs) = hash_loop cm (h * 65599 + ucast (to_lower cm c)) cs"

definition hash_strW :: "casemap \<Rightarrow> wstr \<Rightarrow> nat \<Rightarrow> nat" where
  "hash_strW cm str hash_size = unat (hash_loop cm 0 str) mod hash_size"

definition fold_name :: "casemap \<Rightarrow> wstr \<Rightarrow> wstr" where
  "fold_name cm str = map (to_lower cm) str"

section \<open>Tables\<close>

definition HASH_SIZE :: nat where "HASH_SIZE = 37"
definition MIN_STR_ATOM :: u32 where "MIN_STR_ATOM = 0xc000"
definition MAX_ATOMS :: nat where "MAX_ATOMS = 0x4000"
definition MAX_ATOM_LEN :: nat where "MAX_ATOM_LEN = 255"
definition MAXINTATOM :: u32 where "MAXINTATOM = 0xc000"


record atom_entry =
  refs :: u32
  bucket :: nat
  str :: wstr

record atom_table =
  used :: nat
  atoms :: "nat \<Rightarrow> atom_entry option"
  entries :: "nat \<Rightarrow> nat list"
  allocs :: "bool list"

definition create_atom_table :: "bool list \<Rightarrow> atom_table" where
  "create_atom_table script =
     \<lparr>used = 1, atoms = (\<lambda>_. None), entries = (\<lambda>_. []), allocs = script\<rparr>"

definition mem_alloc :: "atom_table \<Rightarrow> bool \<times> atom_table" where
  "mem_alloc t = (case allocs t of
     [] \<Rightarrow> (False, t)
   | ok # rest \<Rightarrow> (ok, t\<lparr>allocs := rest\<rparr>))"

text \<open>A reply carries the atom (0 on failure) and the error the request left set, if any.\<close>

type_synonym reply = "u32 \<times> u32 option"

definition atom_slot :: "u32 \<Rightarrow> nat" where
  "atom_slot atom = unat (atom - MIN_STR_ATOM)"

definition get_atom_entry :: "atom_table \<Rightarrow> u32 \<Rightarrow> atom_entry option" where
  "get_atom_entry t atom =
     (if MIN_STR_ATOM \<le> atom \<and> atom < MIN_STR_ATOM + of_nat (used t)
      then atoms t (atom_slot atom) else None)"

function scan_slot :: "(nat \<Rightarrow> atom_entry option) \<Rightarrow> nat \<Rightarrow> nat \<Rightarrow> nat" where
  "scan_slot a n i = (if i < n \<and> a i \<noteq> None then scan_slot a n (i + 1) else i)"
  by pat_completeness auto
termination
  by (relation "measure (\<lambda>(a, n, i). n - i)") auto

declare scan_slot.simps [simp del]

definition add_atom_entry :: "atom_table \<Rightarrow> atom_entry \<Rightarrow> u32 \<times> atom_table" where
  "add_atom_entry t e =
     (let i = scan_slot (atoms t) (used t) 1
      in if i = MAX_ATOMS then (0, t)
         else (of_nat i + MIN_STR_ATOM,
               t\<lparr>used := (if i = used t then used t + 1 else used t),
                 atoms := (atoms t)(i \<mapsto> e)\<rparr>))"

fun int_atom_loop :: "u32 \<Rightarrow> wstr \<Rightarrow> u32" where
  "int_atom_loop ret [] = ret"
| "int_atom_loop ret (c # cs) =
     (if c < 0x30 \<or> c > 0x39 then 0
      else let ret' = ret * 10 + ucast c - 0x30
           in if ret' \<ge> MAXINTATOM then 0 else int_atom_loop ret' cs)"

fun get_int_atom_value :: "wstr \<Rightarrow> u32" where
  "get_int_atom_value [] = 0"
| "get_int_atom_value (c # cs) = (if c \<noteq> 0x23 then 0 else int_atom_loop 0 cs)"

definition same_name :: "casemap \<Rightarrow> wstr \<Rightarrow> atom_entry option \<Rightarrow> bool" where
  "same_name cm name entry = (case entry of
     None \<Rightarrow> False
   | Some e \<Rightarrow> length (str e) = length name \<and> memicmp_strW cm (str e) name = 0)"

definition find_atom_entry :: "casemap \<Rightarrow> atom_table \<Rightarrow> wstr \<Rightarrow> nat \<Rightarrow> nat option" where
  "find_atom_entry cm t name hash = find (\<lambda>i. same_name cm name (atoms t i)) (entries t hash)"

definition name_check :: "wstr \<Rightarrow> u32 option" where
  "name_check name =
     (if name = [] then Some STATUS_OBJECT_NAME_INVALID
      else if length name > MAX_ATOM_LEN then Some STATUS_INVALID_PARAMETER else None)"

definition grab_slot :: "atom_table \<Rightarrow> nat \<Rightarrow> atom_table" where
  "grab_slot t i = t\<lparr>atoms := (atoms t)(i := map_option (\<lambda>e. e\<lparr>refs := refs e + 1\<rparr>) (atoms t i))\<rparr>"

definition new_atom :: "casemap \<Rightarrow> atom_table \<Rightarrow> wstr \<Rightarrow> nat \<Rightarrow> reply \<times> atom_table" where
  "new_atom cm t name hash =
     (let (ok, t1) = mem_alloc t
      in if \<not> ok then ((0, Some STATUS_NO_MEMORY), t1)
         else let (atom, t2) = add_atom_entry t1 \<lparr>refs = 1, bucket = hash, str = name\<rparr>
              in if atom = 0 then ((0, Some STATUS_NO_MEMORY), t2)
                 else ((atom, None),
                       t2\<lparr>entries := (entries t2)(hash := atom_slot atom # entries t2 hash)\<rparr>))"

definition add_atom :: "casemap \<Rightarrow> atom_table \<Rightarrow> wstr \<Rightarrow> reply \<times> atom_table" where
  "add_atom cm t name = (case name_check name of
     Some err \<Rightarrow> ((0, Some err), t)
   | None \<Rightarrow>
       (let int_atom = get_int_atom_value name
        in if int_atom \<noteq> 0 then ((int_atom, None), t)
           else let hash = hash_strW cm name HASH_SIZE
                in case find_atom_entry cm t name hash of
                     Some i \<Rightarrow> ((of_nat i + MIN_STR_ATOM, None), grab_slot t i)
                   | None \<Rightarrow> new_atom cm t name hash))"

definition delete_atom :: "atom_table \<Rightarrow> u32 \<Rightarrow> u32 option \<times> atom_table" where
  "delete_atom t atom = (case get_atom_entry t atom of
     None \<Rightarrow> (Some STATUS_INVALID_HANDLE, t)
   | Some e \<Rightarrow>
       (let i = atom_slot atom; e' = e\<lparr>refs := refs e - 1\<rparr>
        in if refs e' = 0
           then (None, t\<lparr>entries := (entries t)(bucket e := remove1 i (entries t (bucket e))),
                        atoms := (atoms t)(i := None)\<rparr>)
           else (None, t\<lparr>atoms := (atoms t)(i \<mapsto> e')\<rparr>)))"

definition find_atom :: "casemap \<Rightarrow> atom_table \<Rightarrow> wstr \<Rightarrow> reply" where
  "find_atom cm t name = (case name_check name of
     Some err \<Rightarrow> (0, Some err)
   | None \<Rightarrow>
       (let int_atom = get_int_atom_value name
        in if int_atom \<noteq> 0 then (int_atom, None)
           else case find_atom_entry cm t name (hash_strW cm name HASH_SIZE) of
                  Some i \<Rightarrow> (of_nat i + MIN_STR_ATOM, None)
                | None \<Rightarrow> (0, Some STATUS_OBJECT_NAME_NOT_FOUND)))"

definition grab_atom :: "atom_table \<Rightarrow> u32 \<Rightarrow> reply \<times> atom_table" where
  "grab_atom t atom =
     (if atom \<ge> MIN_STR_ATOM
      then (case get_atom_entry t atom of
              None \<Rightarrow> ((0, Some STATUS_INVALID_HANDLE), t)
            | Some e \<Rightarrow> ((atom, None), grab_slot t (atom_slot atom)))
      else ((atom, None), t))"

definition release_atom :: "atom_table \<Rightarrow> u32 \<Rightarrow> u32 option \<times> atom_table" where
  "release_atom t atom = (if atom \<ge> MIN_STR_ATOM then delete_atom t atom else (None, t))"

section \<open>The two tables of the server\<close>

record atom_server =
  global_table :: "atom_table option"
  user_table :: "atom_table option"

definition add_atom_asciiz :: "casemap \<Rightarrow> string \<Rightarrow> atom_table \<Rightarrow> atom_table" where
  "add_atom_asciiz cm name t = snd (add_atom cm t (map of_char name))"

definition global_names :: "string list" where
  "global_names =
     [''StdExit'', ''StdNewDocument'', ''StdOpenDocument'', ''StdEditDocument'',
      ''StdNewfromTemplate'', ''StdCloseDocument'', ''StdShowItem'', ''StdDoVerbItem'',
      ''System'', ''OLEsystem'', ''StdDocumentName'', ''Protocols'', ''Topics'', ''Formats'',
      ''Status'', ''EditEnvItems'', ''True'', ''False'', ''Change'', ''Save'', ''Close'',
      ''MSDraw'', ''CC32SubclassInfo'']"

definition user_names :: "string list" where
  "user_names =
     [''USER32'', ''ObjectLink'', ''OwnerLink'', ''Native'', ''Binary'', ''FileName'',
      ''FileNameW'', ''NetworkName'', ''DataObject'', ''Embedded Object'', ''Embed Source'',
      ''Custom Link Source'', ''Link Source'', ''Object Descriptor'',
      ''Link Source Descriptor'', ''OleDraw'', ''PBrush'', ''MSDraw'', ''Ole Private Data'',
      ''Screen Picture'', ''OleClipboardPersistOnFlush'', ''MoreOlePrivateData'', ''Button'',
      ''Edit'', ''Static'', ''ListBox'', ''ScrollBar'', ''ComboBox'']"

definition set_global_atom_table :: "casemap \<Rightarrow> atom_server \<Rightarrow> atom_table \<Rightarrow> atom_server" where
  "set_global_atom_table cm s t =
     s\<lparr>global_table := Some (fold (add_atom_asciiz cm) global_names t)\<rparr>"

definition set_user_atom_table :: "casemap \<Rightarrow> atom_server \<Rightarrow> atom_table \<Rightarrow> atom_server" where
  "set_user_atom_table cm s t =
     s\<lparr>user_table := Some (fold (add_atom_asciiz cm) user_names t)\<rparr>"

text \<open>
  The requests.  A request on a table that was never set dereferences NULL, which is \<^const>\<open>None\<close>,
  except where \<^const>\<open>get_atom_entry\<close> tests the pointer.
\<close>

definition add_atom_request :: "casemap \<Rightarrow> atom_server \<Rightarrow> wstr \<Rightarrow> (reply \<times> atom_server) option" where
  "add_atom_request cm s name = (case global_table s of
     None \<Rightarrow> None
   | Some t \<Rightarrow> let (r, t') = add_atom cm t name in Some (r, s\<lparr>global_table := Some t'\<rparr>))"

definition delete_atom_request :: "atom_server \<Rightarrow> u32 \<Rightarrow> u32 option \<times> atom_server" where
  "delete_atom_request s atom = (case global_table s of
     None \<Rightarrow> (Some STATUS_INVALID_HANDLE, s)
   | Some t \<Rightarrow> let (r, t') = delete_atom t atom in (r, s\<lparr>global_table := Some t'\<rparr>))"

definition find_atom_request :: "casemap \<Rightarrow> atom_server \<Rightarrow> wstr \<Rightarrow> reply option" where
  "find_atom_request cm s name = map_option (\<lambda>t. find_atom cm t name) (global_table s)"

text \<open>Name bytes, count and total length in bytes; \<open>Inl\<close> is the error.\<close>

definition wstr_bytes :: "wstr \<Rightarrow> bytes" where
  "wstr_bytes s = concat (map (\<lambda>c. [ucast c, ucast (drop_bit 8 c)]) s)"

definition get_atom_information :: "atom_server \<Rightarrow> u32 \<Rightarrow> nat \<Rightarrow> u32 + (bytes \<times> u32 \<times> nat)" where
  "get_atom_information s atom max_size =
     (case Option.bind (global_table s) (\<lambda>t. get_atom_entry t atom) of
        None \<Rightarrow> Inl STATUS_INVALID_HANDLE
      | Some e \<Rightarrow> Inr (take max_size (wstr_bytes (str e)), refs e, 2 * length (str e)))"

definition add_user_atom_request ::
    "casemap \<Rightarrow> atom_server \<Rightarrow> wstr \<Rightarrow> (reply \<times> atom_server) option" where
  "add_user_atom_request cm s name = (case user_table s of
     None \<Rightarrow> None
   | Some t \<Rightarrow> let (r, t') = add_atom cm t name in Some (r, s\<lparr>user_table := Some t'\<rparr>))"

definition get_user_atom_name :: "atom_server \<Rightarrow> u32 \<Rightarrow> nat \<Rightarrow> u32 + (bytes \<times> nat)" where
  "get_user_atom_name s atom max_size =
     (case Option.bind (user_table s) (\<lambda>t. get_atom_entry t atom) of
        None \<Rightarrow> Inl STATUS_INVALID_HANDLE
      | Some e \<Rightarrow> Inr (take max_size (wstr_bytes (str e)), 2 * length (str e)))"

section \<open>The strings\<close>

lemma memicmp_strW_zero:
  "length a = length b \<Longrightarrow> memicmp_strW cm a b = 0 \<longleftrightarrow> fold_name cm a = fold_name cm b"
  by (induction a b rule: list_induct2)
     (auto simp: fold_name_def Let_def word_eq_iff_unsigned [where 'a = int])

lemma same_name_iff [simp]:
  "same_name cm name (Some e) \<longleftrightarrow> fold_name cm (str e) = fold_name cm name"
  "\<not> same_name cm name None"
  using memicmp_strW_zero [of "str e" name cm] map_eq_imp_length_eq [of "to_lower cm" "str e" "to_lower cm" name]
  by (auto simp: same_name_def fold_name_def)

lemma hash_loop_fold: "hash_loop cm h s = foldl (\<lambda>h c. h * 65599 + ucast c) h (fold_name cm s)"
  by (induction s arbitrary: h) (auto simp: fold_name_def)

lemma hash_strW_cong: "fold_name cm a = fold_name cm b \<Longrightarrow> hash_strW cm a n = hash_strW cm b n"
  by (simp add: hash_strW_def hash_loop_fold)

section \<open>The invariant of a table\<close>

definition atom_inv :: "casemap \<Rightarrow> atom_table \<Rightarrow> bool" where
  "atom_inv cm t \<longleftrightarrow>
     1 \<le> used t \<and> used t \<le> MAX_ATOMS \<and>
     (\<forall>i e. atoms t i = Some e \<longrightarrow>
        1 \<le> i \<and> i < used t \<and> bucket e = hash_strW cm (str e) HASH_SIZE) \<and>
     (\<forall>h. distinct (entries t h)) \<and>
     (\<forall>h i. i \<in> set (entries t h) \<longleftrightarrow> (\<exists>e. atoms t i = Some e \<and> bucket e = h)) \<and>
     (\<forall>i j e f. atoms t i = Some e \<longrightarrow> atoms t j = Some f \<longrightarrow>
        fold_name cm (str e) = fold_name cm (str f) \<longrightarrow> i = j)"

lemma atom_invD:
  assumes "atom_inv cm t"
  shows "1 \<le> used t" "used t \<le> MAX_ATOMS"
    "atoms t i = Some e \<Longrightarrow> 1 \<le> i \<and> i < used t \<and> bucket e = hash_strW cm (str e) HASH_SIZE"
    "distinct (entries t h)"
    "i \<in> set (entries t h) \<longleftrightarrow> (\<exists>e. atoms t i = Some e \<and> bucket e = h)"
    "\<lbrakk>atoms t i = Some e; atoms t j = Some f; fold_name cm (str e) = fold_name cm (str f)\<rbrakk> \<Longrightarrow> i = j"
  using assms unfolding atom_inv_def by blast+

lemma atom_invI:
  assumes "1 \<le> used t" "used t \<le> MAX_ATOMS"
    "\<And>i e. atoms t i = Some e \<Longrightarrow>
       1 \<le> i \<and> i < used t \<and> bucket e = hash_strW cm (str e) HASH_SIZE"
    "\<And>h. distinct (entries t h)"
    "\<And>h i. i \<in> set (entries t h) \<longleftrightarrow> (\<exists>e. atoms t i = Some e \<and> bucket e = h)"
    "\<And>i j e f. \<lbrakk>atoms t i = Some e; atoms t j = Some f;
       fold_name cm (str e) = fold_name cm (str f)\<rbrakk> \<Longrightarrow> i = j"
  shows "atom_inv cm t"
  unfolding atom_inv_def using assms by blast

lemma create_inv: "atom_inv cm (create_atom_table script)"
  by (rule atom_invI) (auto simp: create_atom_table_def MAX_ATOMS_def)

lemma unat_MIN_STR_ATOM: "unat MIN_STR_ATOM = 0xc000"
  by (simp add: MIN_STR_ATOM_def)

lemma atom_slot_of_nat: "i < 2 ^ 32 \<Longrightarrow> atom_slot (of_nat i + MIN_STR_ATOM) = i"
  by (simp add: atom_slot_def unat_of_nat_u32)

lemma get_atom_entry_inv:
  assumes inv: "atom_inv cm t"
  shows "get_atom_entry t atom = atoms t (atom_slot atom)"
proof (cases "MIN_STR_ATOM \<le> atom \<and> atom < MIN_STR_ATOM + of_nat (used t)")
  case False
  have used: "used t \<le> 0x4000"
    using atom_invD(2) [OF inv] by (simp add: MAX_ATOMS_def)
  have sum: "unat (MIN_STR_ATOM + of_nat (used t)) = 0xc000 + used t"
    using used by (simp add: unat_MIN_STR_ATOM unat_add_noov unat_of_nat_u32)
  have "\<not> atom_slot atom < used t"
  proof
    assume less: "atom_slot atom < used t"
    have "unat atom = unat ((atom - MIN_STR_ATOM) + MIN_STR_ATOM)"
      by simp
    also have "\<dots> = atom_slot atom + 0xc000"
      using less used unfolding atom_slot_def
      by (subst unat_add_noov) (simp_all add: unat_MIN_STR_ATOM)
    finally have eq: "unat atom = atom_slot atom + 0xc000" .
    then have "MIN_STR_ATOM \<le> atom \<and> atom < MIN_STR_ATOM + of_nat (used t)"
      using less by (simp add: word_le_nat_alt word_less_nat_alt sum unat_MIN_STR_ATOM)
    then show False using False by simp
  qed
  then have "atoms t (atom_slot atom) = None"
    using atom_invD(3) [OF inv, of "atom_slot atom"] by (cases "atoms t (atom_slot atom)") auto
  with False show ?thesis by (auto simp: get_atom_entry_def)
qed (auto simp: get_atom_entry_def)

lemma find_atom_entry_Some:
  assumes inv: "atom_inv cm t"
  shows "find_atom_entry cm t name (hash_strW cm name HASH_SIZE) = Some i \<longleftrightarrow>
     (\<exists>e. atoms t i = Some e \<and> fold_name cm (str e) = fold_name cm name)" (is "?l = _ \<longleftrightarrow> ?r i")
proof -
  have mem: "i \<in> set (entries t (hash_strW cm name HASH_SIZE))" if "?r i" for i
    using that atom_invD(3,5) [OF inv] by (metis hash_strW_cong)
  have sound: "?r i" if "?l = Some i" for i
  proof -
    have "same_name cm name (atoms t i)"
      using that unfolding find_atom_entry_def by (auto simp: find_Some_iff)
    then show ?thesis by (cases "atoms t i") auto
  qed
  have complete: "?l = Some i" if r: "?r i" for i
  proof (cases ?l)
    case None
    with mem [OF r] r show ?thesis
      unfolding find_atom_entry_def find_None_iff by force
  next
    case (Some j)
    from sound [OF this] r have "j = i"
      using atom_invD(6) [OF inv] by fastforce
    with Some show ?thesis by simp
  qed
  show ?thesis using sound complete by blast
qed
section \<open>The abstract atom table\<close>

text \<open>
  What the table promises: a partial map from case-folded names to the slot of the atom,
  its reference count and the spelling it was first added with.  A new name takes the least
  slot that no name holds; slot 0 is reserved.
\<close>

type_synonym spec = "wstr \<Rightarrow> (nat \<times> u32 \<times> wstr) option"

definition spec_slots :: "spec \<Rightarrow> nat set" where
  "spec_slots m = {i. \<exists>k c n. m k = Some (i, c, n)}"

definition fresh_slot :: "spec \<Rightarrow> nat" where
  "fresh_slot m = (LEAST i. 1 \<le> i \<and> i \<notin> spec_slots m)"

definition holder :: "spec \<Rightarrow> nat \<Rightarrow> wstr" where
  "holder m i = (THE k. \<exists>c n. m k = Some (i, c, n))"

definition spec_entry :: "spec \<Rightarrow> u32 \<Rightarrow> (nat \<times> u32 \<times> wstr) option" where
  "spec_entry m atom =
     (if atom_slot atom \<in> spec_slots m then m (holder m (atom_slot atom)) else None)"

datatype atom_op = Add wstr | Find wstr | Grab u32 | Release u32 | Delete u32 | Info u32

datatype answer = Atom reply | Done "u32 option" | Described "(wstr \<times> u32) option"

fun spec_new :: "casemap \<Rightarrow> spec \<Rightarrow> bool list \<Rightarrow> wstr \<Rightarrow> answer \<times> spec \<times> bool list" where
  "spec_new cm m [] name = (Atom (0, Some STATUS_NO_MEMORY), m, [])"
| "spec_new cm m (ok # script) name =
     (if ok \<and> fresh_slot m < MAX_ATOMS
      then (Atom (of_nat (fresh_slot m) + MIN_STR_ATOM, None),
            m(fold_name cm name \<mapsto> (fresh_slot m, 1, name)), script)
      else (Atom (0, Some STATUS_NO_MEMORY), m, script))"

definition spec_drop :: "spec \<Rightarrow> u32 \<Rightarrow> u32 option \<times> spec" where
  "spec_drop m atom = (case spec_entry m atom of
     None \<Rightarrow> (Some STATUS_INVALID_HANDLE, m)
   | Some (i, c, n) \<Rightarrow>
       (None, m(holder m i := (if c - 1 = 0 then None else Some (i, c - 1, n)))))"

fun spec_step :: "casemap \<Rightarrow> spec \<times> bool list \<Rightarrow> atom_op \<Rightarrow> answer \<times> spec \<times> bool list" where
  "spec_step cm (m, script) (Add name) = (case name_check name of
     Some err \<Rightarrow> (Atom (0, Some err), m, script)
   | None \<Rightarrow>
       if get_int_atom_value name \<noteq> 0 then (Atom (get_int_atom_value name, None), m, script)
       else case m (fold_name cm name) of
              Some (i, c, n) \<Rightarrow>
                (Atom (of_nat i + MIN_STR_ATOM, None),
                 m(fold_name cm name \<mapsto> (i, c + 1, n)), script)
            | None \<Rightarrow> spec_new cm m script name)"
| "spec_step cm (m, script) (Find name) = (case name_check name of
     Some err \<Rightarrow> (Atom (0, Some err), m, script)
   | None \<Rightarrow>
       if get_int_atom_value name \<noteq> 0 then (Atom (get_int_atom_value name, None), m, script)
       else case m (fold_name cm name) of
              Some (i, c, n) \<Rightarrow> (Atom (of_nat i + MIN_STR_ATOM, None), m, script)
            | None \<Rightarrow> (Atom (0, Some STATUS_OBJECT_NAME_NOT_FOUND), m, script))"
| "spec_step cm (m, script) (Grab atom) =
     (if atom < MIN_STR_ATOM then (Atom (atom, None), m, script)
      else case spec_entry m atom of
             None \<Rightarrow> (Atom (0, Some STATUS_INVALID_HANDLE), m, script)
           | Some (i, c, n) \<Rightarrow> (Atom (atom, None), m(holder m i \<mapsto> (i, c + 1, n)), script))"
| "spec_step cm (m, script) (Release atom) =
     (if atom < MIN_STR_ATOM then (Done None, m, script)
      else let (r, m') = spec_drop m atom in (Done r, m', script))"
| "spec_step cm (m, script) (Delete atom) =
     (let (r, m') = spec_drop m atom in (Done r, m', script))"
| "spec_step cm (m, script) (Info atom) =
     (Described (map_option (\<lambda>(i, c, n). (n, c)) (spec_entry m atom)), m, script)"

fun spec_run :: "casemap \<Rightarrow> spec \<times> bool list \<Rightarrow> atom_op list \<Rightarrow> answer list" where
  "spec_run cm s [] = []"
| "spec_run cm s (q # qs) = (let (r, s') = spec_step cm s q in r # spec_run cm s' qs)"

fun atom_step :: "casemap \<Rightarrow> atom_table \<Rightarrow> atom_op \<Rightarrow> answer \<times> atom_table" where
  "atom_step cm t (Add name) = (let (r, t') = add_atom cm t name in (Atom r, t'))"
| "atom_step cm t (Find name) = (Atom (find_atom cm t name), t)"
| "atom_step cm t (Grab atom) = (let (r, t') = grab_atom t atom in (Atom r, t'))"
| "atom_step cm t (Release atom) = (let (r, t') = release_atom t atom in (Done r, t'))"
| "atom_step cm t (Delete atom) = (let (r, t') = delete_atom t atom in (Done r, t'))"
| "atom_step cm t (Info atom) =
     (Described (map_option (\<lambda>e. (str e, refs e)) (get_atom_entry t atom)), t)"

fun atom_run :: "casemap \<Rightarrow> atom_table \<Rightarrow> atom_op list \<Rightarrow> answer list" where
  "atom_run cm t [] = []"
| "atom_run cm t (q # qs) = (let (r, t') = atom_step cm t q in r # atom_run cm t' qs)"

section \<open>Simulation\<close>

definition abs_rel :: "casemap \<Rightarrow> atom_table \<Rightarrow> spec \<Rightarrow> bool" where
  "abs_rel cm t m \<longleftrightarrow> atom_inv cm t \<and>
     (\<forall>k i c n. m k = Some (i, c, n) \<longleftrightarrow>
        (\<exists>e. atoms t i = Some e \<and> fold_name cm (str e) = k \<and> refs e = c \<and> str e = n))"

lemma abs_relD:
  assumes "abs_rel cm t m"
  shows "atom_inv cm t"
    "m k = Some (i, c, n) \<longleftrightarrow>
       (\<exists>e. atoms t i = Some e \<and> fold_name cm (str e) = k \<and> refs e = c \<and> str e = n)"
  using assms unfolding abs_rel_def by blast+

lemma abs_rel_slots: "abs_rel cm t m \<Longrightarrow> i \<in> spec_slots m \<longleftrightarrow> atoms t i \<noteq> None"
  unfolding spec_slots_def by (auto simp: abs_relD(2))

lemma abs_rel_holder:
  assumes "abs_rel cm t m" "atoms t i = Some e"
  shows "holder m i = fold_name cm (str e)"
  unfolding holder_def using assms by (auto simp: abs_relD(2) intro!: the_equality)

lemma abs_rel_lookup:
  assumes "abs_rel cm t m" "atoms t i = Some e"
  shows "m (fold_name cm (str e)) = Some (i, refs e, str e)"
  using assms by (simp add: abs_relD(2))

lemma abs_rel_entry:
  assumes rel: "abs_rel cm t m"
  shows "spec_entry m atom =
    map_option (\<lambda>e. (atom_slot atom, refs e, str e)) (get_atom_entry t atom)"
  unfolding get_atom_entry_inv [OF abs_relD(1) [OF rel]] spec_entry_def
  by (cases "atoms t (atom_slot atom)")
     (auto simp: abs_rel_slots [OF rel] abs_rel_holder [OF rel] abs_rel_lookup [OF rel])

lemma abs_rel_find:
  assumes rel: "abs_rel cm t m"
  shows "find_atom_entry cm t name (hash_strW cm name HASH_SIZE) =
    map_option fst (m (fold_name cm name))"
proof (cases "m (fold_name cm name)")
  case None
  then have "\<not> (\<exists>e. atoms t i = Some e \<and> fold_name cm (str e) = fold_name cm name)" for i
    using abs_rel_lookup [OF rel] by (metis option.distinct(1))
  then have "find_atom_entry cm t name (hash_strW cm name HASH_SIZE) \<noteq> Some i" for i
    using find_atom_entry_Some [OF abs_relD(1) [OF rel], of name i] by blast
  with None show ?thesis
    by (cases "find_atom_entry cm t name (hash_strW cm name HASH_SIZE)") auto
next
  case (Some p)
  obtain i c n where p: "p = (i, c, n)" by (cases p)
  have "\<exists>e. atoms t i = Some e \<and> fold_name cm (str e) = fold_name cm name"
    using Some abs_relD(2) [OF rel] unfolding p by blast
  then have "find_atom_entry cm t name (hash_strW cm name HASH_SIZE) = Some i"
    using find_atom_entry_Some [OF abs_relD(1) [OF rel], of name i] by blast
  with Some p show ?thesis by simp
qed

text \<open>Changing the reference count of an entry keeps everything else of the table.\<close>

lemma atom_inv_same:
  assumes inv: "atom_inv cm t" and same: "used t' = used t" "entries t' = entries t"
    and maps: "\<And>j. map_option (\<lambda>f. (bucket f, str f)) (atoms t' j) =
      map_option (\<lambda>f. (bucket f, str f)) (atoms t j)"
  shows "atom_inv cm t'"
proof -
  have down: "\<exists>f0. atoms t j = Some f0 \<and> bucket f0 = bucket f \<and> str f0 = str f"
    if "atoms t' j = Some f" for j f
    using maps [of j] that by (cases "atoms t j") auto
  have up: "\<exists>f. atoms t' j = Some f \<and> bucket f = bucket f0 \<and> str f = str f0"
    if "atoms t j = Some f0" for j f0
    using maps [of j] that by (cases "atoms t' j") auto
  show ?thesis
  proof (rule atom_invI)
    show "1 \<le> used t'" "used t' \<le> MAX_ATOMS"
      using atom_invD(1,2) [OF inv] same by simp_all
    show "1 \<le> i \<and> i < used t' \<and> bucket e = hash_strW cm (str e) HASH_SIZE"
      if "atoms t' i = Some e" for i e
      using down [OF that] atom_invD(3) [OF inv] same by metis
    show "distinct (entries t' h)" for h
      using atom_invD(4) [OF inv] same by simp
    show "i \<in> set (entries t' h) \<longleftrightarrow> (\<exists>e. atoms t' i = Some e \<and> bucket e = h)" for h i
      unfolding same atom_invD(5) [OF inv] using down up by metis
    show "i = j" if "atoms t' i = Some e" "atoms t' j = Some f"
      "fold_name cm (str e) = fold_name cm (str f)" for i j e f
      using down [OF that(1)] down [OF that(2)] that(3) atom_invD(6) [OF inv] by metis
  qed
qed

lemma abs_rel_unique:
  assumes rel: "abs_rel cm t m" and e: "atoms t i = Some e"
    and k: "m k = Some (j, c, n)"
  shows "j = i \<longleftrightarrow> k = fold_name cm (str e)"
proof
  assume "j = i"
  then show "k = fold_name cm (str e)" using k abs_relD(2) [OF rel, of k j c n] e by auto
next
  assume "k = fold_name cm (str e)"
  then show "j = i" using k abs_rel_lookup [OF rel e] by simp
qed

lemma abs_rel_refs:
  assumes rel: "abs_rel cm t m" and e: "atoms t i = Some e"
  shows "abs_rel cm (t\<lparr>atoms := (atoms t)(i \<mapsto> e\<lparr>refs := c\<rparr>)\<rparr>)
    (m(fold_name cm (str e) \<mapsto> (i, c, str e)))" (is "abs_rel cm ?t ?m")
proof -
  have "atom_inv cm ?t"
    by (rule atom_inv_same [OF abs_relD(1) [OF rel]]) (use e in auto)
  moreover have "?m k = Some (j, d, n) \<longleftrightarrow>
      (\<exists>f. atoms ?t j = Some f \<and> fold_name cm (str f) = k \<and> refs f = d \<and> str f = n)" for k j d n
  proof (cases "j = i")
    case True
    then show ?thesis using abs_rel_unique [OF rel e, of k i d n] by auto
  next
    case False
    then show ?thesis using abs_rel_unique [OF rel e, of k j d n] abs_relD(2) [OF rel, of k j d n] by auto
  qed
  ultimately show ?thesis unfolding abs_rel_def by blast
qed

lemma inv_remove:
  assumes inv: "atom_inv cm t" and e: "atoms t i = Some e"
  shows "atom_inv cm (t\<lparr>entries := (entries t)(bucket e := remove1 i (entries t (bucket e))),
      atoms := (atoms t)(i := None)\<rparr>)" (is "atom_inv cm ?t")
proof (rule atom_invI)
  show "1 \<le> used ?t" "used ?t \<le> MAX_ATOMS"
    using atom_invD(1,2) [OF inv] by simp_all
  show "1 \<le> j \<and> j < used ?t \<and> bucket f = hash_strW cm (str f) HASH_SIZE"
    if "atoms ?t j = Some f" for j f
    using atom_invD(3) [OF inv, of j f] that by (auto split: if_splits)
  show "distinct (entries ?t h)" for h
    using atom_invD(4) [OF inv] by simp
  show "j \<in> set (entries ?t h) \<longleftrightarrow> (\<exists>f. atoms ?t j = Some f \<and> bucket f = h)" for h j
    using atom_invD(5) [OF inv, of j h] atom_invD(4) [OF inv, of h] e by auto
  show "j = k" if "atoms ?t j = Some f" "atoms ?t k = Some g"
    "fold_name cm (str f) = fold_name cm (str g)" for j k f g
    using atom_invD(6) [OF inv, of j f k g] that by (auto split: if_splits)
qed

lemma abs_rel_remove:
  assumes rel: "abs_rel cm t m" and e: "atoms t i = Some e"
  shows "abs_rel cm (t\<lparr>entries := (entries t)(bucket e := remove1 i (entries t (bucket e))),
      atoms := (atoms t)(i := None)\<rparr>) (m(fold_name cm (str e) := None))" (is "abs_rel cm ?t ?m")
proof -
  have "?m k = Some (j, d, n) \<longleftrightarrow>
      (\<exists>f. atoms ?t j = Some f \<and> fold_name cm (str f) = k \<and> refs f = d \<and> str f = n)" for k j d n
  proof (cases "j = i")
    case True
    then show ?thesis using abs_rel_unique [OF rel e, of k i d n] by auto
  next
    case False
    then show ?thesis using abs_rel_unique [OF rel e, of k j d n] abs_relD(2) [OF rel, of k j d n] by auto
  qed
  then show ?thesis unfolding abs_rel_def using inv_remove [OF abs_relD(1) [OF rel] e] by blast
qed

section \<open>Adding a name\<close>

lemma scan_slot_Least:
  "(\<forall>j \<ge> n. a j = None) \<Longrightarrow> i \<le> n \<Longrightarrow> scan_slot a n i = (LEAST j. i \<le> j \<and> a j = None)"
proof (induction a n i rule: scan_slot.induct)
  case (1 a n i)
  show ?case
  proof (cases "i < n \<and> a i \<noteq> None")
    case True
    have "scan_slot a n i = (LEAST j. i + 1 \<le> j \<and> a j = None)"
      using 1 True by (simp add: scan_slot.simps [of a n i])
    also have "\<dots> = (LEAST j. i \<le> j \<and> a j = None)"
      using True by (intro arg_cong [of _ _ Least] ext) (auto simp: Suc_le_eq le_less)
    finally show ?thesis .
  next
    case False
    then have "a i = None" using 1(2,3) by (cases "i < n") auto
    then have "(LEAST j. i \<le> j \<and> a j = None) = i"
      by (intro Least_equality) auto
    with False show ?thesis by (auto simp: scan_slot.simps [of a n i])
  qed
qed

lemma scan_slot_fresh:
  assumes rel: "abs_rel cm t m"
  shows "scan_slot (atoms t) (used t) 1 = fresh_slot m"
proof -
  have "\<forall>j \<ge> used t. atoms t j = None"
    using atom_invD(3) [OF abs_relD(1) [OF rel]] by (meson not_None_eq not_less)
  then show ?thesis
    using atom_invD(1) [OF abs_relD(1) [OF rel]]
    by (subst scan_slot_Least) (auto simp: fresh_slot_def abs_rel_slots [OF rel])
qed

lemma fresh_slot_props:
  assumes rel: "abs_rel cm t m"
  shows "1 \<le> fresh_slot m" "atoms t (fresh_slot m) = None" "fresh_slot m \<le> used t"
proof -
  have bound: "1 \<le> used t \<and> used t \<notin> spec_slots m"
    using atom_invD(1) [OF abs_relD(1) [OF rel]] atom_invD(3) [OF abs_relD(1) [OF rel], of "used t"]
    by (cases "atoms t (used t)") (auto simp: abs_rel_slots [OF rel])
  show "fresh_slot m \<le> used t"
    unfolding fresh_slot_def by (rule Least_le) (rule bound)
  show "1 \<le> fresh_slot m" "atoms t (fresh_slot m) = None"
    using LeastI [of "\<lambda>i. 1 \<le> i \<and> i \<notin> spec_slots m", OF bound]
    by (simp_all add: fresh_slot_def abs_rel_slots [OF rel])
qed

definition insert_entry :: "atom_table \<Rightarrow> nat \<Rightarrow> nat \<Rightarrow> wstr \<Rightarrow> atom_table" where
  "insert_entry t i hash name =
     t\<lparr>used := (if i = used t then used t + 1 else used t),
       atoms := (atoms t)(i \<mapsto> \<lparr>refs = 1, bucket = hash, str = name\<rparr>),
       entries := (entries t)(hash := i # entries t hash)\<rparr>"

lemma inv_insert:
  assumes rel: "abs_rel cm t m" and new: "m (fold_name cm name) = None"
    and room: "fresh_slot m < MAX_ATOMS"
  shows "atom_inv cm (insert_entry t (fresh_slot m) (hash_strW cm name HASH_SIZE) name)"
    (is "atom_inv cm ?t")
proof (rule atom_invI)
  note inv = abs_relD(1) [OF rel]
  note fresh = fresh_slot_props [OF rel]
  have other: "fold_name cm (str f) \<noteq> fold_name cm name" if "atoms t j = Some f" for j f
    using abs_rel_lookup [OF rel that] new by auto
  show "1 \<le> used ?t" "used ?t \<le> MAX_ATOMS"
    using atom_invD(1,2) [OF inv] room by (auto simp: insert_entry_def)
  show "1 \<le> j \<and> j < used ?t \<and> bucket f = hash_strW cm (str f) HASH_SIZE"
    if "atoms ?t j = Some f" for j f
    using atom_invD(3) [OF inv, of j f] that fresh by (auto simp: insert_entry_def split: if_splits)
  have notin: "fresh_slot m \<notin> set (entries t h)" for h
    using atom_invD(5) [OF inv] fresh(2) by simp
  show "distinct (entries ?t h)" for h
    using atom_invD(4) [OF inv] notin by (simp add: insert_entry_def)
  show "j \<in> set (entries ?t h) \<longleftrightarrow> (\<exists>f. atoms ?t j = Some f \<and> bucket f = h)" for h j
    using atom_invD(5) [OF inv, of j h] fresh(2) by (auto simp: insert_entry_def)
  show "j = k" if "atoms ?t j = Some f" "atoms ?t k = Some g"
    "fold_name cm (str f) = fold_name cm (str g)" for j k f g
    using atom_invD(6) [OF inv, of j f k g] that other [of j f] other [of k g]
    by (auto simp: insert_entry_def split: if_splits)
qed

lemma abs_rel_insert:
  assumes rel: "abs_rel cm t m" and new: "m (fold_name cm name) = None"
    and room: "fresh_slot m < MAX_ATOMS"
  shows "abs_rel cm (insert_entry t (fresh_slot m) (hash_strW cm name HASH_SIZE) name)
    (m(fold_name cm name \<mapsto> (fresh_slot m, 1, name)))" (is "abs_rel cm ?t ?m")
proof -
  have "?m k = Some (j, d, n) \<longleftrightarrow>
      (\<exists>f. atoms ?t j = Some f \<and> fold_name cm (str f) = k \<and> refs f = d \<and> str f = n)" for k j d n
  proof (cases "j = fresh_slot m")
    case True
    have "m k \<noteq> Some (j, d, n)"
      using abs_relD(2) [OF rel, of k j d n] fresh_slot_props(2) [OF rel] True by auto
    then show ?thesis using True by (auto simp: insert_entry_def)
  next
    case False
    then show ?thesis
      using abs_relD(2) [OF rel, of k j d n] new by (auto simp: insert_entry_def)
  qed
  then show ?thesis unfolding abs_rel_def using inv_insert [OF assms] by blast
qed

lemma abs_rel_allocs [simp]: "abs_rel cm (t\<lparr>allocs := script\<rparr>) m \<longleftrightarrow> abs_rel cm t m"
  by (simp add: abs_rel_def atom_inv_def)

lemma new_atom_sim:
  assumes rel: "abs_rel cm t m" and new: "m (fold_name cm name) = None"
  shows "case new_atom cm t name (hash_strW cm name HASH_SIZE) of (r, t') \<Rightarrow>
    \<exists>m'. spec_new cm m (allocs t) name = (Atom r, m', allocs t') \<and> abs_rel cm t' m'"
proof (cases "allocs t")
  case Nil
  then show ?thesis using rel by (simp add: new_atom_def mem_alloc_def)
next
  case (Cons ok script)
  have rel': "abs_rel cm (t\<lparr>allocs := script\<rparr>) m" using rel by simp
  have bound: "fresh_slot m \<le> MAX_ATOMS"
    using fresh_slot_props(3) [OF rel] atom_invD(2) [OF abs_relD(1) [OF rel]] by simp
  have scan: "scan_slot (atoms t) (used t) (Suc 0) = fresh_slot m"
    using scan_slot_fresh [OF rel] by simp
  show ?thesis
  proof (cases "ok \<and> fresh_slot m < MAX_ATOMS")
    case True
    have "unat (of_nat (fresh_slot m) + MIN_STR_ATOM) = fresh_slot m + 0xc000"
      using True by (simp add: unat_add_noov unat_of_nat_u32 unat_MIN_STR_ATOM MAX_ATOMS_def)
    then have nz: "of_nat (fresh_slot m) + MIN_STR_ATOM \<noteq> 0"
      by (metis add_is_0 unsigned_0 zero_neq_numeral)
    have "atom_slot (of_nat (fresh_slot m) + MIN_STR_ATOM) = fresh_slot m"
      using True by (intro atom_slot_of_nat) (simp add: MAX_ATOMS_def)
    then have "new_atom cm t name (hash_strW cm name HASH_SIZE) =
        ((of_nat (fresh_slot m) + MIN_STR_ATOM, None),
         insert_entry (t\<lparr>allocs := script\<rparr>) (fresh_slot m) (hash_strW cm name HASH_SIZE) name)"
      using True Cons nz
      by (simp add: new_atom_def mem_alloc_def add_atom_entry_def Let_def scan insert_entry_def)
    then show ?thesis
      using Cons True abs_rel_insert [OF rel' new] by (simp add: insert_entry_def)
  next
    case False
    then show ?thesis
      using Cons rel bound
      by (auto simp: new_atom_def mem_alloc_def add_atom_entry_def Let_def scan)
  qed
qed

lemma grab_slot_sim:
  assumes "abs_rel cm t m" "atoms t i = Some e"
  shows "abs_rel cm (grab_slot t i) (m(fold_name cm (str e) \<mapsto> (i, refs e + 1, str e)))"
  using abs_rel_refs [OF assms, of "refs e + 1"] assms(2) by (simp add: grab_slot_def)

lemma spec_drop_sim:
  assumes rel: "abs_rel cm t m"
  shows "case delete_atom t atom of (r, t') \<Rightarrow>
    \<exists>m'. spec_drop m atom = (r, m') \<and> abs_rel cm t' m' \<and> allocs t' = allocs t"
proof (cases "get_atom_entry t atom")
  case None
  then show ?thesis using rel by (simp add: delete_atom_def spec_drop_def abs_rel_entry [OF rel])
next
  case (Some e)
  then have e: "atoms t (atom_slot atom) = Some e"
    using get_atom_entry_inv [OF abs_relD(1) [OF rel]] by simp
  have "spec_drop m atom = (None, m(fold_name cm (str e) :=
      (if refs e - 1 = 0 then None else Some (atom_slot atom, refs e - 1, str e))))"
    using Some by (simp add: spec_drop_def abs_rel_entry [OF rel] abs_rel_holder [OF rel e])
  then show ?thesis
    using Some abs_rel_refs [OF rel e, of "refs e - 1"] abs_rel_remove [OF rel e]
    by (auto simp: delete_atom_def Let_def)
qed

lemma add_atom_sim:
  assumes rel: "abs_rel cm t m"
  shows "case add_atom cm t name of (r, t') \<Rightarrow>
    \<exists>m'. spec_step cm (m, allocs t) (Add name) = (Atom r, m', allocs t') \<and> abs_rel cm t' m'"
proof (cases "name_check name = None \<and> get_int_atom_value name = 0")
  case True
  show ?thesis
  proof (cases "m (fold_name cm name)")
    case None
    then show ?thesis
      using True new_atom_sim [OF rel None] abs_rel_find [OF rel, of name]
      by (auto simp: add_atom_def Let_def)
  next
    case (Some p)
    obtain i c n where p: "p = (i, c, n)" by (cases p)
    obtain e where e: "atoms t i = Some e" "fold_name cm (str e) = fold_name cm name"
        "refs e = c" "str e = n"
      using Some abs_relD(2) [OF rel] unfolding p by blast
    have "add_atom cm t name = ((of_nat i + MIN_STR_ATOM, None), grab_slot t i)"
      using True Some p abs_rel_find [OF rel, of name] by (simp add: add_atom_def Let_def)
    then show ?thesis
      using True Some p e grab_slot_sim [OF rel e(1)] by (simp add: grab_slot_def)
  qed
next
  case False
  then show ?thesis using rel by (auto simp: add_atom_def Let_def split: option.splits)
qed

lemma atom_step_sim:
  assumes rel: "abs_rel cm t m"
  shows "case atom_step cm t q of (r, t') \<Rightarrow>
    \<exists>m'. spec_step cm (m, allocs t) q = (r, m', allocs t') \<and> abs_rel cm t' m'"
proof (cases q)
  case (Add name)
  then show ?thesis using add_atom_sim [OF rel, of name] by (auto simp del: spec_step.simps split: prod.splits)
next
  case (Find name)
  then show ?thesis
    using rel abs_rel_find [OF rel, of name]
    by (auto simp: find_atom_def Let_def split: option.splits)
next
  case (Grab atom)
  show ?thesis
  proof (cases "get_atom_entry t atom")
    case None
    then show ?thesis
      using Grab rel by (auto simp: grab_atom_def abs_rel_entry [OF rel] not_le)
  next
    case (Some e)
    then have e: "atoms t (atom_slot atom) = Some e"
      using get_atom_entry_inv [OF abs_relD(1) [OF rel]] by simp
    then show ?thesis
      using Grab Some rel grab_slot_sim [OF rel e]
      by (auto simp: grab_atom_def abs_rel_entry [OF rel] abs_rel_holder [OF rel e] not_le
        grab_slot_def)
  qed
next
  case (Release atom)
  then show ?thesis
    using spec_drop_sim [OF rel, of atom] rel by (auto simp: release_atom_def not_le split: prod.splits)
next
  case (Delete atom)
  then show ?thesis
    using spec_drop_sim [OF rel, of atom] by (auto split: prod.splits)
next
  case (Info atom)
  then show ?thesis
    using rel by (auto simp: abs_rel_entry [OF rel] option.map_comp comp_def)
qed

lemma atom_run_sim: "abs_rel cm t m \<Longrightarrow> atom_run cm t qs = spec_run cm (m, allocs t) qs"
proof (induction qs arbitrary: t m)
  case (Cons q qs)
  from atom_step_sim [OF Cons.prems, of q] show ?case
    using Cons.IH by (auto simp: Let_def split: prod.splits)
qed simp

text \<open>
  C4: the atom table refines its specification.  For every case mapping, every pattern of
  allocation failures and every sequence of requests on a new table, the replies of the hashed
  implementation are those of the abstract map from case-folded names: a name that is present
  has its count raised and keeps its atom, a new one gets the least free string atom, the last
  release frees it, integer atoms bypass the table, and each failure reports the same status.
\<close>

theorem atom_table_refines:
  "atom_run cm (create_atom_table script) qs = spec_run cm ((\<lambda>_. None), script) qs"
proof -
  have "abs_rel cm (create_atom_table script) (\<lambda>_. None)"
    unfolding abs_rel_def using create_inv [of cm script] by (simp add: create_atom_table_def)
  from atom_run_sim [OF this] show ?thesis by (simp add: create_atom_table_def)
qed

end
