(* ===== verification/Wine_Objects.thy ===== *)
theory Wine_Objects
  imports Wine_Base "HOL-Library.Monad_Syntax"
begin

text \<open>
  Server objects and their access rights: the object header of \<^verbatim>\<open>wine/server/object.c\<close> and
  \<^verbatim>\<open>object.h\<close> with reference and handle counts, the type descriptors of semaphores, mutexes and
  events, generic access mapping, the access check of \<^verbatim>\<open>token.c\<close>, and the state that the handle
  tables of \<^verbatim>\<open>handle.c\<close> live in.

  An object is named by its address.  A result \<^const>\<open>None\<close> of an operation is a failed assertion
  or an access outside the memory the code owns; the theorems say when it cannot happen.
  Allocation outcomes are a script in the state; an exhausted script is exhausted memory.
  Object names, security descriptors and the callbacks of object types other than the ones above
  are parameters, the record \<open>env\<close>: a type's own \<open>map_access\<close>, the verdict of
  \<open>token_access_check\<close> on a descriptor, and the verdict of a type's \<open>close_handle\<close>.
\<close>

type_synonym addr = nat
type_synonym pid = nat
type_synonym handle = u32

section \<open>Types and access rights\<close>

datatype ops = Semaphore_ops | Semaphore_sync_ops | Mutex_ops | Mutex_sync_ops
  | Event_ops | Event_sync_ops | Context_ops | Directory_ops | Process_ops
  | Other_ops nat

datatype object_type = Semaphore_type | Mutex_type | Event_type | No_type | Other_type ops

fun type_of :: "ops \<Rightarrow> object_type" where
  "type_of Semaphore_ops = Semaphore_type"
| "type_of Mutex_ops = Mutex_type"
| "type_of Event_ops = Event_type"
| "type_of Semaphore_sync_ops = No_type"
| "type_of Mutex_sync_ops = No_type"
| "type_of Event_sync_ops = No_type"
| "type_of Context_ops = No_type"
| "type_of q = Other_type q"

definition DELETE :: u32 where "DELETE = 0x00010000"
definition READ_CONTROL :: u32 where "READ_CONTROL = 0x00020000"
definition SYNCHRONIZE :: u32 where "SYNCHRONIZE = 0x00100000"
definition STANDARD_RIGHTS_REQUIRED :: u32 where "STANDARD_RIGHTS_REQUIRED = 0x000f0000"
definition GENERIC_READ :: u32 where "GENERIC_READ = 0x80000000"
definition GENERIC_WRITE :: u32 where "GENERIC_WRITE = 0x40000000"
definition GENERIC_EXECUTE :: u32 where "GENERIC_EXECUTE = 0x20000000"
definition GENERIC_ALL :: u32 where "GENERIC_ALL = 0x10000000"
definition MAXIMUM_ALLOWED :: u32 where "MAXIMUM_ALLOWED = 0x02000000"
definition EVENT_QUERY_STATE :: u32 where "EVENT_QUERY_STATE = 1"
definition EVENT_MODIFY_STATE :: u32 where "EVENT_MODIFY_STATE = 2"
definition SEMAPHORE_QUERY_STATE :: u32 where "SEMAPHORE_QUERY_STATE = 1"
definition SEMAPHORE_MODIFY_STATE :: u32 where "SEMAPHORE_MODIFY_STATE = 2"
definition MUTANT_QUERY_STATE :: u32 where "MUTANT_QUERY_STATE = 1"

definition EVENT_ALL_ACCESS :: u32 where
  "EVENT_ALL_ACCESS = STANDARD_RIGHTS_REQUIRED OR SYNCHRONIZE OR 3"
definition SEMAPHORE_ALL_ACCESS :: u32 where
  "SEMAPHORE_ALL_ACCESS = STANDARD_RIGHTS_REQUIRED OR SYNCHRONIZE OR 3"
definition MUTANT_ALL_ACCESS :: u32 where
  "MUTANT_ALL_ACCESS = STANDARD_RIGHTS_REQUIRED OR SYNCHRONIZE OR MUTANT_QUERY_STATE"

lemmas right_defs = DELETE_def READ_CONTROL_def SYNCHRONIZE_def STANDARD_RIGHTS_REQUIRED_def
  GENERIC_READ_def GENERIC_WRITE_def GENERIC_EXECUTE_def GENERIC_ALL_def MAXIMUM_ALLOWED_def
  EVENT_QUERY_STATE_def EVENT_MODIFY_STATE_def SEMAPHORE_QUERY_STATE_def
  SEMAPHORE_MODIFY_STATE_def MUTANT_QUERY_STATE_def EVENT_ALL_ACCESS_def
  SEMAPHORE_ALL_ACCESS_def MUTANT_ALL_ACCESS_def

record generic_map =
  map_read :: u32
  map_write :: u32
  map_exec :: u32
  map_all :: u32

definition semaphore_type :: generic_map where
  "semaphore_type = \<lparr>map_read = READ_CONTROL OR SEMAPHORE_QUERY_STATE,
     map_write = READ_CONTROL OR SEMAPHORE_MODIFY_STATE,
     map_exec = READ_CONTROL OR SYNCHRONIZE, map_all = SEMAPHORE_ALL_ACCESS\<rparr>"

definition mutex_type :: generic_map where
  "mutex_type = \<lparr>map_read = READ_CONTROL OR MUTANT_QUERY_STATE,
     map_write = READ_CONTROL,
     map_exec = READ_CONTROL OR SYNCHRONIZE, map_all = MUTANT_ALL_ACCESS\<rparr>"

definition event_type :: generic_map where
  "event_type = \<lparr>map_read = READ_CONTROL OR EVENT_QUERY_STATE,
     map_write = READ_CONTROL OR EVENT_MODIFY_STATE,
     map_exec = READ_CONTROL OR SYNCHRONIZE, map_all = EVENT_ALL_ACCESS\<rparr>"

definition no_type :: generic_map where
  "no_type = \<lparr>map_read = READ_CONTROL, map_write = READ_CONTROL, map_exec = READ_CONTROL,
     map_all = STANDARD_RIGHTS_REQUIRED\<rparr>"

definition add_bits :: "u32 \<Rightarrow> u32 \<Rightarrow> u32 \<Rightarrow> u32" where
  "add_bits generic rights acc = (if has_bits acc generic then acc OR rights else acc)"

definition map_access :: "u32 \<Rightarrow> generic_map \<Rightarrow> u32" where
  "map_access acc m =
     add_bits GENERIC_ALL (map_all m) (add_bits GENERIC_EXECUTE (map_exec m)
       (add_bits GENERIC_WRITE (map_write m) (add_bits GENERIC_READ (map_read m) acc)))
     AND NOT (GENERIC_READ OR GENERIC_WRITE OR GENERIC_EXECUTE OR GENERIC_ALL)"

section \<open>State\<close>

record env =
  other_map_access :: "ops \<Rightarrow> u32 \<Rightarrow> u32"
  token_check :: "addr \<Rightarrow> addr \<Rightarrow> u32 \<Rightarrow> u32 option"
  may_close :: "addr \<Rightarrow> pid \<Rightarrow> handle \<Rightarrow> bool"

fun ops_map_access :: "env \<Rightarrow> ops \<Rightarrow> u32 \<Rightarrow> u32" where
  "ops_map_access E q acc = (case type_of q of
     Semaphore_type \<Rightarrow> map_access acc semaphore_type
   | Mutex_type \<Rightarrow> map_access acc mutex_type
   | Event_type \<Rightarrow> map_access acc event_type
   | No_type \<Rightarrow> map_access acc no_type
   | Other_type q' \<Rightarrow> other_map_access E q' acc)"

declare ops_map_access.simps [simp del]

record object =
  obj_ops :: ops
  refcount :: nat
  handle_count :: nat
  is_permanent :: bool
  has_sd :: bool

record type_count =
  handles_now :: nat
  handles_max :: nat

record handle_entry =
  ptr :: "addr option"
  access :: u32

text \<open>
  The entries of a table are a list as long as the allocation; a slot that was never written is
  \<^const>\<open>None\<close>.
\<close>

record handle_table =
  table_process :: "pid option"
  nr_entries :: int
  last_entry :: int
  free_from :: int
  entries :: "handle_entry option list"

record process =
  process_obj :: addr
  process_token :: addr
  handles :: "handle_table option"

record server =
  objs :: "addr \<Rightarrow> object option"
  next_obj :: addr
  memory :: "bool list"
  error :: u32
  procs :: "process list"
  global_table :: "handle_table option"
  cur_process :: pid
  cur_thread_obj :: addr
  cur_token :: "addr option"
  cur_impersonation :: "addr option"
  type_counts :: "object_type \<Rightarrow> type_count"
  dead :: "addr list"

definition set_error :: "u32 \<Rightarrow> server \<Rightarrow> server" where
  "set_error err s = s\<lparr>error := err\<rparr>"

definition assert_that :: "bool \<Rightarrow> unit option" where
  "assert_that b = (if b then Some () else None)"

definition malloc :: "server \<Rightarrow> bool \<times> server" where
  "malloc s = (case memory s of [] \<Rightarrow> (False, s) | ok # rest \<Rightarrow> (ok, s\<lparr>memory := rest\<rparr>))"

definition mem_alloc :: "server \<Rightarrow> bool \<times> server" where
  "mem_alloc s = (let (ok, s) = malloc s in if ok then (True, s) else (False, set_error STATUS_NO_MEMORY s))"

definition INT_MAX :: nat where "INT_MAX = 2147483647"

section \<open>References\<close>

definition upd_obj :: "addr \<Rightarrow> object \<Rightarrow> server \<Rightarrow> server" where
  "upd_obj a obj s = s\<lparr>objs := (objs s)(a \<mapsto> obj)\<rparr>"

definition alloc_object :: "ops \<Rightarrow> server \<Rightarrow> addr option \<times> server" where
  "alloc_object q s = (let (ok, s) = mem_alloc s in
     if ok
     then (Some (next_obj s),
           upd_obj (next_obj s)
             \<lparr>obj_ops = q, refcount = 1, handle_count = 0, is_permanent = False, has_sd = False\<rparr>
             (s\<lparr>next_obj := next_obj s + 1\<rparr>))
     else (None, s))"

definition grab_object :: "addr \<Rightarrow> server \<Rightarrow> server option" where
  "grab_object a s = do {
     obj \<leftarrow> objs s a;
     assert_that (refcount obj < INT_MAX);
     Some (upd_obj a (obj\<lparr>refcount := refcount obj + 1\<rparr>) s)
   }"

text \<open>
  Releasing the last reference removes the object; its address goes to \<open>dead\<close>, where the
  destroy callback of its type finds it.
\<close>

definition release_object :: "addr \<Rightarrow> server \<Rightarrow> server option" where
  "release_object a s = do {
     obj \<leftarrow> objs s a;
     assert_that (refcount obj \<noteq> 0);
     if refcount obj = 1
     then do {
       assert_that (handle_count obj = 0);
       Some (s\<lparr>objs := (objs s)(a := None), dead := a # dead s\<rparr>)
     }
     else Some (upd_obj a (obj\<lparr>refcount := refcount obj - 1\<rparr>) s)
   }"

definition make_object_permanent :: "addr \<Rightarrow> server \<Rightarrow> server option" where
  "make_object_permanent a s = do {
     obj \<leftarrow> objs s a;
     Some (upd_obj a (obj\<lparr>is_permanent := True\<rparr>) s)
   }"

definition make_object_temporary :: "addr \<Rightarrow> server \<Rightarrow> server option" where
  "make_object_temporary a s = do {
     obj \<leftarrow> objs s a;
     Some (upd_obj a (obj\<lparr>is_permanent := False\<rparr>) s)
   }"

definition count_type :: "object_type \<Rightarrow> nat \<Rightarrow> server \<Rightarrow> server" where
  "count_type ty n s =
     s\<lparr>type_counts := (type_counts s)(ty := \<lparr>handles_now = n,
        handles_max = max (handles_max (type_counts s ty)) n\<rparr>)\<rparr>"

definition grab_object_for_handle :: "addr \<Rightarrow> server \<Rightarrow> server option" where
  "grab_object_for_handle a s = do {
     obj \<leftarrow> objs s a;
     let ty = type_of (obj_ops obj);
     grab_object a (count_type ty (handles_now (type_counts s ty) + 1)
       (upd_obj a (obj\<lparr>handle_count := handle_count obj + 1\<rparr>) s))
   }"

definition release_object_from_handle :: "addr \<Rightarrow> server \<Rightarrow> server option" where
  "release_object_from_handle a s = do {
     obj \<leftarrow> objs s a;
     assert_that (handle_count obj \<noteq> 0);
     let ty = type_of (obj_ops obj);
     release_object a (count_type ty (handles_now (type_counts s ty) - 1)
       (upd_obj a (obj\<lparr>handle_count := handle_count obj - 1\<rparr>) s))
   }"

section \<open>Access check\<close>

definition check_object_access ::
    "env \<Rightarrow> addr option \<Rightarrow> addr \<Rightarrow> u32 \<Rightarrow> server \<Rightarrow> (u32 option \<times> server) option" where
  "check_object_access E token a acc s = do {
     obj \<leftarrow> objs s a;
     let tok = (case token of Some t \<Rightarrow> t
                | None \<Rightarrow> (case cur_token s of Some t \<Rightarrow> t
                            | None \<Rightarrow> process_token (procs s ! cur_process s)));
     if \<not> has_sd obj
     then Some (Some (if has_bits acc MAXIMUM_ALLOWED
                      then ops_map_access E (obj_ops obj) GENERIC_ALL else acc), s)
     else case token_check E tok a acc of
            Some granted \<Rightarrow> Some (Some granted, s)
          | None \<Rightarrow> Some (None, set_error STATUS_ACCESS_DENIED s)
   }"

end
