(* ===== verification/Wine_Handles.thy ===== *)
theory Wine_Handles
  imports Wine_Objects
begin

text \<open>
  The handle tables of the Wine server, \<^verbatim>\<open>wine/server/handle.c\<close>: the growing and shrinking
  array of entries of a process, the global table behind obfuscated handles, inheritance by a
  child process, and the requests that clients make on handles.
\<close>

section \<open>Handles and indices\<close>

definition RESERVED_SHIFT :: nat where "RESERVED_SHIFT = 26"
definition HANDLE_FLAG_INHERIT :: u32 where "HANDLE_FLAG_INHERIT = 1"
definition HANDLE_FLAG_PROTECT_FROM_CLOSE :: u32 where "HANDLE_FLAG_PROTECT_FROM_CLOSE = 2"
definition RESERVED_INHERIT :: u32 where
  "RESERVED_INHERIT = push_bit RESERVED_SHIFT HANDLE_FLAG_INHERIT"
definition RESERVED_CLOSE_PROTECT :: u32 where
  "RESERVED_CLOSE_PROTECT = push_bit RESERVED_SHIFT HANDLE_FLAG_PROTECT_FROM_CLOSE"
definition RESERVED_ALL :: u32 where "RESERVED_ALL = RESERVED_INHERIT OR RESERVED_CLOSE_PROTECT"
definition MIN_HANDLE_ENTRIES :: int where "MIN_HANDLE_ENTRIES = 32"
definition MAX_HANDLE_ENTRIES :: int where "MAX_HANDLE_ENTRIES = 0x00ffffff"
definition HANDLE_OBFUSCATOR :: u32 where "HANDLE_OBFUSCATOR = 0x544a4def"

definition OBJ_PROTECT_CLOSE :: u32 where "OBJ_PROTECT_CLOSE = 1"
definition OBJ_INHERIT :: u32 where "OBJ_INHERIT = 2"
definition DUPLICATE_CLOSE_SOURCE :: u32 where "DUPLICATE_CLOSE_SOURCE = 1"
definition DUPLICATE_SAME_ACCESS :: u32 where "DUPLICATE_SAME_ACCESS = 2"
definition DUPLICATE_SAME_ATTRIBUTES :: u32 where "DUPLICATE_SAME_ATTRIBUTES = 4"
definition DUPLICATE_MAKE_GLOBAL :: u32 where "DUPLICATE_MAKE_GLOBAL = 0x80000000"
definition PROCESS_DUP_HANDLE :: u32 where "PROCESS_DUP_HANDLE = 0x0040"

definition index_to_handle :: "int \<Rightarrow> handle" where
  "index_to_handle index = push_bit 2 (of_int (index + 1))"

definition handle_to_index :: "handle \<Rightarrow> int" where
  "handle_to_index h = sint (drop_bit 2 h - 1)"

definition handle_is_global :: "handle \<Rightarrow> bool" where
  "handle_is_global h \<longleftrightarrow> h XOR HANDLE_OBFUSCATOR \<le> push_bit 2 (of_int MAX_HANDLE_ENTRIES)"

definition handle_local_to_global :: "handle \<Rightarrow> handle" where
  "handle_local_to_global h = (if h = 0 then 0 else h XOR HANDLE_OBFUSCATOR)"

definition handle_global_to_local :: "handle \<Rightarrow> handle" where
  "handle_global_to_local h = h XOR HANDLE_OBFUSCATOR"

section \<open>Tables\<close>

datatype table_id = Global | Local pid

fun get_table :: "table_id \<Rightarrow> server \<Rightarrow> handle_table option" where
  "get_table Global s = global_table s"
| "get_table (Local p) s = (if p < length (procs s) then handles (procs s ! p) else None)"

fun put_table :: "table_id \<Rightarrow> handle_table option \<Rightarrow> server \<Rightarrow> server" where
  "put_table Global t s = s\<lparr>global_table := t\<rparr>"
| "put_table (Local p) t s = s\<lparr>procs := (procs s)[p := (procs s ! p)\<lparr>handles := t\<rparr>]\<rparr>"

text \<open>Reading and writing an entry: outside the allocation, or reading what was never written, is
  \<^const>\<open>None\<close>.\<close>

definition entry_at :: "handle_table \<Rightarrow> int \<Rightarrow> handle_entry option" where
  "entry_at t i = (if 0 \<le> i \<and> i < int (length (entries t)) then entries t ! nat i else None)"

definition write_entry :: "handle_table \<Rightarrow> int \<Rightarrow> handle_entry \<Rightarrow> handle_table option" where
  "write_entry t i e =
     (if 0 \<le> i \<and> i < int (length (entries t))
      then Some (t\<lparr>entries := (entries t)[nat i := Some e]\<rparr>) else None)"

definition alloc_handle_table :: "pid option \<Rightarrow> int \<Rightarrow> server \<Rightarrow> handle_table option \<times> server" where
  "alloc_handle_table p n s =
     (let n = (if n < MIN_HANDLE_ENTRIES then MIN_HANDLE_ENTRIES else n);
          (ok, s) = mem_alloc s
      in if \<not> ok then (None, s)
         else let (ok, s) = mem_alloc s
              in if \<not> ok then (None, s)
                 else (Some \<lparr>table_process = p, nr_entries = n, last_entry = - 1, free_from = 0,
                        entries = replicate (nat n) None\<rparr>, s))"

definition grow_handle_table :: "handle_table \<Rightarrow> server \<Rightarrow> handle_table option \<times> server" where
  "grow_handle_table t s =
     (let n = min (nr_entries t * 2) MAX_HANDLE_ENTRIES
      in if n = nr_entries t then (None, set_error STATUS_INSUFFICIENT_RESOURCES s)
         else let (ok, s) = malloc s
              in if \<not> ok then (None, set_error STATUS_INSUFFICIENT_RESOURCES s)
                 else (Some (t\<lparr>nr_entries := n,
                        entries := entries t @ replicate (nat n - length (entries t)) None\<rparr>), s))"

function scan_free :: "handle_table \<Rightarrow> int \<Rightarrow> (int \<times> bool) option" where
  "scan_free t i =
     (if i \<le> last_entry t
      then (case entry_at t i of
              None \<Rightarrow> None
            | Some e \<Rightarrow> if ptr e = None then Some (i, True) else scan_free t (i + 1))
      else Some (i, False))"
  by pat_completeness auto
termination
  by (relation "measure (\<lambda>(t, i). nat (last_entry t + 1 - i))") auto

declare scan_free.simps [simp del]

definition claim_entry ::
    "table_id \<Rightarrow> handle_table \<Rightarrow> int \<Rightarrow> addr \<Rightarrow> u32 \<Rightarrow> server \<Rightarrow> (handle \<times> server) option" where
  "claim_entry tb t i obj acc s = do {
     s \<leftarrow> grab_object_for_handle obj s;
     t \<leftarrow> write_entry (t\<lparr>free_from := i + 1\<rparr>) i \<lparr>ptr = Some obj, access = acc\<rparr>;
     Some (index_to_handle i, put_table tb (Some t) s)
   }"

definition alloc_entry :: "table_id \<Rightarrow> addr \<Rightarrow> u32 \<Rightarrow> server \<Rightarrow> (handle \<times> server) option" where
  "alloc_entry tb obj acc s = do {
     t \<leftarrow> get_table tb s;
     (i, found) \<leftarrow> scan_free t (free_from t);
     if found then claim_entry tb t i obj acc s
     else if i \<ge> nr_entries t
     then (case grow_handle_table t s of
             (None, s) \<Rightarrow> Some (0, s)
           | (Some t, s) \<Rightarrow> claim_entry tb (t\<lparr>last_entry := i\<rparr>) i obj acc s)
     else claim_entry tb (t\<lparr>last_entry := i\<rparr>) i obj acc s
   }"

definition alloc_handle_entry ::
    "pid \<Rightarrow> addr \<Rightarrow> u32 \<Rightarrow> u32 \<Rightarrow> server \<Rightarrow> (handle \<times> server) option" where
  "alloc_handle_entry p obj acc attr s = do {
     assert_that (\<not> has_bits acc RESERVED_ALL);
     let acc = (if has_bits attr OBJ_INHERIT then acc OR RESERVED_INHERIT else acc);
     case get_table (Local p) s of
       None \<Rightarrow> Some (0, set_error STATUS_PROCESS_IS_TERMINATING s)
     | Some t \<Rightarrow> alloc_entry (Local p) obj acc s
   }"

definition alloc_handle_no_access_check ::
    "env \<Rightarrow> pid \<Rightarrow> addr \<Rightarrow> u32 \<Rightarrow> u32 \<Rightarrow> server \<Rightarrow> (handle \<times> server) option" where
  "alloc_handle_no_access_check E p a acc attr s = do {
     obj \<leftarrow> objs s a;
     let acc = (if has_bits acc MAXIMUM_ALLOWED then GENERIC_ALL else acc);
     alloc_handle_entry p a (ops_map_access E (obj_ops obj) acc AND NOT RESERVED_ALL) attr s
   }"

definition alloc_handle ::
    "env \<Rightarrow> pid \<Rightarrow> addr \<Rightarrow> u32 \<Rightarrow> u32 \<Rightarrow> server \<Rightarrow> (handle \<times> server) option" where
  "alloc_handle E p a acc attr s = do {
     obj \<leftarrow> objs s a;
     let acc = ops_map_access E (obj_ops obj) acc AND NOT RESERVED_ALL;
     if acc = 0 then Some (0, set_error STATUS_ACCESS_DENIED s)
     else do {
       (granted, s) \<leftarrow> check_object_access E None a acc s;
       case granted of
         None \<Rightarrow> Some (0, s)
       | Some acc \<Rightarrow> alloc_handle_entry p a acc attr s
     }
   }"

definition alloc_global_handle_no_access_check ::
    "addr \<Rightarrow> u32 \<Rightarrow> server \<Rightarrow> (handle \<times> server) option" where
  "alloc_global_handle_no_access_check obj acc s =
     (case (case global_table s of
              Some t \<Rightarrow> (Some t, s)
            | None \<Rightarrow> alloc_handle_table None 0 s) of
        (None, s) \<Rightarrow> Some (0, s)
      | (Some t, s) \<Rightarrow> do {
          (h, s) \<leftarrow> alloc_entry Global obj acc (s\<lparr>global_table := Some t\<rparr>);
          Some (handle_local_to_global h, s)
        })"

definition alloc_global_handle :: "env \<Rightarrow> addr \<Rightarrow> u32 \<Rightarrow> server \<Rightarrow> (handle \<times> server) option" where
  "alloc_global_handle E a acc s =
     (if acc = 0 then alloc_global_handle_no_access_check a acc s
      else do {
        (granted, s) \<leftarrow> check_object_access E None a acc s;
        case granted of
          None \<Rightarrow> Some (0, s)
        | Some acc \<Rightarrow> alloc_global_handle_no_access_check a acc s
      })"

text \<open>The table, the index in it and the entry; \<open>Some None\<close> is an invalid handle.\<close>

definition get_handle ::
    "pid \<Rightarrow> handle \<Rightarrow> server \<Rightarrow> (table_id \<times> int \<times> handle_entry) option option" where
  "get_handle p h s =
     (let (tb, h) = (if handle_is_global h then (Global, handle_global_to_local h)
                     else (Local p, h))
      in case get_table tb s of
           None \<Rightarrow> Some None
         | Some t \<Rightarrow>
             (let index = handle_to_index h
              in if index < 0 then Some None
                 else if index > last_entry t then Some None
                 else do {
                   e \<leftarrow> entry_at t index;
                   Some (if ptr e = None then None else Some (tb, index, e))
                 }))"

function shrink_last :: "handle_table \<Rightarrow> int \<Rightarrow> int option" where
  "shrink_last t i =
     (if i \<ge> 0
      then (case entry_at t i of
              None \<Rightarrow> None
            | Some e \<Rightarrow> if ptr e \<noteq> None then Some i else shrink_last t (i - 1))
      else Some i)"
  by pat_completeness auto
termination
  by (relation "measure (\<lambda>(t, i). nat (i + 1))") auto

declare shrink_last.simps [simp del]

definition shrink_handle_table :: "handle_table \<Rightarrow> server \<Rightarrow> (handle_table \<times> server) option" where
  "shrink_handle_table t s = do {
     l \<leftarrow> shrink_last t (last_entry t);
     let t = t\<lparr>last_entry := l\<rparr>;
     let n = nr_entries t;
     if last_entry t \<ge> n div 4 then Some (t, s)
     else if n < MIN_HANDLE_ENTRIES * 2 then Some (t, s)
     else let (ok, s) = malloc s
          in if ok then Some (t\<lparr>nr_entries := n div 2, entries := take (nat (n div 2)) (entries t)\<rparr>, s)
             else Some (t, s)
   }"

definition inherit_handle ::
    "pid \<Rightarrow> handle \<Rightarrow> handle_table \<times> server \<Rightarrow> (handle_table \<times> server) option" where
  "inherit_handle parent h ts = (case ts of (t, s) \<Rightarrow> do {
     src \<leftarrow> get_handle parent h s;
     case src of
       None \<Rightarrow> Some (t, s)
     | Some (_, _, e) \<Rightarrow>
         if \<not> has_bits (access e) RESERVED_INHERIT then Some (t, s)
         else do {
           let index = handle_to_index h;
           dst \<leftarrow> entry_at t index;
           if ptr dst \<noteq> None then Some (t, s)
           else do {
             a \<leftarrow> ptr e;
             s \<leftarrow> grab_object_for_handle a s;
             t \<leftarrow> write_entry t index e;
             Some (t\<lparr>last_entry := max (last_entry t) index\<rparr>, s)
           }
         }
   })"

fun inherit_handles ::
    "pid \<Rightarrow> handle list \<Rightarrow> handle_table \<times> server \<Rightarrow> (handle_table \<times> server) option" where
  "inherit_handles parent [] ts = Some ts"
| "inherit_handles parent (h # hs) ts = do {
     ts \<leftarrow> inherit_handle parent h ts;
     inherit_handles parent hs ts
   }"

text \<open>The loop over the entries copied from the parent.\<close>

fun copy_entries ::
    "handle_entry option list \<Rightarrow> server \<Rightarrow> (handle_entry option list \<times> server) option" where
  "copy_entries [] s = Some ([], s)"
| "copy_entries (None # es) s = None"
| "copy_entries (Some e # es) s =
     (case ptr e of
        None \<Rightarrow> do {
          (es, s) \<leftarrow> copy_entries es s;
          Some (Some e # es, s)
        }
      | Some a \<Rightarrow>
          if has_bits (access e) RESERVED_INHERIT
          then do {
            s \<leftarrow> grab_object_for_handle a s;
            (es, s) \<leftarrow> copy_entries es s;
            Some (Some e # es, s)
          }
          else do {
            (es, s) \<leftarrow> copy_entries es s;
            Some (Some (e\<lparr>ptr := None\<rparr>) # es, s)
          })"

definition null_entry :: handle_entry where "null_entry = \<lparr>ptr = None, access = 0\<rparr>"

definition copy_handle_table ::
    "pid \<Rightarrow> pid \<Rightarrow> handle list option \<Rightarrow> handle list \<Rightarrow> server \<Rightarrow>
     (handle_table option \<times> server) option" where
  "copy_handle_table p parent hs std_handles s = do {
     pt \<leftarrow> get_table (Local parent) s;
     case alloc_handle_table (Some p) (nr_entries pt) s of
       (None, s) \<Rightarrow> Some (None, s)
     | (Some t, s) \<Rightarrow> do {
         (t, s) \<leftarrow> (case hs of
            Some hs \<Rightarrow>
              (let n = nat (nr_entries pt);
                   t = t\<lparr>entries := replicate n (Some null_entry) @ drop n (entries t)\<rparr>
               in do {
                 ts \<leftarrow> inherit_handles parent hs (t, s);
                 inherit_handles parent (take 3 std_handles) ts
               })
          | None \<Rightarrow>
              if last_entry pt \<ge> 0
              then do {
                let n = nat (last_entry pt + 1);
                (es, s) \<leftarrow> copy_entries (take n (entries pt)) s;
                Some (t\<lparr>last_entry := last_entry pt, entries := es @ drop n (entries t)\<rparr>, s)
              }
              else Some (t\<lparr>last_entry := last_entry pt\<rparr>, s));
         (t, s) \<leftarrow> shrink_handle_table t s;
         Some (Some t, s)
       }
   }"

definition clear_entry :: "handle_table \<Rightarrow> int \<Rightarrow> server \<Rightarrow> (handle_table \<times> server) option" where
  "clear_entry t index s = do {
     old \<leftarrow> entry_at t index;
     t \<leftarrow> write_entry t index (old\<lparr>ptr := None\<rparr>);
     let t = (if index < free_from t then t\<lparr>free_from := index\<rparr> else t);
     if index = last_entry t then shrink_handle_table t s else Some (t, s)
   }"

definition close_handle :: "env \<Rightarrow> pid \<Rightarrow> handle \<Rightarrow> server \<Rightarrow> (u32 \<times> server) option" where
  "close_handle E p h s = do {
     let index = handle_to_index h;
     found \<leftarrow> get_handle p h s;
     case found of
       None \<Rightarrow> Some (STATUS_INVALID_HANDLE, s)
     | Some (tb, _, e) \<Rightarrow>
         if has_bits (access e) RESERVED_CLOSE_PROTECT then Some (STATUS_HANDLE_NOT_CLOSABLE, s)
         else do {
           a \<leftarrow> ptr e;
           if \<not> may_close E a p h then Some (STATUS_HANDLE_NOT_CLOSABLE, s)
           else do {
             t \<leftarrow> get_table tb s;
             (t, s) \<leftarrow> clear_entry t index s;
             s \<leftarrow> release_object_from_handle a (put_table tb (Some t) s);
             Some (0, s)
           }
         }
   }"

definition live_entries :: "handle_table \<Rightarrow> handle_entry option list" where
  "live_entries t = take (nat (last_entry t + 1)) (entries t)"

text \<open>
  Destroying a table releases every entry; the verdict of the type's close callback is ignored.
\<close>

fun destroy_entries :: "handle_entry option list \<Rightarrow> server \<Rightarrow> server option" where
  "destroy_entries [] s = Some s"
| "destroy_entries (None # es) s = None"
| "destroy_entries (Some e # es) s =
     (case ptr e of
        None \<Rightarrow> destroy_entries es s
      | Some a \<Rightarrow> do {
          s \<leftarrow> release_object_from_handle a s;
          destroy_entries es s
        })"

definition handle_table_destroy :: "handle_table \<Rightarrow> server \<Rightarrow> server option" where
  "handle_table_destroy t s = destroy_entries (live_entries t) s"

definition close_process_handles :: "pid \<Rightarrow> server \<Rightarrow> server option" where
  "close_process_handles p s = (case get_table (Local p) s of
     None \<Rightarrow> Some s
   | Some t \<Rightarrow> handle_table_destroy t (put_table (Local p) None s))"

section \<open>Looking up objects\<close>

definition get_magic_handle :: "handle \<Rightarrow> server \<Rightarrow> addr option" where
  "get_magic_handle h s =
     (if h = 0xfffffffa then cur_impersonation s
      else if h = 0xfffffffb then cur_token s
      else if h = 0xfffffffc then Some (process_token (procs s ! cur_process s))
      else if h = 0xfffffffe then Some (cur_thread_obj s)
      else if h = 0x7fffffff \<or> h = 0xffffffff then Some (process_obj (procs s ! cur_process s))
      else None)"

definition get_handle_obj ::
    "pid \<Rightarrow> handle \<Rightarrow> u32 \<Rightarrow> ops option \<Rightarrow> server \<Rightarrow> (addr option \<times> server) option" where
  "get_handle_obj p h acc q s =
     (case get_magic_handle h s of
        None \<Rightarrow> do {
          found \<leftarrow> get_handle p h s;
          case found of
            None \<Rightarrow> Some (None, set_error STATUS_INVALID_HANDLE s)
          | Some (_, _, e) \<Rightarrow> do {
              a \<leftarrow> ptr e;
              obj \<leftarrow> objs s a;
              if q \<noteq> None \<and> q \<noteq> Some (obj_ops obj)
              then Some (None, set_error STATUS_OBJECT_TYPE_MISMATCH s)
              else if access e AND acc \<noteq> acc
              then Some (None, set_error STATUS_ACCESS_DENIED s)
              else do { s \<leftarrow> grab_object a s; Some (Some a, s) }
            }
        }
      | Some a \<Rightarrow> do {
          obj \<leftarrow> objs s a;
          if q \<noteq> None \<and> q \<noteq> Some (obj_ops obj)
          then Some (None, set_error STATUS_OBJECT_TYPE_MISMATCH s)
          else do { s \<leftarrow> grab_object a s; Some (Some a, s) }
        })"

definition get_handle_access :: "pid \<Rightarrow> handle \<Rightarrow> server \<Rightarrow> u32 option" where
  "get_handle_access p h s =
     (if get_magic_handle h s \<noteq> None then Some (NOT RESERVED_ALL)
      else do {
        found \<leftarrow> get_handle p h s;
        Some (case found of None \<Rightarrow> 0 | Some (_, _, e) \<Rightarrow> access e AND NOT RESERVED_ALL)
      })"

function find_inherited_loop :: "handle_table \<Rightarrow> ops \<Rightarrow> int \<Rightarrow> server \<Rightarrow> handle option" where
  "find_inherited_loop t q i s =
     (if i \<le> last_entry t
      then (case entry_at t i of
              None \<Rightarrow> None
            | Some e \<Rightarrow>
                (case ptr e of
                   None \<Rightarrow> find_inherited_loop t q (i + 1) s
                 | Some a \<Rightarrow>
                     (case objs s a of
                        None \<Rightarrow> None
                      | Some obj \<Rightarrow>
                          if obj_ops obj = q \<and> has_bits (access e) RESERVED_INHERIT
                          then Some (index_to_handle i)
                          else find_inherited_loop t q (i + 1) s)))
      else Some 0)"
  by pat_completeness auto
termination
  by (relation "measure (\<lambda>(t, q, i, s). nat (last_entry t + 1 - i))") auto

declare find_inherited_loop.simps [simp del]

definition find_inherited_handle :: "pid \<Rightarrow> ops \<Rightarrow> server \<Rightarrow> handle option" where
  "find_inherited_handle p q s = (case get_table (Local p) s of
     None \<Rightarrow> Some 0
   | Some t \<Rightarrow> find_inherited_loop t q 0 s)"

definition get_obj_handle_count :: "pid \<Rightarrow> addr \<Rightarrow> server \<Rightarrow> nat" where
  "get_obj_handle_count p a s = (case get_table (Local p) s of
     None \<Rightarrow> 0
   | Some t \<Rightarrow> length (filter (\<lambda>e. \<exists>x. e = Some x \<and> ptr x = Some a) (live_entries t)))"

definition get_handle_table_count :: "pid \<Rightarrow> server \<Rightarrow> int" where
  "get_handle_table_count p s = (case get_table (Local p) s of None \<Rightarrow> 0 | Some t \<Rightarrow> nr_entries t)"

text \<open>The old flags, or \<open>- 1\<close> as a \<^typ>\<open>u32\<close> on error.\<close>

definition set_handle_flags ::
    "pid \<Rightarrow> handle \<Rightarrow> u32 \<Rightarrow> u32 \<Rightarrow> server \<Rightarrow> (u32 \<times> server) option" where
  "set_handle_flags p h msk flags s =
     (if get_magic_handle h s \<noteq> None
      then Some (0, if msk \<noteq> 0 then set_error STATUS_ACCESS_DENIED s else s)
      else do {
        found \<leftarrow> get_handle p h s;
        case found of
          None \<Rightarrow> Some (- 1, set_error STATUS_INVALID_HANDLE s)
        | Some (tb, i, e) \<Rightarrow> do {
            let msk = push_bit RESERVED_SHIFT msk AND RESERVED_ALL;
            let flags = push_bit RESERVED_SHIFT flags AND msk;
            t \<leftarrow> get_table tb s;
            t \<leftarrow> write_entry t i (e\<lparr>access := (access e AND NOT msk) OR flags\<rparr>);
            Some (drop_bit RESERVED_SHIFT (access e AND RESERVED_ALL), put_table tb (Some t) s)
          }
      })"

section \<open>Duplicating handles\<close>

text \<open>
  The destination is \<^const>\<open>None\<close> where the code passes NULL; using it is a NULL dereference.
\<close>

definition dup_checked ::
    "env \<Rightarrow> addr \<Rightarrow> pid option \<Rightarrow> u32 \<Rightarrow> server \<Rightarrow> (u32 option \<times> server) option" where
  "dup_checked E a dst acc s = do {
     (granted, s) \<leftarrow> (case cur_token s of
        None \<Rightarrow> Some (Some acc, s)
      | Some tok \<Rightarrow> check_object_access E (Some tok) a acc s);
     case granted of
       None \<Rightarrow> Some (None, s)
     | Some acc \<Rightarrow> do {
         d \<leftarrow> dst;
         check_object_access E (Some (process_token (procs s ! d))) a acc s
       }
   }"

definition dup_more ::
    "env \<Rightarrow> addr \<Rightarrow> pid option \<Rightarrow> u32 \<Rightarrow> u32 \<Rightarrow> u32 \<Rightarrow> server \<Rightarrow> (handle \<times> server) option" where
  "dup_more E a dst acc attr options s = do {
     (granted, s) \<leftarrow> dup_checked E a dst acc s;
     case granted of
       None \<Rightarrow> Some (0, s)
     | Some acc \<Rightarrow>
         if has_bits options DUPLICATE_MAKE_GLOBAL then alloc_global_handle E a acc s
         else do {
           d \<leftarrow> dst;
           alloc_handle_no_access_check E d a acc attr s
         }
   }"

definition dup_same ::
    "pid \<Rightarrow> handle \<Rightarrow> (table_id \<times> int \<times> handle_entry) option \<Rightarrow> addr \<Rightarrow> pid option \<Rightarrow> u32 \<Rightarrow>
     u32 \<Rightarrow> u32 \<Rightarrow> server \<Rightarrow> (handle \<times> server) option" where
  "dup_same src h found a dst acc attr options s =
     (if has_bits options DUPLICATE_MAKE_GLOBAL then alloc_global_handle_no_access_check a acc s
      else case found of
             Some (tb, i, e) \<Rightarrow>
               if has_bits options DUPLICATE_CLOSE_SOURCE \<and> dst = Some src \<and>
                  \<not> has_bits (access e) RESERVED_CLOSE_PROTECT
               then do {
                 let acc = (if has_bits attr OBJ_INHERIT then acc OR RESERVED_INHERIT else acc);
                 t \<leftarrow> get_table tb s;
                 t \<leftarrow> write_entry t i (e\<lparr>access := acc\<rparr>);
                 Some (h, put_table tb (Some t) s)
               }
               else do { d \<leftarrow> dst; alloc_handle_entry d a acc attr s }
           | None \<Rightarrow> do { d \<leftarrow> dst; alloc_handle_entry d a acc attr s })"

definition dup_flags :: "pid option \<Rightarrow> handle \<Rightarrow> u32 \<Rightarrow> u32 \<Rightarrow> server \<Rightarrow> server option" where
  "dup_flags dst res src_flags options s =
     (if res \<noteq> 0 \<and> has_bits options DUPLICATE_SAME_ATTRIBUTES
      then do {
        d \<leftarrow> dst;
        (_, s) \<leftarrow> set_handle_flags d res (- 1) src_flags s;
        Some s
      }
      else Some s)"

definition duplicate_handle ::
    "env \<Rightarrow> pid \<Rightarrow> handle \<Rightarrow> pid option \<Rightarrow> u32 \<Rightarrow> u32 \<Rightarrow> u32 \<Rightarrow> server \<Rightarrow> (handle \<times> server) option" where
  "duplicate_handle E src h dst acc attr options s = do {
     (got, s) \<leftarrow> get_handle_obj src h 0 None s;
     case got of
       None \<Rightarrow> Some (0, s)
     | Some a \<Rightarrow> do {
         obj \<leftarrow> objs s a;
         found \<leftarrow> get_handle src h s;
         let src_access = (case found of
            Some (_, _, e) \<Rightarrow> access e
          | None \<Rightarrow> ops_map_access E (obj_ops obj) GENERIC_ALL);
         let src_flags = drop_bit RESERVED_SHIFT (src_access AND RESERVED_ALL);
         let src_access = src_access AND NOT RESERVED_ALL;
         let acc = (if has_bits options DUPLICATE_SAME_ACCESS then src_access
                    else ops_map_access E (obj_ops obj) acc AND NOT RESERVED_ALL);
         (res, s) \<leftarrow> (if has_bits acc (NOT src_access) then dup_more E a dst acc attr options s
                      else dup_same src h found a dst acc attr options s);
         s \<leftarrow> dup_flags dst res src_flags options s;
         s \<leftarrow> release_object a s;
         Some (res, s)
       }
   }"

section \<open>Requests\<close>

text \<open>
  Name resolution is a parameter of \<open>open_object\<close>: the object found, or the error.
\<close>

definition open_object ::
    "env \<Rightarrow> pid \<Rightarrow> handle \<Rightarrow> u32 \<Rightarrow> nat \<Rightarrow> u32 \<Rightarrow> (server \<Rightarrow> u32 + addr) \<Rightarrow> server \<Rightarrow>
     (handle \<times> server) option" where
  "open_object E p parent acc name_len attributes resolve s =
     (if name_len \<ge> 65534 then Some (0, set_error STATUS_OBJECT_NAME_INVALID s)
      else do {
        (root, s) \<leftarrow> (if parent = 0 then Some (None, s)
                      else get_handle_obj p parent 0
                             (if name_len \<noteq> 0 then Some Directory_ops else None) s);
        if parent \<noteq> 0 \<and> root = None then Some (0, s)
        else do {
          (h, s) \<leftarrow> (case resolve s of
             Inl err \<Rightarrow> Some (0, set_error err s)
           | Inr a \<Rightarrow> do {
               s \<leftarrow> grab_object a s;
               (h, s) \<leftarrow> alloc_handle E p a acc attributes s;
               s \<leftarrow> release_object a s;
               Some (h, s)
             });
          s \<leftarrow> (case root of None \<Rightarrow> Some s | Some r \<Rightarrow> release_object r s);
          Some (h, s)
        }
      })"

definition close_handle_request :: "env \<Rightarrow> handle \<Rightarrow> server \<Rightarrow> server option" where
  "close_handle_request E h s = do {
     (err, s) \<leftarrow> close_handle E (cur_process s) h s;
     Some (set_error err s)
   }"

definition set_handle_info :: "handle \<Rightarrow> u32 \<Rightarrow> u32 \<Rightarrow> server \<Rightarrow> (u32 \<times> server) option" where
  "set_handle_info h msk flags s = set_handle_flags (cur_process s) h msk flags s"

definition process_at :: "server \<Rightarrow> addr \<Rightarrow> pid option" where
  "process_at s a = find (\<lambda>p. process_obj (procs s ! p) = a) [0..<length (procs s)]"

definition get_process_from_handle ::
    "handle \<Rightarrow> u32 \<Rightarrow> server \<Rightarrow> ((addr \<times> pid) option \<times> server) option" where
  "get_process_from_handle h acc s = do {
     (got, s) \<leftarrow> get_handle_obj (cur_process s) h acc (Some Process_ops) s;
     case got of
       None \<Rightarrow> Some (None, s)
     | Some a \<Rightarrow> do { p \<leftarrow> process_at s a; Some (Some (a, p), s) }
   }"

definition dup_target ::
    "env \<Rightarrow> pid \<Rightarrow> handle \<Rightarrow> handle \<Rightarrow> u32 \<Rightarrow> u32 \<Rightarrow> u32 \<Rightarrow> server \<Rightarrow>
     (pid option \<times> handle \<times> server) option" where
  "dup_target E src h dst_process acc attr options s =
     (if has_bits options DUPLICATE_MAKE_GLOBAL
      then do {
        (res, s) \<leftarrow> duplicate_handle E src h None acc attr options s;
        Some (None, res, s)
      }
      else do {
        (got, s) \<leftarrow> get_process_from_handle dst_process PROCESS_DUP_HANDLE s;
        case got of
          None \<Rightarrow> Some (None, 0, s)
        | Some (a, d) \<Rightarrow> do {
            (res, s) \<leftarrow> duplicate_handle E src h (Some d) acc attr options s;
            s \<leftarrow> release_object a s;
            Some (Some d, res, s)
          }
      })"

definition dup_handle ::
    "env \<Rightarrow> handle \<Rightarrow> handle \<Rightarrow> handle \<Rightarrow> u32 \<Rightarrow> u32 \<Rightarrow> u32 \<Rightarrow> server \<Rightarrow> (handle \<times> server) option" where
  "dup_handle E src_process h dst_process acc attr options s = do {
     (got, s) \<leftarrow> get_process_from_handle src_process PROCESS_DUP_HANDLE s;
     case got of
       None \<Rightarrow> Some (0, s)
     | Some (a, src) \<Rightarrow> do {
         (dst, res, s) \<leftarrow> dup_target E src h dst_process acc attr options s;
         s \<leftarrow> (if has_bits options DUPLICATE_CLOSE_SOURCE \<and> (dst \<noteq> Some src \<or> h \<noteq> res)
               then do { (_, s) \<leftarrow> close_handle E src h s; Some s }
               else Some s);
         s \<leftarrow> release_object a s;
         Some (res, s)
       }
   }"

definition get_object_info :: "handle \<Rightarrow> server \<Rightarrow> ((u32 \<times> nat \<times> nat) option \<times> server) option" where
  "get_object_info h s = do {
     (got, s) \<leftarrow> get_handle_obj (cur_process s) h 0 None s;
     case got of
       None \<Rightarrow> Some (None, s)
     | Some a \<Rightarrow> do {
         acc \<leftarrow> get_handle_access (cur_process s) h s;
         obj \<leftarrow> objs s a;
         s \<leftarrow> release_object a s;
         Some (Some (acc, refcount obj, handle_count obj), s)
       }
   }"

record handle_info =
  info_owner :: pid
  info_handle :: handle
  info_access :: u32
  info_attributes :: u32
  info_type :: object_type

definition handle_attributes :: "u32 \<Rightarrow> u32" where
  "handle_attributes acc =
     (if has_bits acc RESERVED_INHERIT then OBJ_INHERIT else 0) OR
     (if has_bits acc RESERVED_CLOSE_PROTECT then OBJ_PROTECT_CLOSE else 0)"

text \<open>One pass over the entries of a process: counting, or filling at most \<open>n\<close> records.\<close>

fun count_entries :: "handle_entry option list \<Rightarrow> nat \<Rightarrow> nat option" where
  "count_entries [] n = Some n"
| "count_entries (None # es) n = None"
| "count_entries (Some e # es) n = count_entries es (if ptr e = None then n else n + 1)"

fun fill_entries ::
    "server \<Rightarrow> pid \<Rightarrow> int \<Rightarrow> handle_entry option list \<Rightarrow> nat \<Rightarrow> (handle_info list \<times> nat) option" where
  "fill_entries s p i [] n = Some ([], n)"
| "fill_entries s p i (None # es) n = None"
| "fill_entries s p i (Some e # es) n =
     (case ptr e of
        None \<Rightarrow> fill_entries s p (i + 1) es n
      | Some a \<Rightarrow> do {
          assert_that (n \<noteq> 0);
          obj \<leftarrow> objs s a;
          (infos, n) \<leftarrow> fill_entries s p (i + 1) es (n - 1);
          Some (\<lparr>info_owner = p, info_handle = index_to_handle i,
                  info_access = access e AND NOT RESERVED_ALL,
                  info_attributes = handle_attributes (access e),
                  info_type = type_of (obj_ops obj)\<rparr> # infos, n)
        })"

fun count_handles :: "process list \<Rightarrow> nat \<Rightarrow> nat option" where
  "count_handles [] n = Some n"
| "count_handles (p # ps) n = (case handles p of
     None \<Rightarrow> count_handles ps n
   | Some t \<Rightarrow> do { n \<leftarrow> count_entries (live_entries t) n; count_handles ps n })"

fun fill_handles :: "server \<Rightarrow> pid \<Rightarrow> process list \<Rightarrow> nat \<Rightarrow> (handle_info list \<times> nat) option" where
  "fill_handles s i [] n = Some ([], n)"
| "fill_handles s i (p # ps) n = (case handles p of
     None \<Rightarrow> fill_handles s (i + 1) ps n
   | Some t \<Rightarrow> do {
       (xs, n) \<leftarrow> fill_entries s i 0 (live_entries t) n;
       (ys, n) \<leftarrow> fill_handles s (i + 1) ps n;
       Some (xs @ ys, n)
     })"

definition get_system_handles :: "nat \<Rightarrow> server \<Rightarrow> (nat \<times> handle_info list \<times> server) option" where
  "get_system_handles max_handles s = do {
     n \<leftarrow> count_handles (procs s) 0;
     if max_handles < n then Some (n, [], set_error STATUS_BUFFER_TOO_SMALL s)
     else let (ok, s) = mem_alloc s
          in if \<not> ok then Some (n, [], s)
             else do {
               (infos, _) \<leftarrow> fill_handles s 0 (procs s) n;
               Some (n, infos, s)
             }
   }"

definition set_object_permanence :: "handle \<Rightarrow> bool \<Rightarrow> server \<Rightarrow> server option" where
  "set_object_permanence h permanent s = do {
     (got, s) \<leftarrow> get_handle_obj (cur_process s) h (if permanent then 0 else DELETE) None s;
     case got of
       None \<Rightarrow> Some s
     | Some a \<Rightarrow> do {
         obj \<leftarrow> objs s a;
         s \<leftarrow> (if permanent \<and> \<not> is_permanent obj
               then do { s \<leftarrow> grab_object a s; make_object_permanent a s }
               else if \<not> permanent \<and> is_permanent obj
               then do { s \<leftarrow> make_object_temporary a s; release_object a s }
               else Some s);
         release_object a s
       }
   }"

definition compare_objects :: "handle \<Rightarrow> handle \<Rightarrow> server \<Rightarrow> server option" where
  "compare_objects first second s = do {
     (got1, s) \<leftarrow> get_handle_obj (cur_process s) first 0 None s;
     case got1 of
       None \<Rightarrow> Some s
     | Some a \<Rightarrow> do {
         (got2, s) \<leftarrow> get_handle_obj (cur_process s) second 0 None s;
         case got2 of
           None \<Rightarrow> release_object a s
         | Some b \<Rightarrow> do {
             let s = (if a \<noteq> b then set_error STATUS_NOT_SAME_OBJECT s else s);
             s \<leftarrow> release_object b s;
             release_object a s
           }
       }
   }"

end
