(* ===== verification/Wine_Handle_Invariant.thy ===== *)
theory Wine_Handle_Invariant
  imports Wine_Handles
begin

text \<open>
  The invariant of the handle tables: what a well-formed table is, how often the tables refer to
  an object, and how the primitives on objects and tables -- taking and dropping references,
  storing, growing and shrinking a table, claiming an entry -- keep it.
\<close>

section \<open>Handles and indices\<close>

lemmas handle_consts = RESERVED_SHIFT_def HANDLE_FLAG_INHERIT_def
  HANDLE_FLAG_PROTECT_FROM_CLOSE_def RESERVED_INHERIT_def RESERVED_CLOSE_PROTECT_def
  RESERVED_ALL_def MIN_HANDLE_ENTRIES_def MAX_HANDLE_ENTRIES_def HANDLE_OBFUSCATOR_def

lemma handle_to_index_alt: "handle_to_index h = int (unat h div 4) - 1"
proof (cases "drop_bit 2 h = 0")
  case True
  then have "unat h div 4 = 0"
    using unat_drop_bit_div [of 2 h] by simp
  with True show ?thesis by (simp add: handle_to_index_def)
next
  case False
  have d: "unat (drop_bit 2 h) = unat h div 4"
    using unat_drop_bit_div [of 2 h] by simp
  have pos: "0 < unat h div 4" using False d by (metis unat_eq_zero not_gr_zero)
  have "unat (drop_bit 2 h - 1) = unat h div 4 - 1"
    using pos d by (subst unat_sub) (simp_all add: word_le_nat_alt)
  moreover have "unat h div 4 - 1 < 2147483648" using unat_u32_lt [of h] by simp
  ultimately have "sint (drop_bit 2 h - 1) = int (unat h div 4 - 1)"
    by (metis sint_u32_small)
  then show ?thesis using pos by (simp add: handle_to_index_def of_nat_diff)
qed

lemma unat_index_to_handle:
  assumes "0 \<le> i" "i < MAX_HANDLE_ENTRIES"
  shows "unat (index_to_handle i) = 4 * nat (i + 1)"
proof -
  have i: "nat (i + 1) < 0x1000000" using assms by (simp add: MAX_HANDLE_ENTRIES_def nat_less_iff)
  have "(of_int (i + 1) :: u32) = of_nat (nat (i + 1))" using assms by simp
  then have "index_to_handle i = push_bit 2 (of_nat (nat (i + 1)))"
    by (simp add: index_to_handle_def)
  moreover have "unat (of_nat (nat (i + 1)) :: u32) = nat (i + 1)"
    using i by (intro unat_of_nat_u32) simp
  ultimately show ?thesis
    using i by (simp add: unat_push_bit_noov)
qed

lemma handle_index_roundtrip:
  assumes "0 \<le> i" "i < MAX_HANDLE_ENTRIES"
  shows "handle_to_index (index_to_handle i) = i"
  using assms by (simp add: handle_to_index_alt unat_index_to_handle)

lemma handle_is_global_iff: "handle_is_global h \<longleftrightarrow> h XOR HANDLE_OBFUSCATOR \<le> 0x3fffffc"
  by (simp add: handle_is_global_def handle_consts)

lemma drop_bit_small: "drop_bit 26 (h :: u32) = 0" if "unat h < 0x4000000"
  using that unat_drop_bit_div [of 26 h] by (simp add: unat_eq_zero [symmetric] del: unat_eq_zero)

lemma small_handle_local:
  assumes "unat h < 0x4000000"
  shows "\<not> handle_is_global h"
proof
  assume "handle_is_global h"
  then have "drop_bit 26 (h XOR HANDLE_OBFUSCATOR) = 0"
    by (intro drop_bit_small) (simp add: handle_is_global_iff word_le_nat_alt)
  then have "drop_bit 26 h XOR drop_bit 26 HANDLE_OBFUSCATOR = 0"
    by (simp add: drop_bit_xor)
  then show False
    unfolding drop_bit_small [OF assms] by (simp add: HANDLE_OBFUSCATOR_def)
qed

text \<open>The raw index of a global handle is far outside every table.\<close>

lemma global_handle_index:
  assumes "handle_is_global h"
  shows "handle_to_index h > MAX_HANDLE_ENTRIES"
proof -
  have "drop_bit 26 (h XOR HANDLE_OBFUSCATOR) = 0"
    using assms by (intro drop_bit_small) (simp add: handle_is_global_iff word_le_nat_alt)
  then have "drop_bit 26 h XOR drop_bit 26 HANDLE_OBFUSCATOR = 0"
    by (simp add: drop_bit_xor)
  then have "drop_bit 26 h = drop_bit 26 HANDLE_OBFUSCATOR"
    by (simp only: bit_eq_iff bit_xor_iff bit_0_eq) simp
  then have "unat h div 67108864 = 21"
    using unat_drop_bit_div [of 26 h] by (simp add: HANDLE_OBFUSCATOR_def)
  then have "unat h \<ge> 21 * 67108864" by linarith
  then show ?thesis by (simp add: handle_to_index_alt MAX_HANDLE_ENTRIES_def)
qed

section \<open>Well-formed tables\<close>

definition entry_ptr :: "handle_table \<Rightarrow> int \<Rightarrow> addr option" where
  "entry_ptr t i = (case entry_at t i of None \<Rightarrow> None | Some e \<Rightarrow> ptr e)"

definition table_wf :: "handle_table \<Rightarrow> bool" where
  "table_wf t \<longleftrightarrow>
     MIN_HANDLE_ENTRIES \<le> nr_entries t \<and> nr_entries t \<le> MAX_HANDLE_ENTRIES \<and>
     int (length (entries t)) = nr_entries t \<and>
     - 1 \<le> last_entry t \<and> last_entry t < nr_entries t \<and>
     0 \<le> free_from t \<and> free_from t \<le> last_entry t + 1 \<and>
     (\<forall>i. 0 \<le> i \<and> i \<le> last_entry t \<longrightarrow> entry_at t i \<noteq> None) \<and>
     (\<forall>i. 0 \<le> i \<and> i < free_from t \<longrightarrow> entry_ptr t i \<noteq> None) \<and>
     (0 \<le> last_entry t \<longrightarrow> entry_ptr t (last_entry t) \<noteq> None)"

lemma table_wfD:
  assumes "table_wf t"
  shows "MIN_HANDLE_ENTRIES \<le> nr_entries t" "nr_entries t \<le> MAX_HANDLE_ENTRIES"
    "int (length (entries t)) = nr_entries t"
    "- 1 \<le> last_entry t" "last_entry t < nr_entries t"
    "0 \<le> free_from t" "free_from t \<le> last_entry t + 1"
    "0 \<le> i \<Longrightarrow> i \<le> last_entry t \<Longrightarrow> entry_at t i \<noteq> None"
    "0 \<le> i \<Longrightarrow> i < free_from t \<Longrightarrow> entry_ptr t i \<noteq> None"
    "0 \<le> last_entry t \<Longrightarrow> entry_ptr t (last_entry t) \<noteq> None"
  using assms unfolding table_wf_def by blast+

text \<open>What a table says: the object and access of each index.\<close>

definition table_map :: "handle_table \<Rightarrow> int \<Rightarrow> (addr \<times> u32) option" where
  "table_map t i =
     (if 0 \<le> i \<and> i \<le> last_entry t
      then (case entry_at t i of
              None \<Rightarrow> None
            | Some e \<Rightarrow> map_option (\<lambda>a. (a, access e)) (ptr e))
      else None)"

lemma scan_free_spec:
  assumes "table_wf t" "0 \<le> i" "i \<le> last_entry t + 1"
  shows "\<exists>j b. scan_free t i = Some (j, b) \<and> i \<le> j \<and> (b \<longrightarrow> j \<le> last_entry t \<and> entry_ptr t j = None) \<and>
    (\<not> b \<longrightarrow> j = last_entry t + 1) \<and> (\<forall>m. i \<le> m \<and> m < j \<longrightarrow> entry_ptr t m \<noteq> None)"
  using assms
proof (induction t i rule: scan_free.induct)
  case (1 t i)
  show ?case
  proof (cases "i \<le> last_entry t")
    case False
    with 1(4) show ?thesis by (auto simp: scan_free.simps [of t i])
  next
    case True
    obtain e where e: "entry_at t i = Some e"
      using table_wfD(8) [OF 1(2) 1(3) True] by auto
    show ?thesis
    proof (cases "ptr e")
      case None
      with True e show ?thesis by (auto simp: scan_free.simps [of t i] entry_ptr_def)
    next
      case (Some a)
      obtain j b where j: "scan_free t (i + 1) = Some (j, b)" "i + 1 \<le> j"
        "b \<longrightarrow> j \<le> last_entry t \<and> entry_ptr t j = None" "\<not> b \<longrightarrow> j = last_entry t + 1"
        "\<forall>m. i + 1 \<le> m \<and> m < j \<longrightarrow> entry_ptr t m \<noteq> None"
        using 1(1) [OF True e] Some 1(2,3) True by force
      have "entry_ptr t m \<noteq> None" if "i \<le> m" "m < j" for m
        using that j(5) e Some by (cases "m = i") (auto simp: entry_ptr_def)
      then show ?thesis
        using j True e Some by (auto simp: scan_free.simps [of t i])
    qed
  qed
qed

lemma shrink_last_spec:
  assumes "- 1 \<le> i" "\<And>m. 0 \<le> m \<Longrightarrow> m \<le> i \<Longrightarrow> entry_at t m \<noteq> None"
  shows "\<exists>l. shrink_last t i = Some l \<and> - 1 \<le> l \<and> l \<le> i \<and> (0 \<le> l \<longrightarrow> entry_ptr t l \<noteq> None) \<and>
    (\<forall>m. l < m \<and> m \<le> i \<longrightarrow> entry_ptr t m = None)"
  using assms
proof (induction t i rule: shrink_last.induct)
  case (1 t i)
  show ?case
  proof (cases "i \<ge> 0")
    case False
    with 1(2) show ?thesis by (auto simp: shrink_last.simps [of t i])
  next
    case True
    obtain e where e: "entry_at t i = Some e" using 1(3) [OF True] by auto
    show ?thesis
    proof (cases "ptr e")
      case (Some a)
      with True e show ?thesis by (auto simp: shrink_last.simps [of t i] entry_ptr_def)
    next
      case None
      obtain l where l: "shrink_last t (i - 1) = Some l" "- 1 \<le> l" "l \<le> i - 1"
        "0 \<le> l \<longrightarrow> entry_ptr t l \<noteq> None" "\<forall>m. l < m \<and> m \<le> i - 1 \<longrightarrow> entry_ptr t m = None"
        using 1(1) [OF True e] None True 1(3) by force
      have "entry_ptr t m = None" if "l < m" "m \<le> i" for m
        using that l(5) e None by (cases "m = i") (auto simp: entry_ptr_def)
      then show ?thesis
        using l True e None by (auto simp: shrink_last.simps [of t i])
    qed
  qed
qed

section \<open>Counting references\<close>

definition refers :: "addr \<Rightarrow> handle_entry option \<Rightarrow> bool" where
  "refers a x = (case x of None \<Rightarrow> False | Some e \<Rightarrow> ptr e = Some a)"

definition entry_refs :: "handle_entry option list \<Rightarrow> addr \<Rightarrow> nat" where
  "entry_refs es a = length (filter (refers a) es)"

definition table_refs :: "handle_table option \<Rightarrow> addr \<Rightarrow> nat" where
  "table_refs x a = (case x of None \<Rightarrow> 0 | Some t \<Rightarrow> entry_refs (live_entries t) a)"

definition total_refs :: "server \<Rightarrow> addr \<Rightarrow> nat" where
  "total_refs s a =
     table_refs (global_table s) a + (\<Sum>p\<leftarrow>procs s. table_refs (handles p) a)"

lemma refers_simps [simp]:
  "\<not> refers a None" "refers a (Some e) \<longleftrightarrow> ptr e = Some a"
  by (simp_all add: refers_def)

lemma entry_refs_simps [simp]:
  "entry_refs [] a = 0"
  "entry_refs (x # es) a = (if refers a x then 1 else 0) + entry_refs es a"
  "entry_refs (es @ fs) a = entry_refs es a + entry_refs fs a"
  "entry_refs (replicate n None) a = 0"
  by (simp_all add: entry_refs_def)

lemma entry_refs_update:
  "i < length es \<Longrightarrow> entry_refs (es[i := x]) a + (if refers a (es ! i) then 1 else 0) =
     entry_refs es a + (if refers a x then 1 else 0)"
proof (induction es arbitrary: i)
  case (Cons e es)
  then show ?case using Cons.IH [of "i - 1"] by (cases i) auto
qed simp

lemma sum_list_update_table:
  fixes f :: "process \<Rightarrow> nat"
  shows "p < length ps \<Longrightarrow> (\<Sum>x\<leftarrow>ps[p := q]. f x) + f (ps ! p) = (\<Sum>x\<leftarrow>ps. f x) + f q"
  by (induction ps arbitrary: p) (auto split: nat.split)

definition valid_table :: "table_id \<Rightarrow> server \<Rightarrow> bool" where
  "valid_table tb s = (case tb of Global \<Rightarrow> True | Local p \<Rightarrow> p < length (procs s))"

lemma total_refs_put:
  assumes "valid_table tb s"
  shows "total_refs (put_table tb x s) a + table_refs (get_table tb s) a =
    total_refs s a + table_refs x a"
proof (cases tb)
  case Global
  then show ?thesis by (simp add: total_refs_def)
next
  case (Local p)
  with assms sum_list_update_table [of p "procs s" "\<lambda>p. table_refs (handles p) a"
      "(procs s ! p)\<lparr>handles := x\<rparr>"]
  show ?thesis by (simp add: total_refs_def valid_table_def)
qed

lemma get_put_table:
  assumes "valid_table tb s"
  shows "get_table tb' (put_table tb x s) = (if tb' = tb then x else get_table tb' s)"
  using assms by (cases tb; cases tb') (auto simp: valid_table_def)

lemma get_table_valid: "get_table tb s = Some t \<Longrightarrow> valid_table tb s"
  by (cases tb) (auto simp: valid_table_def split: if_splits)

section \<open>The invariant\<close>

text \<open>
  The objects the running request holds outside the tables: the current thread, and the
  processes and tokens.
\<close>

definition pinned :: "server \<Rightarrow> addr set" where
  "pinned s = {cur_thread_obj s} \<union> set_option (cur_token s) \<union> set_option (cur_impersonation s) \<union>
     process_obj ` set (procs s) \<union> process_token ` set (procs s)"

definition owed :: "server \<Rightarrow> addr \<Rightarrow> object \<Rightarrow> nat" where
  "owed s a obj = handle_count obj + of_bool (is_permanent obj) + of_bool (a \<in> pinned s)"

text \<open>
  \<open>H\<close> counts the references a request in progress holds, \<open>P\<close> the handle counts it has taken for
  entries that are not in a table yet; \<open>k\<close> is the room left below the limit of a reference count.
\<close>

definition handles_ok :: "nat \<Rightarrow> (addr \<Rightarrow> nat) \<Rightarrow> (addr \<Rightarrow> nat) \<Rightarrow> server \<Rightarrow> bool" where
  "handles_ok k H P s \<longleftrightarrow>
     (\<forall>tb t. get_table tb s = Some t \<longrightarrow> table_wf t) \<and>
     (\<forall>a. total_refs s a + P a = (case objs s a of None \<Rightarrow> 0 | Some obj \<Rightarrow> handle_count obj)) \<and>
     (\<forall>a obj. objs s a = Some obj \<longrightarrow>
        1 \<le> refcount obj \<and> owed s a obj + H a \<le> refcount obj \<and> refcount obj + k \<le> INT_MAX) \<and>
     (\<forall>a. 0 < H a \<or> a \<in> pinned s \<longrightarrow> objs s a \<noteq> None) \<and>
     cur_process s < length (procs s)"

lemma handles_okD:
  assumes "handles_ok k H P s"
  shows "get_table tb s = Some t \<Longrightarrow> table_wf t"
    "total_refs s a + P a = (case objs s a of None \<Rightarrow> 0 | Some obj \<Rightarrow> handle_count obj)"
    "objs s a = Some obj \<Longrightarrow>
       1 \<le> refcount obj \<and> owed s a obj + H a \<le> refcount obj \<and> refcount obj + k \<le> INT_MAX"
    "0 < H a \<or> a \<in> pinned s \<Longrightarrow> objs s a \<noteq> None"
    "cur_process s < length (procs s)"
  using assms unfolding handles_ok_def by blast+

lemma handles_okI:
  assumes "\<And>tb t. get_table tb s = Some t \<Longrightarrow> table_wf t"
    "\<And>a. total_refs s a + P a = (case objs s a of None \<Rightarrow> 0 | Some obj \<Rightarrow> handle_count obj)"
    "\<And>a obj. objs s a = Some obj \<Longrightarrow>
       1 \<le> refcount obj \<and> owed s a obj + H a \<le> refcount obj \<and> refcount obj + k \<le> INT_MAX"
    "\<And>a. 0 < H a \<or> a \<in> pinned s \<Longrightarrow> objs s a \<noteq> None"
    "cur_process s < length (procs s)"
  shows "handles_ok k H P s"
  unfolding handles_ok_def using assms by blast

text \<open>What operations on objects leave alone.\<close>

definition same_tables :: "server \<Rightarrow> server \<Rightarrow> bool" where
  "same_tables s s' \<longleftrightarrow>
     procs s' = procs s \<and> global_table s' = global_table s \<and> cur_process s' = cur_process s \<and>
     cur_thread_obj s' = cur_thread_obj s \<and> cur_token s' = cur_token s \<and>
     cur_impersonation s' = cur_impersonation s"

lemma same_tables_refl [simp]: "same_tables s s"
  by (simp add: same_tables_def)

lemma same_tables_trans: "same_tables s t \<Longrightarrow> same_tables t u \<Longrightarrow> same_tables s u"
  by (simp add: same_tables_def)

lemma same_tables_frame:
  assumes "same_tables s s'"
  shows "get_table tb s' = get_table tb s" "total_refs s' a = total_refs s a"
    "pinned s' = pinned s" "procs s' = procs s" "cur_process s' = cur_process s"
    "get_magic_handle h s' = get_magic_handle h s" "get_handle p h s' = get_handle p h s"
    "valid_table tb s' = valid_table tb s" "owed s' a obj = owed s a obj"
proof -
  show tables: "get_table tb s' = get_table tb s" for tb
    using assms by (cases tb) (simp_all add: same_tables_def)
  then show "get_handle p h s' = get_handle p h s"
    by (simp add: get_handle_def)
  show "total_refs s' a = total_refs s a" "procs s' = procs s" "cur_process s' = cur_process s"
    using assms by (simp_all add: same_tables_def total_refs_def)
  show pin: "pinned s' = pinned s"
    using assms by (simp add: same_tables_def pinned_def)
  then show "owed s' a obj = owed s a obj" by (simp add: owed_def)
  show "get_magic_handle h s' = get_magic_handle h s"
    using assms by (simp add: same_tables_def get_magic_handle_def)
  show "valid_table tb s' = valid_table tb s"
    using assms by (simp add: same_tables_def valid_table_def split: table_id.split)
qed

lemma handles_ok_frame:
  assumes "handles_ok k H P s" "same_tables s s'" "objs s' = objs s"
  shows "handles_ok k H P s'"
  using assms(1) unfolding handles_ok_def
  by (simp add: same_tables_frame [OF assms(2)] assms(3))

lemma same_tables_set_error [simp]: "same_tables s (set_error err s)"
  by (simp add: same_tables_def set_error_def)

lemma objs_set_error [simp]: "objs (set_error err s) = objs s"
  by (simp add: set_error_def)

lemma handles_ok_set_error [simp]: "handles_ok k H P (set_error err s) = handles_ok k H P s"
  using handles_ok_frame [of k H P s "set_error err s"] handles_ok_frame [of k H P "set_error err s" s]
  by (auto simp: same_tables_def set_error_def)

lemma handles_ok_le:
  assumes "handles_ok k H P s" "j \<le> k"
  shows "handles_ok j H P s"
  using assms unfolding handles_ok_def by fastforce

section \<open>Taking and dropping references\<close>

lemma same_tables_upd [simp]: "same_tables s (upd_obj a obj s)" "same_tables s (count_type ty n s)"
  by (simp_all add: same_tables_def upd_obj_def count_type_def)

lemma objs_upd [simp]: "objs (upd_obj a obj s) = (objs s)(a \<mapsto> obj)" "objs (count_type ty n s) = objs s"
  by (simp_all add: upd_obj_def count_type_def)

lemma grab_ok:
  assumes ok: "handles_ok (Suc k) H P s" and a: "objs s a \<noteq> None"
  obtains s' where "grab_object a s = Some s'" "handles_ok k (H(a := H a + 1)) P s'"
    "same_tables s s'" "\<And>b. objs s' b = map_option (\<lambda>x. x\<lparr>refcount := refcount x + of_bool (b = a)\<rparr>) (objs s b)"
proof -
  obtain obj where obj: "objs s a = Some obj" using a by auto
  define s' where "s' = upd_obj a (obj\<lparr>refcount := refcount obj + 1\<rparr>) s"
  have st: "same_tables s s'" by (simp add: s'_def)
  have g: "grab_object a s = Some s'"
    using handles_okD(3) [OF ok obj] obj by (simp add: grab_object_def assert_that_def s'_def)
  have "handles_ok k (H(a := H a + 1)) P s'"
  proof (rule handles_okI, unfold same_tables_frame [OF st])
    show "1 \<le> refcount x \<and> owed s b x + (H(a := H a + 1)) b \<le> refcount x \<and> refcount x + k \<le> INT_MAX"
      if "objs s' b = Some x" for b x
      using that handles_okD(3) [OF ok, of b] handles_okD(3) [OF ok obj]
      by (auto simp: s'_def owed_def split: if_splits)
  qed (use handles_okD(1,2,4,5) [OF ok] obj in \<open>auto simp: s'_def split: option.splits if_splits\<close>)
  moreover have "objs s' b = map_option (\<lambda>x. x\<lparr>refcount := refcount x + of_bool (b = a)\<rparr>) (objs s b)" for b
    using obj by (simp add: s'_def option.map_ident)
  ultimately show thesis using that g st by blast
qed

lemma release_held_ok:
  assumes ok: "handles_ok k H P s" and held: "0 < H a"
  obtains s' where "release_object a s = Some s'" "handles_ok k (H(a := H a - 1)) P s'"
    "same_tables s s'" "\<And>b. b \<noteq> a \<Longrightarrow> objs s' b = objs s b"
proof -
  obtain obj where obj: "objs s a = Some obj" using handles_okD(4) [OF ok] held by auto
  note cnt = handles_okD(3) [OF ok obj]
  show thesis
  proof (cases "refcount obj = 1")
    case True
    define s' where "s' = s\<lparr>objs := (objs s)(a := None), dead := a # dead s\<rparr>"
    have zero: "handle_count obj = 0" "H a = 1" "a \<notin> pinned s"
      using cnt held True by (auto simp: owed_def split: if_splits)
    have r: "release_object a s = Some s'"
      using obj True zero by (simp add: release_object_def assert_that_def s'_def)
    have st: "same_tables s s'" by (simp add: same_tables_def s'_def)
    have "handles_ok k (H(a := H a - 1)) P s'"
    proof (rule handles_okI, unfold same_tables_frame [OF st])
      show "total_refs s b + P b = (case objs s' b of None \<Rightarrow> 0 | Some obj \<Rightarrow> handle_count obj)" for b
        using handles_okD(2) [OF ok, of b] obj zero by (auto simp: s'_def)
      show "1 \<le> refcount x \<and> owed s b x + (H(a := H a - 1)) b \<le> refcount x \<and> refcount x + k \<le> INT_MAX"
        if "objs s' b = Some x" for b x
        using that handles_okD(3) [OF ok, of b x] by (auto simp: s'_def split: if_splits)
    qed (use handles_okD(1,4,5) [OF ok] zero in \<open>auto simp: s'_def split: if_splits\<close>)
    from that [OF r this st] show thesis by (simp add: s'_def)
  next
    case False
    define s' where "s' = upd_obj a (obj\<lparr>refcount := refcount obj - 1\<rparr>) s"
    have r: "release_object a s = Some s'"
      using obj False cnt by (simp add: release_object_def assert_that_def s'_def)
    have st: "same_tables s s'" by (simp add: s'_def)
    have "handles_ok k (H(a := H a - 1)) P s'"
    proof (rule handles_okI, unfold same_tables_frame [OF st])
      show "1 \<le> refcount x \<and> owed s b x + (H(a := H a - 1)) b \<le> refcount x \<and> refcount x + k \<le> INT_MAX"
        if "objs s' b = Some x" for b x
        using that handles_okD(3) [OF ok, of b] cnt held False
        by (auto simp: s'_def owed_def split: if_splits)
    qed (use handles_okD(1,2,4,5) [OF ok] obj in \<open>auto simp: s'_def split: option.splits if_splits\<close>)
    from that [OF r this st] show thesis by (simp add: s'_def)
  qed
qed

lemma handles_ok_replace:
  assumes ok: "handles_ok k H P s" and obj: "objs s a = Some obj" and st: "same_tables s s'"
    and new: "objs s' = (objs s)(a \<mapsto> obj')"
    and perm: "is_permanent obj' = is_permanent obj"
    and counts: "handle_count obj' + P a = handle_count obj + P' a" "\<And>b. b \<noteq> a \<Longrightarrow> P' b = P b"
      "refcount obj' + handle_count obj = refcount obj + handle_count obj'"
    and room: "1 \<le> refcount obj'" "refcount obj' + j \<le> INT_MAX" "j \<le> k"
  shows "handles_ok j H P' s'"
proof (rule handles_okI, unfold same_tables_frame [OF st])
  show "total_refs s b + P' b = (case objs s' b of None \<Rightarrow> 0 | Some x \<Rightarrow> handle_count x)" for b
    using handles_okD(2) [OF ok, of b] obj new counts by (cases "b = a") auto
  show "1 \<le> refcount x \<and> owed s b x + H b \<le> refcount x \<and> refcount x + j \<le> INT_MAX"
    if "objs s' b = Some x" for b x
  proof (cases "b = a")
    case True
    then show ?thesis
      using that new room perm counts(3) handles_okD(3) [OF ok obj] by (simp add: owed_def)
  next
    case False
    then show ?thesis using that new room handles_okD(3) [OF ok, of b x] by simp
  qed
  show "objs s' b \<noteq> None" if "0 < H b \<or> b \<in> pinned s" for b
    using handles_okD(4) [OF ok that] new by simp
qed (use handles_okD(1,5) [OF ok] in blast)+

lemma grab_for_handle_ok:
  assumes ok: "handles_ok (Suc k) H P s" and a: "objs s a \<noteq> None"
  obtains s' where "grab_object_for_handle a s = Some s'" "handles_ok k H (P(a := P a + 1)) s'"
    "same_tables s s'" "\<And>b. objs s b \<noteq> None \<Longrightarrow> objs s' b \<noteq> None"
proof -
  obtain obj where obj: "objs s a = Some obj" using a by auto
  define obj' where "obj' = obj\<lparr>handle_count := handle_count obj + 1, refcount := refcount obj + 1\<rparr>"
  define s' where "s' = upd_obj a obj' (count_type (type_of (obj_ops obj))
    (handles_now (type_counts s (type_of (obj_ops obj))) + 1)
    (upd_obj a (obj\<lparr>handle_count := handle_count obj + 1\<rparr>) s))"
  have st: "same_tables s s'"
    by (simp add: s'_def same_tables_def upd_obj_def count_type_def)
  have new: "objs s' = (objs s)(a \<mapsto> obj')" by (simp add: s'_def)
  have "grab_object_for_handle a s = Some s'"
    using handles_okD(3) [OF ok obj] obj
    by (simp add: grab_object_for_handle_def grab_object_def assert_that_def Let_def s'_def obj'_def)
  moreover have "handles_ok k H (P(a := P a + 1)) s'"
    using handles_okD(3) [OF ok obj]
    by (intro handles_ok_replace [OF ok obj st new]) (auto simp: obj'_def)
  moreover have "objs s' b \<noteq> None" if "objs s b \<noteq> None" for b
    using that by (simp add: new)
  ultimately show thesis using st that by blast
qed

lemma release_from_handle_ok:
  assumes ok: "handles_ok k H P s" and held: "0 < P a"
  obtains s' where "release_object_from_handle a s = Some s'" "handles_ok k H (P(a := P a - 1)) s'"
    "same_tables s s'" "\<And>b. b \<noteq> a \<Longrightarrow> objs s' b = objs s b"
proof -
  obtain obj where obj: "objs s a = Some obj" "handle_count obj \<noteq> 0"
    using handles_okD(2) [OF ok, of a] held by (cases "objs s a") auto
  note cnt = handles_okD(3) [OF ok obj(1)]
  define obj1 where "obj1 = obj\<lparr>handle_count := handle_count obj - 1\<rparr>"
  define s1 where "s1 = count_type (type_of (obj_ops obj))
    (handles_now (type_counts s (type_of (obj_ops obj))) - 1) (upd_obj a obj1 s)"
  have st: "same_tables s s1" by (simp add: s1_def same_tables_def upd_obj_def count_type_def)
  have rel: "release_object_from_handle a s = release_object a s1"
    using obj by (simp add: release_object_from_handle_def assert_that_def Let_def s1_def obj1_def)
  have ok1: "handles_ok k (H(a := H a + 1)) (P(a := P a - 1)) s1"
  proof (rule handles_okI, unfold same_tables_frame [OF st])
    show "total_refs s b + (P(a := P a - 1)) b =
        (case objs s1 b of None \<Rightarrow> 0 | Some x \<Rightarrow> handle_count x)" for b
      using handles_okD(2) [OF ok, of b] obj held by (auto simp: s1_def obj1_def)
    show "1 \<le> refcount x \<and> owed s b x + (H(a := H a + 1)) b \<le> refcount x \<and> refcount x + k \<le> INT_MAX"
      if "objs s1 b = Some x" for b x
      using that handles_okD(3) [OF ok, of b x] cnt obj
      by (cases "b = a") (auto simp: s1_def obj1_def owed_def)
    show "objs s1 b \<noteq> None" if "0 < (H(a := H a + 1)) b \<or> b \<in> pinned s" for b
      using that handles_okD(4) [OF ok, of b] by (auto simp: s1_def split: if_splits)
  qed (use handles_okD(1,5) [OF ok] in blast)+
  obtain s' where s': "release_object a s1 = Some s'"
      "handles_ok k ((H(a := H a + 1))(a := (H(a := H a + 1)) a - 1)) (P(a := P a - 1)) s'"
      "same_tables s1 s'" "\<And>b. b \<noteq> a \<Longrightarrow> objs s' b = objs s1 b"
    by (rule release_held_ok [OF ok1, of a]) auto
  have "handles_ok k H (P(a := P a - 1)) s'" using s'(2) by simp
  moreover have "objs s' b = objs s b" if "b \<noteq> a" for b
    using s'(4) [OF that] that by (simp add: s1_def)
  ultimately show thesis
    using that rel s'(1) same_tables_trans [OF st s'(3)] by simp
qed

section \<open>Storing a table\<close>

lemma put_table_simps [simp]:
  "objs (put_table tb x s) = objs s" "cur_process (put_table tb x s) = cur_process s"
  "length (procs (put_table tb x s)) = length (procs s)"
  "valid_table tb' (put_table tb x s) = valid_table tb' s"
  by (cases tb; simp add: valid_table_def split: table_id.split)+

lemma process_field_update:
  assumes "\<And>q. f (q\<lparr>handles := x\<rparr>) = f q"
  shows "map f (ps[p := (ps ! p)\<lparr>handles := x\<rparr>]) = map f ps"
proof (cases "p < length ps")
  case True
  then have "map f (ps[p := (ps ! p)\<lparr>handles := x\<rparr>]) = (map f ps)[p := map f ps ! p]"
    by (simp add: map_update assms)
  then show ?thesis by (simp only: list_update_id)
qed (simp add: list_update_beyond)

lemma pinned_put_table [simp]: "pinned (put_table tb x s) = pinned s"
proof (cases tb)
  case (Local p)
  have "set (map process_obj ((procs s)[p := (procs s ! p)\<lparr>handles := x\<rparr>])) = set (map process_obj (procs s))"
    "set (map process_token ((procs s)[p := (procs s ! p)\<lparr>handles := x\<rparr>])) = set (map process_token (procs s))"
    by (rule arg_cong [of _ _ set], rule process_field_update, simp)+
  with Local show ?thesis by (simp add: pinned_def)
qed (simp add: pinned_def)

lemma owed_put_table [simp]: "owed (put_table tb x s) a obj = owed s a obj"
  by (simp add: owed_def)

lemma put_table_ok:
  assumes ok: "handles_ok k H P s" and tb: "valid_table tb s"
    and wf: "\<And>t. x = Some t \<Longrightarrow> table_wf t"
    and refs: "\<And>a. table_refs (get_table tb s) a + P a = table_refs x a + P' a"
  shows "handles_ok k H P' (put_table tb x s)"
proof (rule handles_okI, simp_all)
  show "table_wf t" if "get_table tb' (put_table tb x s) = Some t" for tb' t
    using that wf handles_okD(1) [OF ok] by (auto simp: get_put_table [OF tb] split: if_splits)
  show "total_refs (put_table tb x s) a + P' a =
      (case objs s a of None \<Rightarrow> 0 | Some obj \<Rightarrow> handle_count obj)" for a
    using handles_okD(2) [OF ok, of a] total_refs_put [OF tb, of x a] refs [of a] by linarith
qed (use handles_okD(3-5) [OF ok] in auto)

section \<open>Changing a table\<close>

text \<open>Everything of \<open>table_wf\<close> except that the last entry is in use.\<close>

definition table_pre :: "handle_table \<Rightarrow> bool" where
  "table_pre t \<longleftrightarrow>
     MIN_HANDLE_ENTRIES \<le> nr_entries t \<and> nr_entries t \<le> MAX_HANDLE_ENTRIES \<and>
     int (length (entries t)) = nr_entries t \<and>
     - 1 \<le> last_entry t \<and> last_entry t < nr_entries t \<and>
     0 \<le> free_from t \<and> free_from t \<le> last_entry t + 1 \<and>
     (\<forall>i. 0 \<le> i \<and> i \<le> last_entry t \<longrightarrow> entry_at t i \<noteq> None) \<and>
     (\<forall>i. 0 \<le> i \<and> i < free_from t \<longrightarrow> entry_ptr t i \<noteq> None)"

lemma table_wf_pre:
  "table_wf t \<longleftrightarrow> table_pre t \<and> (0 \<le> last_entry t \<longrightarrow> entry_ptr t (last_entry t) \<noteq> None)"
  by (simp add: table_wf_def table_pre_def)

lemma table_preD:
  assumes "table_pre t"
  shows "MIN_HANDLE_ENTRIES \<le> nr_entries t" "nr_entries t \<le> MAX_HANDLE_ENTRIES"
    "int (length (entries t)) = nr_entries t"
    "- 1 \<le> last_entry t" "last_entry t < nr_entries t"
    "0 \<le> free_from t" "free_from t \<le> last_entry t + 1"
    "0 \<le> i \<Longrightarrow> i \<le> last_entry t \<Longrightarrow> entry_at t i \<noteq> None"
    "0 \<le> i \<Longrightarrow> i < free_from t \<Longrightarrow> entry_ptr t i \<noteq> None"
  using assms unfolding table_pre_def by blast+

lemma entry_at_fields [simp]:
  "entry_at (t\<lparr>nr_entries := n\<rparr>) = entry_at t" "entry_at (t\<lparr>last_entry := l\<rparr>) = entry_at t"
  "entry_at (t\<lparr>free_from := f\<rparr>) = entry_at t"
  "entry_ptr (t\<lparr>nr_entries := n\<rparr>) = entry_ptr t" "entry_ptr (t\<lparr>last_entry := l\<rparr>) = entry_ptr t"
  "entry_ptr (t\<lparr>free_from := f\<rparr>) = entry_ptr t"
  by (simp_all add: entry_at_def entry_ptr_def fun_eq_iff)

lemma entry_at_update:
  assumes "0 \<le> i" "i < int (length (entries t))"
  shows "entry_at (t\<lparr>entries := (entries t)[nat i := v]\<rparr>) j = (if j = i then v else entry_at t j)"
    "entry_ptr (t\<lparr>entries := (entries t)[nat i := Some e]\<rparr>) j = (if j = i then ptr e else entry_ptr t j)"
  using assms by (auto simp: entry_at_def entry_ptr_def nth_list_update nat_eq_iff)

lemma entry_at_nth: "0 \<le> i \<Longrightarrow> i < int (length (entries t)) \<Longrightarrow> entry_at t i = entries t ! nat i"
  by (simp add: entry_at_def)

lemma refers_entry:
  "0 \<le> i \<Longrightarrow> i < int (length (entries t)) \<Longrightarrow> refers a (entries t ! nat i) \<longleftrightarrow> entry_ptr t i = Some a"
  by (auto simp: entry_ptr_def entry_at_nth refers_def split: option.splits)

lemma table_map_ptr:
  "table_map t i = (if 0 \<le> i \<and> i \<le> last_entry t
     then map_option (\<lambda>a. (a, access (the (entry_at t i)))) (entry_ptr t i) else None)"
  by (simp add: table_map_def entry_ptr_def split: option.splits)

lemma entry_refs_take:
  assumes "m \<le> n" "\<And>j. m \<le> j \<Longrightarrow> j < n \<Longrightarrow> j < length es \<Longrightarrow> \<not> refers a (es ! j)"
  shows "entry_refs (take n es) a = entry_refs (take m es) a"
proof -
  have "take n es = take m es @ take (n - m) (drop m es)"
    using assms(1) by (metis le_add_diff_inverse take_add)
  moreover have "\<not> refers a x" if "x \<in> set (take (n - m) (drop m es))" for x
    using that assms(2) by (auto simp: in_set_conv_nth)
  then have "entry_refs (take (n - m) (drop m es)) a = 0"
    by (simp add: entry_refs_def filter_empty_conv)
  ultimately show ?thesis by simp
qed

lemma grow_wf:
  assumes wf: "table_wf t" and n: "nr_entries t \<le> n" "n \<le> MAX_HANDLE_ENTRIES"
  defines "t' \<equiv> t\<lparr>nr_entries := n, entries := entries t @ replicate (nat n - length (entries t)) None\<rparr>"
  shows "table_wf t'" "table_refs (Some t') a = table_refs (Some t) a" "table_map t' = table_map t"
    "\<And>i. 0 \<le> i \<Longrightarrow> i \<le> last_entry t \<Longrightarrow> entry_ptr t' i = entry_ptr t i"
proof -
  note D = table_wfD [OF wf]
  have same: "entry_at t' i = entry_at t i" if "0 \<le> i" "i \<le> last_entry t" for i
    using that D(3,5) by (simp add: t'_def entry_at_def nth_append nat_less_iff)
  have ptrs: "entry_ptr t' i = entry_ptr t i" if "0 \<le> i" "i \<le> last_entry t" for i
    using same [OF that] by (simp add: entry_ptr_def)
  have "int (length (entries t')) = n" "last_entry t' = last_entry t" "free_from t' = free_from t"
    "nr_entries t' = n"
    using D(3) n by (simp_all add: t'_def)
  then show "table_wf t'"
    using D n same ptrs by (auto simp: table_wf_def)
  show "table_refs (Some t') a = table_refs (Some t) a"
    using D(3,5) by (simp add: table_refs_def live_entries_def t'_def)
  show "table_map t' = table_map t"
    using same by (auto simp: table_map_def t'_def fun_eq_iff)
  show "\<And>i. 0 \<le> i \<Longrightarrow> i \<le> last_entry t \<Longrightarrow> entry_ptr t' i = entry_ptr t i"
    using ptrs .
qed

lemma claim_wf:
  fixes a :: addr and acc :: u32
  assumes wf: "table_wf t" and i: "0 \<le> i" "i < nr_entries t" "i \<le> last_entry t + 1"
    and empty: "i \<le> last_entry t \<Longrightarrow> entry_ptr t i = None"
    and full: "\<And>m. 0 \<le> m \<Longrightarrow> m < i \<Longrightarrow> entry_ptr t m \<noteq> None"
  defines "e \<equiv> \<lparr>ptr = Some a, access = acc\<rparr>"
  defines "t' \<equiv> t\<lparr>last_entry := max (last_entry t) i, free_from := i + 1,
    entries := (entries t)[nat i := Some e]\<rparr>"
  shows "table_wf t'" "table_refs (Some t') b = table_refs (Some t) b + of_bool (b = a)"
    "table_map t' = (table_map t)(i \<mapsto> (a, acc))"
proof -
  note D = table_wfD [OF wf]
  have len: "i < int (length (entries t))" using i D(3) by simp
  have at: "entry_at t' j = (if j = i then Some e else entry_at t j)" for j
    using i(1) len by (auto simp: t'_def entry_at_def nth_list_update nat_eq_iff)
  have pt: "entry_ptr t' j = (if j = i then Some a else entry_ptr t j)" for j
    using at [of j] by (simp add: entry_ptr_def e_def)
  show "table_wf t'"
    unfolding table_wf_def using D i full at pt
    by (auto simp: t'_def max_def)
  show "table_map t' = (table_map t)(i \<mapsto> (a, acc))"
  proof
    fix j
    show "table_map t' j = ((table_map t)(i \<mapsto> (a, acc))) j"
      using i at [of j] by (auto simp: table_map_def t'_def e_def)
  qed
  show "table_refs (Some t') b = table_refs (Some t) b + of_bool (b = a)"
  proof (cases "i \<le> last_entry t")
    case True
    have "entry_refs ((take (nat (last_entry t + 1)) (entries t))[nat i := Some e]) b
        + (if refers b (take (nat (last_entry t + 1)) (entries t) ! nat i) then 1 else 0)
      = entry_refs (take (nat (last_entry t + 1)) (entries t)) b + (if refers b (Some e) then 1 else 0)"
      using True i len by (intro entry_refs_update) (simp add: nat_less_iff)
    then show ?thesis
      using True i refers_entry [OF i(1) len, of b] empty
      by (simp add: table_refs_def live_entries_def t'_def e_def take_update_swap max_def)
  next
    case False
    then have eq: "i = last_entry t + 1" using i by simp
    have "take (nat (i + 1)) ((entries t)[nat i := Some e]) = take (nat i) (entries t) @ [Some e]"
      using i(1) len by (simp add: nat_add_distrib take_Suc_conv_app_nth)
    then show ?thesis
      using eq i(1) by (simp add: table_refs_def live_entries_def t'_def e_def)
  qed
qed

lemma shrink_ok:
  assumes pre: "table_pre t"
  obtains t' s' where "shrink_handle_table t s = Some (t', s')" "table_wf t'"
    "\<And>a. table_refs (Some t') a = table_refs (Some t) a" "table_map t' = table_map t"
    "same_tables s s'" "objs s' = objs s"
proof -
  note D = table_preD [OF pre]
  obtain l where l: "shrink_last t (last_entry t) = Some l" "- 1 \<le> l" "l \<le> last_entry t"
      "0 \<le> l \<longrightarrow> entry_ptr t l \<noteq> None" "\<forall>m. l < m \<and> m \<le> last_entry t \<longrightarrow> entry_ptr t m = None"
    using shrink_last_spec [OF D(4), of t] D(8) by blast
  have free: "free_from t \<le> l + 1"
  proof (rule ccontr)
    assume "\<not> free_from t \<le> l + 1"
    then show False using D(7) D(9) [of "l + 1"] l(2,5) by auto
  qed
  define t1 where "t1 = t\<lparr>last_entry := l\<rparr>"
  have wf1: "table_wf t1"
    using D l free by (auto simp: t1_def table_wf_def)
  have refs1: "table_refs (Some t1) a = table_refs (Some t) a" for a
  proof -
    have "\<not> refers a (entries t ! j)" if "nat (l + 1) \<le> j" "j < nat (last_entry t + 1)" "j < length (entries t)" for j
    proof -
      have "l < int j" "int j \<le> last_entry t" using that(1,2) l(2) by linarith+
      then show ?thesis using l(5) that(3) refers_entry [of "int j" t a] by simp
    qed
    then have "entry_refs (take (nat (last_entry t + 1)) (entries t)) a =
        entry_refs (take (nat (l + 1)) (entries t)) a"
      using l(3) by (intro entry_refs_take) auto
    then show ?thesis by (simp add: table_refs_def live_entries_def t1_def)
  qed
  have map1: "table_map t1 = table_map t"
  proof
    fix i
    show "table_map t1 i = table_map t i"
      using l(3,5) by (auto simp: table_map_ptr t1_def)
  qed
  have mem: "same_tables s (snd (malloc s))" "objs (snd (malloc s)) = objs s"
    by (auto simp: malloc_def same_tables_def split: list.split)
  show thesis
  proof (cases "l < nr_entries t div 4 \<and> MIN_HANDLE_ENTRIES * 2 \<le> nr_entries t \<and> fst (malloc s)")
    case False
    then have "\<exists>s'. shrink_handle_table t s = Some (t1, s') \<and> same_tables s s' \<and> objs s' = objs s"
      using l(1) mem by (auto simp: shrink_handle_table_def Let_def t1_def split: prod.split)
    then show thesis using that wf1 refs1 map1 by blast
  next
    case True
    define n where "n = nr_entries t div 2"
    define t2 where "t2 = t1\<lparr>nr_entries := n, entries := take (nat n) (entries t)\<rparr>"
    have n: "l < n" "MIN_HANDLE_ENTRIES \<le> n" "n \<le> nr_entries t"
      using True by (auto simp: n_def MIN_HANDLE_ENTRIES_def)
    have at: "entry_at t2 i = entry_at t1 i" if "i \<le> l" for i
      using that n D(3) by (auto simp: t2_def t1_def entry_at_def)
    have pt: "entry_ptr t2 i = entry_ptr t1 i" if "i \<le> l" for i
      using at [OF that] by (simp add: entry_ptr_def)
    have "int (length (entries t2)) = n" "nr_entries t2 = n" "last_entry t2 = l"
        "free_from t2 = free_from t1" "last_entry t1 = l"
      using n D(3) by (auto simp: t2_def t1_def MIN_HANDLE_ENTRIES_def)
    then have "table_wf t2"
      using table_wfD [OF wf1] n D(2) at pt by (auto simp: table_wf_def)
    moreover have "table_refs (Some t2) a = table_refs (Some t1) a" for a
    proof -
      have "take (nat (l + 1)) (take (nat n) (entries t)) = take (nat (l + 1)) (entries t)"
        using n(1) by (simp add: min_absorb1)
      then show ?thesis by (simp add: table_refs_def live_entries_def t2_def t1_def)
    qed
    moreover have "table_map t2 = table_map t1"
      using at by (auto simp: table_map_def t2_def t1_def fun_eq_iff)
    moreover have "\<exists>s'. shrink_handle_table t s = Some (t2, s') \<and> same_tables s s' \<and> objs s' = objs s"
      using True l(1) mem
      by (auto simp: shrink_handle_table_def Let_def t2_def t1_def n_def split: prod.split)
    ultimately show thesis using that refs1 map1 by metis
  qed
qed

section \<open>Allocating a handle\<close>

text \<open>What an operation on tables keeps of the rest of the state.\<close>

definition same_context :: "server \<Rightarrow> server \<Rightarrow> bool" where
  "same_context s s' \<longleftrightarrow>
     cur_process s' = cur_process s \<and> cur_thread_obj s' = cur_thread_obj s \<and>
     cur_token s' = cur_token s \<and> cur_impersonation s' = cur_impersonation s \<and>
     map process_obj (procs s') = map process_obj (procs s) \<and>
     map process_token (procs s') = map process_token (procs s)"

lemma same_context_refl [simp]: "same_context s s"
  by (simp add: same_context_def)

lemma same_context_trans: "same_context s t \<Longrightarrow> same_context t u \<Longrightarrow> same_context s u"
  by (simp add: same_context_def)

lemma same_tables_context: "same_tables s s' \<Longrightarrow> same_context s s'"
  by (simp add: same_tables_def same_context_def)

lemma put_table_context [simp]: "same_context s (put_table tb x s)"
proof (cases tb)
  case (Local p)
  then show ?thesis
    by (simp add: same_context_def process_field_update del: map_update)
qed (simp add: same_context_def)

lemma same_context_frame:
  assumes "same_context s s'"
  shows "length (procs s') = length (procs s)" "cur_process s' = cur_process s"
    "cur_token s' = cur_token s" "valid_table tb s' = valid_table tb s"
    "cur_process s < length (procs s) \<Longrightarrow> get_magic_handle h s' = get_magic_handle h s"
proof -
  note c = assms [unfolded same_context_def]
  show len: "length (procs s') = length (procs s)" using c by (metis length_map)
  show "cur_process s' = cur_process s" "cur_token s' = cur_token s" using c by simp_all
  show "valid_table tb s' = valid_table tb s" using len by (simp add: valid_table_def split: table_id.split)
  show "get_magic_handle h s' = get_magic_handle h s" if p: "cur_process s < length (procs s)"
  proof -
    have "process_obj (procs s' ! cur_process s) = process_obj (procs s ! cur_process s)"
      "process_token (procs s' ! cur_process s) = process_token (procs s ! cur_process s)"
      using c p len by (metis nth_map)+
    then show ?thesis using c by (simp add: get_magic_handle_def)
  qed
qed

definition keeps :: "server \<Rightarrow> server \<Rightarrow> bool" where
  "keeps s s' \<longleftrightarrow> same_context s s' \<and> (\<forall>b. objs s b \<noteq> None \<longrightarrow> objs s' b \<noteq> None)"

lemma keepsD:
  assumes "keeps s s'"
  shows "same_context s s'" "objs s b \<noteq> None \<Longrightarrow> objs s' b \<noteq> None"
  using assms by (auto simp: keeps_def)

lemma keeps_trans: "keeps s t \<Longrightarrow> keeps t u \<Longrightarrow> keeps s u"
  unfolding keeps_def using same_context_trans by blast

lemma keeps_refl [simp]: "keeps s s" "keeps s (set_error err s)"
  by (simp_all add: keeps_def same_tables_context)

text \<open>Allocation either reports an error and leaves the tables alone, or adds one entry.\<close>

definition alloc_effect ::
    "table_id \<Rightarrow> handle_table \<Rightarrow> addr \<Rightarrow> u32 \<Rightarrow> server \<Rightarrow> handle \<Rightarrow> server \<Rightarrow> bool" where
  "alloc_effect tb t a acc s h s' \<longleftrightarrow>
     (h = 0 \<and> (\<forall>tb'. get_table tb' s' = get_table tb' s)) \<or>
     (\<exists>i t'. h = index_to_handle i \<and> 0 \<le> i \<and> i < MAX_HANDLE_ENTRIES \<and> table_map t i = None \<and>
        get_table tb s' = Some t' \<and> table_map t' = (table_map t)(i \<mapsto> (a, acc)) \<and>
        (\<forall>tb'. tb' \<noteq> tb \<longrightarrow> get_table tb' s' = get_table tb' s))"

lemma claim_entry_ok:
  assumes ok: "handles_ok (Suc k) H P s" and a: "objs s a \<noteq> None"
    and t0: "get_table tb s = Some t0" and refs: "\<And>b. table_refs (Some t) b = table_refs (Some t0) b"
    and map0: "table_map t = table_map t0"
    and wf: "table_wf t" and i: "0 \<le> i" "i < nr_entries t" "i \<le> last_entry t + 1"
    and empty: "i \<le> last_entry t \<Longrightarrow> entry_ptr t i = None"
    and full: "\<And>m. 0 \<le> m \<Longrightarrow> m < i \<Longrightarrow> entry_ptr t m \<noteq> None"
  obtains h s' where
    "claim_entry tb (t\<lparr>last_entry := max (last_entry t) i\<rparr>) i a acc s = Some (h, s')"
    "handles_ok k H P s'" "keeps s s'" "alloc_effect tb t0 a acc s h s'"
proof -
  define t' where "t' = t\<lparr>last_entry := max (last_entry t) i, free_from := i + 1,
    entries := (entries t)[nat i := Some \<lparr>ptr = Some a, access = acc\<rparr>]\<rparr>"
  note new = claim_wf [OF wf i empty full, where a = a and acc = acc, folded t'_def]
  obtain s1 where s1: "grab_object_for_handle a s = Some s1" "handles_ok k H (P(a := P a + 1)) s1"
      "same_tables s s1" "\<And>b. objs s b \<noteq> None \<Longrightarrow> objs s1 b \<noteq> None"
    using grab_for_handle_ok [OF ok a] by blast
  have tb1: "get_table tb s1 = Some t0" and val: "valid_table tb s1"
    using t0 get_table_valid same_tables_frame(1) [OF s1(3)] by auto
  have res: "claim_entry tb (t\<lparr>last_entry := max (last_entry t) i\<rparr>) i a acc s =
      Some (index_to_handle i, put_table tb (Some t') s1)"
    using s1(1) i table_wfD(3) [OF wf] by (simp add: claim_entry_def write_entry_def t'_def)
  have "handles_ok k H P (put_table tb (Some t') s1)"
    by (rule put_table_ok [OF s1(2) val]) (use new refs tb1 in auto)
  moreover have "keeps s (put_table tb (Some t') s1)"
    using s1(4) same_context_trans [OF same_tables_context [OF s1(3)] put_table_context]
    by (simp add: keeps_def)
  moreover have "table_map t i = None"
    using empty by (simp add: table_map_ptr)
  then have "alloc_effect tb t0 a acc s (index_to_handle i) (put_table tb (Some t') s1)"
    unfolding alloc_effect_def using i table_wfD(2) [OF wf] new(3) map0
    by (intro disjI2 exI [of _ i] exI [of _ t'])
       (auto simp: get_put_table [OF val] same_tables_frame(1) [OF s1(3)])
  ultimately show thesis using that res by blast
qed

lemma malloc_frame: "malloc s = (b, s') \<Longrightarrow> same_tables s s' \<and> objs s' = objs s"
  by (auto simp: malloc_def same_tables_def split: list.splits)

lemma mem_alloc_frame: "mem_alloc s = (b, s') \<Longrightarrow> same_tables s s' \<and> objs s' = objs s"
  by (auto simp: mem_alloc_def same_tables_def set_error_def malloc_def Let_def
      split: list.splits if_splits prod.splits)

lemma grow_cases:
  assumes wf: "table_wf t"
  obtains (full) s' where "grow_handle_table t s = (None, s')" "same_tables s s'" "objs s' = objs s"
  | (grown) n s' where "grow_handle_table t s = (Some (t\<lparr>nr_entries := n,
        entries := entries t @ replicate (nat n - length (entries t)) None\<rparr>), s')"
      "nr_entries t < n" "n \<le> MAX_HANDLE_ENTRIES" "same_tables s s'" "objs s' = objs s"
proof -
  define n where "n = min (nr_entries t * 2) MAX_HANDLE_ENTRIES"
  obtain b s1 where m: "malloc s = (b, s1)" by fastforce
  note f = malloc_frame [OF m]
  have err: "same_tables s (set_error e s1)" for e
    using f same_tables_trans same_tables_set_error by blast
  show thesis
  proof (cases "n = nr_entries t \<or> \<not> b")
    case True
    let ?s = "set_error STATUS_INSUFFICIENT_RESOURCES (if n = nr_entries t then s else s1)"
    have "grow_handle_table t s = (None, ?s)"
      using True m by (auto simp: grow_handle_table_def Let_def n_def)
    moreover have "same_tables s ?s" "objs ?s = objs s" using f err by auto
    ultimately show thesis by (rule full)
  next
    case False
    moreover have "nr_entries t < n" "n \<le> MAX_HANDLE_ENTRIES"
      using False table_wfD(1,2) [OF wf] by (auto simp: n_def min_def MIN_HANDLE_ENTRIES_def)
    ultimately show thesis
      using m f by (intro grown [of n s1]) (auto simp: grow_handle_table_def Let_def n_def)
  qed
qed

lemma alloc_entry_ok:
  assumes ok: "handles_ok (Suc k) H P s" and a: "objs s a \<noteq> None" and t: "get_table tb s = Some t"
  obtains h s' where "alloc_entry tb a acc s = Some (h, s')" "handles_ok k H P s'" "keeps s s'"
    "alloc_effect tb t a acc s h s'"
proof -
  have wf: "table_wf t" using handles_okD(1) [OF ok t] .
  note D = table_wfD [OF wf]
  obtain j b where j: "scan_free t (free_from t) = Some (j, b)" "free_from t \<le> j"
      "b \<longrightarrow> j \<le> last_entry t \<and> entry_ptr t j = None" "\<not> b \<longrightarrow> j = last_entry t + 1"
      "\<forall>m. free_from t \<le> m \<and> m < j \<longrightarrow> entry_ptr t m \<noteq> None"
    using scan_free_spec [OF wf D(6,7)] by blast
  have full: "entry_ptr t m \<noteq> None" if "0 \<le> m" "m < j" for m
    using that j(5) D(9) by (cases "m < free_from t") auto
  have j0: "0 \<le> j" "j \<le> last_entry t + 1" using j D(6) by (cases b; simp)+
  have empty: "entry_ptr t j = None" if "j \<le> last_entry t" using that j(3,4) by (cases b) auto
  show thesis
  proof (cases "j < nr_entries t")
    case True
    have same: "t\<lparr>last_entry := max (last_entry t) j\<rparr> = (if b then t else t\<lparr>last_entry := j\<rparr>)"
      using j(3,4) by (cases b) (simp_all add: max_def)
    have "alloc_entry tb a acc s = claim_entry tb (t\<lparr>last_entry := max (last_entry t) j\<rparr>) j a acc s"
      using j(1,3) t True same by (auto simp: alloc_entry_def)
    with claim_entry_ok [OF ok a t refl refl wf j0(1) True j0(2) empty full, where acc = acc]
    show thesis using that by metis
  next
    case False
    then have nb: "\<not> b" "j = last_entry t + 1" "j = nr_entries t" using j(3,4) D(5) by auto
    show thesis
    proof (cases rule: grow_cases [OF wf, of s, case_names full grown])
      case (full s')
      have "alloc_entry tb a acc s = Some (0, s')"
        using j(1) t nb full(1) by (simp add: alloc_entry_def)
      moreover have "alloc_effect tb t a acc s 0 s'"
        by (simp add: alloc_effect_def same_tables_frame(1) [OF full(2)])
      moreover have "keeps s s'" using full(2,3) by (simp add: keeps_def same_tables_context)
      ultimately show thesis
        using that handles_ok_le [OF handles_ok_frame [OF ok full(2,3)], of k] by simp
    next
      case (grown n s')
      define u where "u = t\<lparr>nr_entries := n,
        entries := entries t @ replicate (nat n - length (entries t)) None\<rparr>"
      have n: "nr_entries t \<le> n" using grown(2) by simp
      note g = grow_wf [OF wf n grown(3), folded u_def]
      have lu: "last_entry u = last_entry t" "nr_entries u = n" by (simp_all add: u_def)
      have ok': "handles_ok (Suc k) H P s'" by (rule handles_ok_frame [OF ok grown(4,5)])
      have eq: "u\<lparr>last_entry := max (last_entry u) j\<rparr> = u\<lparr>last_entry := j\<rparr>"
        using nb lu by (simp add: max_def)
      have call: "alloc_entry tb a acc s = claim_entry tb (u\<lparr>last_entry := max (last_entry u) j\<rparr>) j a acc s'"
        using j(1) t nb grown(1) unfolding eq by (simp add: alloc_entry_def u_def)
      have jn: "j < nr_entries u" "j \<le> last_entry u + 1" using nb grown(2) lu by simp_all
      have f2: "entry_ptr u m \<noteq> None" if "0 \<le> m" "m < j" for m
        using full [OF that] g(4) [OF that(1)] that(2) nb by simp
      have e2: "j \<le> last_entry u \<Longrightarrow> entry_ptr u j = None" using nb lu by simp
      have a': "objs s' a \<noteq> None" using a grown(5) by simp
      have t': "get_table tb s' = Some t" using t same_tables_frame(1) [OF grown(4)] by simp
      obtain h s2 where c: "claim_entry tb (u\<lparr>last_entry := max (last_entry u) j\<rparr>) j a acc s' = Some (h, s2)"
          "handles_ok k H P s2" "keeps s' s2" "alloc_effect tb t a acc s' h s2"
        using claim_entry_ok [OF ok' a' t' g(2) g(3) g(1) j0(1) jn e2 f2, where acc = acc] by metis
      have "keeps s s2"
        using c(3) grown(4,5) same_context_trans [OF same_tables_context [OF grown(4)]]
        by (auto simp: keeps_def)
      moreover have "alloc_effect tb t a acc s h s2"
        using c(4) by (simp add: alloc_effect_def same_tables_frame(1) [OF grown(4)])
      ultimately show thesis using that call c(1,2) by simp
    qed
  qed
qed

end
