(* ===== verification/Wine_Handle_Safety.thy ===== *)
theory Wine_Handle_Safety
  imports Wine_Handle_Invariant
begin

text \<open>
  The requests on handles are safe: every one keeps the invariant of the tables and of the counts
  of the objects they refer to, and under it no request reads or writes outside a table, reads
  a slot that was never written, or fails an assertion; and what allocating and closing do to
  the map from handles to objects.
\<close>

section \<open>Looking up a handle\<close>

lemma table_refs_total: "valid_table tb s \<Longrightarrow> table_refs (get_table tb s) a \<le> total_refs s a"
proof (cases tb)
  case (Local p)
  assume "valid_table tb s"
  then have "table_refs (handles (procs s ! p)) a \<le> (\<Sum>p\<leftarrow>procs s. table_refs (handles p) a)"
    using Local by (intro member_le_sum_list) (auto simp: valid_table_def)
  with Local show ?thesis by (auto simp: total_refs_def table_refs_def)
qed (simp add: total_refs_def)

lemma entry_counted:
  assumes wf: "table_wf t" and i: "0 \<le> i" "i \<le> last_entry t" and a: "entry_ptr t i = Some a"
  shows "0 < table_refs (Some t) a"
proof -
  note D = table_wfD [OF wf]
  have "i < int (length (entries t))" using i D(3,5) by simp
  then have "refers a (live_entries t ! nat i)" "nat i < length (live_entries t)"
    using i a refers_entry [of i t a] by (auto simp: live_entries_def nat_less_iff)
  then show ?thesis
    using nth_mem by (force simp: table_refs_def entry_refs_def filter_empty_conv)
qed

lemma entry_alive:
  assumes ok: "handles_ok k H P s" and t: "get_table tb s = Some t"
    and i: "0 \<le> i" "i \<le> last_entry t" and a: "entry_ptr t i = Some a"
  shows "objs s a \<noteq> None"
proof
  assume "objs s a = None"
  then have "total_refs s a = 0" using handles_okD(2) [OF ok, of a] by simp
  moreover have "0 < table_refs (Some t) a"
    by (rule entry_counted [OF handles_okD(1) [OF ok t] i a])
  ultimately show False using table_refs_total [OF get_table_valid [OF t], of a] t by simp
qed

definition handle_table_id :: "pid \<Rightarrow> handle \<Rightarrow> table_id" where
  "handle_table_id p h = (if handle_is_global h then Global else Local p)"

definition handle_index :: "handle \<Rightarrow> int" where
  "handle_index h = handle_to_index (if handle_is_global h then handle_global_to_local h else h)"

lemma get_handle_alt:
  "get_handle p h s = (case get_table (handle_table_id p h) s of
     None \<Rightarrow> Some None
   | Some t \<Rightarrow>
       if handle_index h < 0 \<or> handle_index h > last_entry t then Some None
       else do {
         e \<leftarrow> entry_at t (handle_index h);
         Some (if ptr e = None then None else Some (handle_table_id p h, handle_index h, e))
       })"
  unfolding get_handle_def handle_table_id_def handle_index_def Let_def
  by (cases "handle_is_global h") (simp_all split: option.split)

lemma get_handle_cases:
  assumes ok: "handles_ok k H P s"
  obtains (invalid) "get_handle p h s = Some None"
      "\<And>t. get_table (handle_table_id p h) s = Some t \<Longrightarrow> table_map t (handle_index h) = None"
  | (valid) t e a where "get_handle p h s = Some (Some (handle_table_id p h, handle_index h, e))"
      "get_table (handle_table_id p h) s = Some t" "table_wf t" "0 \<le> handle_index h"
      "handle_index h \<le> last_entry t" "entry_at t (handle_index h) = Some e" "ptr e = Some a"
      "objs s a \<noteq> None"
proof (cases "get_table (handle_table_id p h) s")
  case None
  then show thesis
    by (intro invalid) (auto simp: get_handle_alt)
next
  case (Some t)
  have wf: "table_wf t" by (rule handles_okD(1) [OF ok Some])
  show thesis
  proof (cases "0 \<le> handle_index h \<and> handle_index h \<le> last_entry t")
    case False
    with Some show thesis
      by (intro invalid) (auto simp: get_handle_alt table_map_def)
  next
    case True
    then obtain e where e: "entry_at t (handle_index h) = Some e"
      using table_wfD(8) [OF wf] by blast
    have g: "get_handle p h s =
        Some (if ptr e = None then None else Some (handle_table_id p h, handle_index h, e))"
      using Some True e by (simp add: get_handle_alt)
    show thesis
    proof (cases "ptr e")
      case None
      with g e Some show thesis by (intro invalid) (auto simp: table_map_def)
    next
      case ptr: (Some a)
      have "entry_ptr t (handle_index h) = Some a" using e ptr by (simp add: entry_ptr_def)
      then have "objs s a \<noteq> None" using entry_alive [OF ok Some] True by blast
      with g e ptr Some True wf show thesis by (intro valid) auto
    qed
  qed
qed

definition hold :: "addr option \<Rightarrow> (addr \<Rightarrow> nat) \<Rightarrow> addr \<Rightarrow> nat" where
  "hold r H = (case r of None \<Rightarrow> H | Some a \<Rightarrow> H(a := H a + 1))"

lemma hold_simps [simp]: "hold None H = H" "hold (Some a) H = H(a := H a + 1)"
  by (simp_all add: hold_def)

lemma magic_alive:
  assumes ok: "handles_ok k H P s" and m: "get_magic_handle h s = Some a"
  shows "objs s a \<noteq> None"
proof -
  have "a \<in> pinned s"
    using m handles_okD(5) [OF ok] by (auto simp: get_magic_handle_def pinned_def split: if_splits)
  then show ?thesis using handles_okD(4) [OF ok] by blast
qed

lemma grab_keeps:
  assumes ok: "handles_ok (Suc k) H P s" and a: "objs s a \<noteq> None"
  obtains s' where "grab_object a s = Some s'" "handles_ok k (hold (Some a) H) P s'"
    "same_tables s s'" "keeps s s'"
proof -
  obtain s' where s': "grab_object a s = Some s'" "handles_ok k (H(a := H a + 1)) P s'"
    "same_tables s s'" "\<And>b. objs s' b = map_option (\<lambda>x. x\<lparr>refcount := refcount x + of_bool (b = a)\<rparr>) (objs s b)"
    using grab_ok [OF ok a] by blast
  have "keeps s s'" using s'(3,4) by (auto simp: keeps_def same_tables_context)
  then show thesis using that s' by simp
qed

lemma get_handle_obj_ok:
  assumes ok: "handles_ok (Suc k) H P s"
  shows "\<exists>r s'. get_handle_obj p h acc q s = Some (r, s') \<and> handles_ok k (hold r H) P s' \<and>
    same_tables s s' \<and> keeps s s'"
proof -
  have grab: "\<exists>s'. grab_object a s = Some s' \<and> handles_ok k (hold (Some a) H) P s' \<and>
      same_tables s s' \<and> keeps s s'" if "objs s a \<noteq> None" for a
    using grab_keeps [OF ok that] by blast
  have err: "handles_ok k (hold None H) P (set_error e s) \<and> same_tables s (set_error e s) \<and>
      keeps s (set_error e s)" for e
    using handles_ok_le [OF ok, of k] by simp
  show ?thesis
  proof (cases "get_magic_handle h s")
    case (Some a)
    then obtain obj where obj: "objs s a = Some obj" using magic_alive [OF ok Some] by auto
    then obtain s' where s': "grab_object a s = Some s'" "handles_ok k (hold (Some a) H) P s'"
        "same_tables s s'" "keeps s s'" using grab [of a] by auto
    show ?thesis
      using Some obj s' err by (cases "q \<noteq> None \<and> q \<noteq> Some (obj_ops obj)") (auto simp: get_handle_obj_def)
  next
    case None
    show ?thesis
    proof (cases rule: get_handle_cases [OF ok, of p h, case_names invalid valid])
      case invalid
      then show ?thesis using None err by (auto simp: get_handle_obj_def)
    next
      case (valid t e a)
      then obtain obj where obj: "objs s a = Some obj" by auto
      then obtain s' where s': "grab_object a s = Some s'" "handles_ok k (hold (Some a) H) P s'"
          "same_tables s s'" "keeps s s'" using grab [of a] by auto
      consider "q \<noteq> None \<and> q \<noteq> Some (obj_ops obj)"
        | "\<not> (q \<noteq> None \<and> q \<noteq> Some (obj_ops obj))" "access e AND acc \<noteq> acc"
        | "\<not> (q \<noteq> None \<and> q \<noteq> Some (obj_ops obj))" "access e AND acc = acc" by blast
      then show ?thesis
        using None valid(1,7) obj s' err by cases (auto simp: get_handle_obj_def)
    qed
  qed
qed

section \<open>Changing and closing an entry\<close>

lemma access_wf:
  fixes x :: u32
  assumes wf: "table_wf t" and i: "0 \<le> i" "i \<le> last_entry t"
    and e: "entry_at t i = Some e" "ptr e = Some a"
  defines "t' \<equiv> t\<lparr>entries := (entries t)[nat i := Some (e\<lparr>access := x\<rparr>)]\<rparr>"
  shows "table_wf t'" "table_refs (Some t') b = table_refs (Some t) b"
    "table_map t' = (table_map t)(i \<mapsto> (a, x))"
proof -
  note D = table_wfD [OF wf]
  have len: "i < int (length (entries t))" using i D(3,5) by simp
  have at: "entry_at t' j = (if j = i then Some (e\<lparr>access := x\<rparr>) else entry_at t j)" for j
    unfolding t'_def by (rule entry_at_update(1) [OF i(1) len])
  have pt: "entry_ptr t' j = entry_ptr t j" for j
    using at [of j] e by (simp add: entry_ptr_def)
  show "table_wf t'"
    unfolding table_wf_def using D at pt by (auto simp: t'_def)
  show "table_map t' = (table_map t)(i \<mapsto> (a, x))"
  proof
    fix j
    show "table_map t' j = ((table_map t)(i \<mapsto> (a, x))) j"
      using i e at [of j] by (auto simp: table_map_def t'_def)
  qed
  have "entry_refs ((live_entries t)[nat i := Some (e\<lparr>access := x\<rparr>)]) b
      + (if refers b (live_entries t ! nat i) then 1 else 0)
    = entry_refs (live_entries t) b + (if refers b (Some (e\<lparr>access := x\<rparr>)) then 1 else 0)"
    using i len by (intro entry_refs_update) (simp add: live_entries_def nat_less_iff)
  moreover have "live_entries t ! nat i = Some e"
    using i len e(1) by (simp add: live_entries_def entry_at_nth)
  moreover have "live_entries t' = (live_entries t)[nat i := Some (e\<lparr>access := x\<rparr>)]"
    by (simp add: live_entries_def t'_def take_update_swap)
  ultimately show "table_refs (Some t') b = table_refs (Some t) b"
    by (simp add: table_refs_def)
qed

lemma set_access_ok:
  assumes ok: "handles_ok k H P s" and t: "get_table tb s = Some t"
    and i: "0 \<le> i" "i \<le> last_entry t" and e: "entry_at t i = Some e" "ptr e = Some a"
  obtains t' where "write_entry t i (e\<lparr>access := x\<rparr>) = Some t'"
    "handles_ok k H P (put_table tb (Some t') s)" "table_map t' = (table_map t)(i \<mapsto> (a, x))"
proof -
  have wf: "table_wf t" by (rule handles_okD(1) [OF ok t])
  note new = access_wf [OF wf i e, where x = x]
  have "write_entry t i (e\<lparr>access := x\<rparr>) =
      Some (t\<lparr>entries := (entries t)[nat i := Some (e\<lparr>access := x\<rparr>)]\<rparr>)"
    using i table_wfD(3,5) [OF wf] by (simp add: write_entry_def)
  moreover have "handles_ok k H P (put_table tb
      (Some (t\<lparr>entries := (entries t)[nat i := Some (e\<lparr>access := x\<rparr>)]\<rparr>)) s)"
    by (rule put_table_ok [OF ok get_table_valid [OF t]]) (use new t in auto)
  ultimately show thesis using that new(3) by blast
qed

lemma put_table_keeps [simp]: "keeps s (put_table tb x s)"
  by (simp add: keeps_def)

lemma set_handle_flags_ok:
  assumes ok: "handles_ok k H P s"
  shows "\<exists>r s'. set_handle_flags p h m f s = Some (r, s') \<and> handles_ok k H P s' \<and> keeps s s'"
proof (cases "get_magic_handle h s")
  case (Some a)
  with ok show ?thesis by (auto simp: set_handle_flags_def)
next
  case None
  show ?thesis
  proof (cases rule: get_handle_cases [OF ok, of p h, case_names invalid valid])
    case invalid
    then show ?thesis using None ok by (auto simp: set_handle_flags_def)
  next
    case (valid t e a)
    define x where "x = (access e AND NOT (push_bit RESERVED_SHIFT m AND RESERVED_ALL)) OR
      (push_bit RESERVED_SHIFT f AND (push_bit RESERVED_SHIFT m AND RESERVED_ALL))"
    obtain t' where "write_entry t (handle_index h) (e\<lparr>access := x\<rparr>) = Some t'"
        "handles_ok k H P (put_table (handle_table_id p h) (Some t') s)"
      using set_access_ok [OF ok valid(2,4-7)] by blast
    then show ?thesis
      using None valid by (auto simp: set_handle_flags_def Let_def x_def)
  qed
qed

lemma clear_pre:
  assumes wf: "table_wf t" and i: "0 \<le> i" "i \<le> last_entry t"
    and e: "entry_at t i = Some e" "ptr e = Some a"
  defines "t' \<equiv> t\<lparr>entries := (entries t)[nat i := Some (e\<lparr>ptr := None\<rparr>)],
    free_from := min (free_from t) i\<rparr>"
  shows "table_pre t'" "table_refs (Some t') b + of_bool (b = a) = table_refs (Some t) b"
    "table_map t' = (table_map t)(i := None)" "i \<noteq> last_entry t \<Longrightarrow> table_wf t'"
proof -
  note D = table_wfD [OF wf]
  have len: "i < int (length (entries t))" using i D(3,5) by simp
  have at: "entry_at t' j = (if j = i then Some (e\<lparr>ptr := None\<rparr>) else entry_at t j)" for j
    using i(1) len by (auto simp: t'_def entry_at_def nth_list_update nat_eq_iff)
  have pt: "entry_ptr t' j = (if j = i then None else entry_ptr t j)" for j
    using at [of j] by (simp add: entry_ptr_def)
  show pre: "table_pre t'"
    unfolding table_pre_def using D i at pt by (auto simp: t'_def min_def)
  show "table_wf t'" if "i \<noteq> last_entry t"
    unfolding table_wf_pre using pre that D(10) pt [of "last_entry t"] by (simp add: t'_def)
  show "table_map t' = (table_map t)(i := None)"
  proof
    fix j
    show "table_map t' j = ((table_map t)(i := None)) j"
      using at [of j] by (auto simp: table_map_def t'_def)
  qed
  have "entry_refs ((live_entries t)[nat i := Some (e\<lparr>ptr := None\<rparr>)]) b
      + (if refers b (live_entries t ! nat i) then 1 else 0)
    = entry_refs (live_entries t) b + (if refers b (Some (e\<lparr>ptr := None\<rparr>)) then 1 else 0)"
    using i len by (intro entry_refs_update) (simp add: live_entries_def nat_less_iff)
  moreover have "live_entries t ! nat i = Some e"
    using i len e(1) by (simp add: live_entries_def entry_at_nth)
  moreover have "live_entries t' = (live_entries t)[nat i := Some (e\<lparr>ptr := None\<rparr>)]"
    by (simp add: live_entries_def t'_def take_update_swap)
  ultimately show "table_refs (Some t') b + of_bool (b = a) = table_refs (Some t) b"
    using e(2) by (auto simp: table_refs_def)
qed

text \<open>Closing a local handle: either an error, or the entry is gone and nothing else changed.\<close>

definition close_effect :: "pid \<Rightarrow> handle \<Rightarrow> server \<Rightarrow> u32 \<Rightarrow> server \<Rightarrow> bool" where
  "close_effect p h s err s' \<longleftrightarrow>
     (err \<noteq> 0 \<and> s' = s) \<or>
     (err = 0 \<and> (\<exists>t t'. get_table (Local p) s = Some t \<and> get_table (Local p) s' = Some t' \<and>
        table_map t (handle_to_index h) \<noteq> None \<and>
        table_map t' = (table_map t)(handle_to_index h := None)) \<and>
        (\<forall>tb. tb \<noteq> Local p \<longrightarrow> get_table tb s' = get_table tb s))"

lemma clear_entry_ok:
  assumes wf: "table_wf t" and i: "0 \<le> i" "i \<le> last_entry t"
    and e: "entry_at t i = Some e" "ptr e = Some a"
  obtains t' s' where "clear_entry t i s = Some (t', s')" "table_wf t'"
    "\<And>b. table_refs (Some t') b + of_bool (b = a) = table_refs (Some t) b"
    "table_map t' = (table_map t)(i := None)" "same_tables s s'" "objs s' = objs s"
proof -
  define t1 where "t1 = t\<lparr>entries := (entries t)[nat i := Some (e\<lparr>ptr := None\<rparr>)],
    free_from := min (free_from t) i\<rparr>"
  note c = clear_pre [OF wf i e, folded t1_def]
  have w: "write_entry t i (e\<lparr>ptr := None\<rparr>) = Some (t\<lparr>entries := (entries t)[nat i := Some (e\<lparr>ptr := None\<rparr>)]\<rparr>)"
    using i table_wfD(3,5) [OF wf] by (simp add: write_entry_def)
  have eq: "clear_entry t i s = (if i = last_entry t then shrink_handle_table t1 s else Some (t1, s))"
    using e w by (cases "i < free_from t") (simp_all add: clear_entry_def Let_def t1_def min_def)
  show thesis
  proof (cases "i = last_entry t")
    case True
    obtain t2 s2 where t2: "shrink_handle_table t1 s = Some (t2, s2)" "table_wf t2"
      "\<And>b. table_refs (Some t2) b = table_refs (Some t1) b" "table_map t2 = table_map t1"
      "same_tables s s2" "objs s2 = objs s" using shrink_ok [OF c(1), of s] by blast
    show thesis by (rule that [of t2 s2]) (use True t2 eq c in simp_all)
  next
    case False
    show thesis by (rule that [of t1 s]) (use False eq c in simp_all)
  qed
qed

lemma close_handle_ok:
  assumes ok: "handles_ok k H P s" and local: "\<not> handle_is_global h"
  shows "\<exists>err s'. close_handle E p h s = Some (err, s') \<and> handles_ok k H P s' \<and>
    same_context s s' \<and> close_effect p h s err s'"
proof (cases rule: get_handle_cases [OF ok, of p h, case_names invalid valid])
  case invalid
  then show ?thesis
    using ok by (auto simp: close_handle_def close_effect_def STATUS_INVALID_HANDLE_def)
next
  case (valid t e a)
  have id: "handle_table_id p h = Local p" "handle_index h = handle_to_index h"
    using local by (simp_all add: handle_table_id_def handle_index_def)
  note v = valid [unfolded id]
  show ?thesis
  proof (cases "has_bits (access e) RESERVED_CLOSE_PROTECT \<or> \<not> may_close E a p h")
    case True
    then have "close_handle E p h s = Some (STATUS_HANDLE_NOT_CLOSABLE, s)"
      using v by (auto simp: close_handle_def Let_def)
    then show ?thesis using ok by (auto simp: close_effect_def STATUS_HANDLE_NOT_CLOSABLE_def)
  next
    case False
    obtain t2 s2 where t2: "clear_entry t (handle_to_index h) s = Some (t2, s2)" "table_wf t2"
      "\<And>b. table_refs (Some t2) b + of_bool (b = a) = table_refs (Some t) b"
      "table_map t2 = (table_map t)(handle_to_index h := None)" "same_tables s s2" "objs s2 = objs s"
      using clear_entry_ok [OF v(3-7), of s] by blast
    have ok2: "handles_ok k H P s2" by (rule handles_ok_frame [OF ok t2(5,6)])
    have tb2: "get_table (Local p) s2 = Some t" "valid_table (Local p) s2"
      using v(2) get_table_valid [OF v(2)] same_tables_frame(1,8) [OF t2(5)] by simp_all
    have "handles_ok k H (P(a := P a + 1)) (put_table (Local p) (Some t2) s2)"
    proof (rule put_table_ok [OF ok2 tb2(2)])
      show "table_refs (get_table (Local p) s2) b + P b = table_refs (Some t2) b + (P(a := P a + 1)) b" for b
        unfolding tb2(1) using t2(3) [of b] by auto
    qed (use t2(2) in auto)
    then obtain s3 where s3: "release_object_from_handle a (put_table (Local p) (Some t2) s2) = Some s3"
        "handles_ok k H P s3" "same_tables (put_table (Local p) (Some t2) s2) s3"
      by (rule release_from_handle_ok [of _ _ _ _ a]) auto
    have "close_handle E p h s = Some (0, s3)"
      using v(1,2,7) False t2(1) s3(1) by (simp add: close_handle_def Let_def del: get_table.simps put_table.simps)
    moreover have "same_context s s3"
      using same_context_trans [OF same_context_trans [OF same_tables_context [OF t2(5)] put_table_context]
        same_tables_context [OF s3(3)]] .
    moreover have "table_map t (handle_to_index h) \<noteq> None" using v(4-7) by (simp add: table_map_def)
    then have "close_effect p h s 0 s3"
      unfolding close_effect_def using v(2) t2(4)
      by (auto simp: same_tables_frame(1) [OF s3(3)] get_put_table [OF tb2(2)]
        same_tables_frame(1) [OF t2(5)] simp del: get_table.simps put_table.simps)
    ultimately show ?thesis using s3(2) by blast
  qed
qed

section \<open>Rights of a new handle\<close>

text \<open>
  What the server relies on in its environment: neither the full access of an object type nor
  the rights a token check grants use the bits reserved for handle flags.
\<close>

definition env_ok :: "env \<Rightarrow> bool" where
  "env_ok E \<longleftrightarrow>
     (\<forall>q. \<not> has_bits (other_map_access E q GENERIC_ALL) RESERVED_ALL) \<and>
     (\<forall>tok a acc g. token_check E tok a acc = Some g \<longrightarrow> \<not> has_bits acc RESERVED_ALL \<longrightarrow>
        \<not> has_bits g RESERVED_ALL)"

lemma full_access_unreserved:
  assumes "env_ok E"
  shows "\<not> has_bits (ops_map_access E q GENERIC_ALL) RESERVED_ALL"
proof (cases "type_of q")
  case (Other_type q')
  then show ?thesis using assms by (simp add: ops_map_access.simps env_ok_def)
qed (simp_all add: ops_map_access.simps map_access_def add_bits_def has_bits_def right_defs
    handle_consts semaphore_type_def mutex_type_def event_type_def no_type_def)

lemma masked_unreserved [simp]: "\<not> has_bits (x AND NOT RESERVED_ALL) RESERVED_ALL"
  by (simp add: has_bits_def and.assoc)

lemma has_bits_complement: "has_bits w (NOT w) = False"
  by (simp add: has_bits_def)

lemma check_access_ok:
  assumes E: "env_ok E" and a: "objs s a \<noteq> None"
  shows "\<exists>r s'. check_object_access E tok a acc s = Some (r, s') \<and> same_tables s s' \<and> objs s' = objs s \<and>
    (\<not> has_bits acc RESERVED_ALL \<longrightarrow> (\<forall>g. r = Some g \<longrightarrow> \<not> has_bits g RESERVED_ALL))"
proof -
  obtain obj where obj: "objs s a = Some obj" using a by auto
  define t where "t = (case tok of Some t \<Rightarrow> t
    | None \<Rightarrow> (case cur_token s of Some t \<Rightarrow> t | None \<Rightarrow> process_token (procs s ! cur_process s)))"
  show ?thesis
  proof (cases "has_sd obj")
    case False
    then show ?thesis
      using obj full_access_unreserved [OF E]
      by (simp add: check_object_access_def Let_def del: split_paired_Ex)
  next
    case True
    then show ?thesis
      using obj E unfolding check_object_access_def Let_def t_def [symmetric] env_ok_def
      by (cases "token_check E t a acc") (auto simp: set_error_def same_tables_def)
  qed
qed

lemma alloc_handle_entry_ok:
  fixes attr :: u32
  assumes ok: "handles_ok (Suc k) H P s" and a: "objs s a \<noteq> None"
    and acc: "\<not> has_bits acc RESERVED_ALL"
  defines "acc' \<equiv> if has_bits attr OBJ_INHERIT then acc OR RESERVED_INHERIT else acc"
  shows "\<exists>h s'. alloc_handle_entry p a acc attr s = Some (h, s') \<and> handles_ok k H P s' \<and> keeps s s' \<and>
    (\<forall>t. get_table (Local p) s = Some t \<longrightarrow> alloc_effect (Local p) t a acc' s h s') \<and>
    (get_table (Local p) s = None \<longrightarrow> h = 0)"
proof (cases "get_table (Local p) s")
  case None
  then show ?thesis
    using acc handles_ok_le [OF ok, of k]
    by (auto simp: alloc_handle_entry_def assert_that_def Let_def simp del: get_table.simps)
next
  case (Some t)
  obtain h s' where "alloc_entry (Local p) a acc' s = Some (h, s')" "handles_ok k H P s'" "keeps s s'"
    "alloc_effect (Local p) t a acc' s h s'"
    using alloc_entry_ok [OF ok a Some] by blast
  then show ?thesis
    using Some acc by (auto simp: alloc_handle_entry_def assert_that_def Let_def acc'_def
      simp del: get_table.simps)
qed

lemma alloc_nocheck_ok:
  assumes "handles_ok (Suc k) H P s" "objs s a \<noteq> None"
  shows "\<exists>h s'. alloc_handle_no_access_check E p a acc attr s = Some (h, s') \<and>
    handles_ok k H P s' \<and> keeps s s'"
proof -
  obtain obj where obj: "objs s a = Some obj" using assms by auto
  show ?thesis
    using alloc_handle_entry_ok [OF assms masked_unreserved, of p _ attr] obj
    by (simp add: alloc_handle_no_access_check_def Let_def) metis
qed

lemma keeps_frame: "same_tables s s' \<Longrightarrow> objs s' = objs s \<Longrightarrow> keeps s s'"
  by (simp add: keeps_def same_tables_context)

lemma alloc_handle_ok:
  assumes E: "env_ok E" and ok: "handles_ok (Suc k) H P s" and a: "objs s a \<noteq> None"
  shows "\<exists>h s'. alloc_handle E p a acc attr s = Some (h, s') \<and> handles_ok k H P s' \<and> keeps s s'"
proof -
  obtain obj where obj: "objs s a = Some obj" using a by auto
  define m where "m = ops_map_access E (obj_ops obj) acc AND NOT RESERVED_ALL"
  obtain r s1 where r: "check_object_access E None a m s = Some (r, s1)" "same_tables s s1"
      "objs s1 = objs s" "\<And>g. r = Some g \<Longrightarrow> \<not> has_bits g RESERVED_ALL"
    using check_access_ok [OF E a, of None m] by (auto simp: m_def)
  have ok1: "handles_ok (Suc k) H P s1" by (rule handles_ok_frame [OF ok r(2,3)])
  have eq: "alloc_handle E p a acc attr s = (if m = 0 then Some (0, set_error STATUS_ACCESS_DENIED s)
      else case r of None \<Rightarrow> Some (0, s1) | Some g \<Rightarrow> alloc_handle_entry p a g attr s1)"
    using obj r(1) by (simp add: alloc_handle_def Let_def m_def)
  show ?thesis
  proof (cases "m = 0 \<or> r = None")
    case True
    then show ?thesis
      using eq ok ok1 handles_ok_le [of "Suc k" H P _ k] keeps_frame [OF r(2,3)] by auto
  next
    case False
    then obtain g where g: "r = Some g" by auto
    obtain h s' where "alloc_handle_entry p a g attr s1 = Some (h, s')" "handles_ok k H P s'" "keeps s1 s'"
      using alloc_handle_entry_ok [OF ok1 _ r(4) [OF g]] a r(3) by metis
    then show ?thesis
      using False eq g keeps_trans [OF keeps_frame [OF r(2,3)]] by auto
  qed
qed

lemma alloc_table_ok:
  assumes "alloc_handle_table p n s = (Some t, s')" "n \<le> MAX_HANDLE_ENTRIES"
  shows "table_wf t" "\<And>a. table_refs (Some t) a = 0" "same_tables s s'" "objs s' = objs s"
    "last_entry t = - 1" "free_from t = 0" "nr_entries t = max n MIN_HANDLE_ENTRIES"
    "entries t = replicate (nat (nr_entries t)) None"
proof -
  obtain b1 s1 b2 s2 where m: "mem_alloc s = (b1, s1)" "mem_alloc s1 = (b2, s2)"
    by (metis surj_pair)
  have eq: "s' = s2" "t = \<lparr>table_process = p, nr_entries = max n MIN_HANDLE_ENTRIES, last_entry = - 1,
      free_from = 0, entries = replicate (nat (max n MIN_HANDLE_ENTRIES)) None\<rparr>"
    using assms(1) m by (auto simp: alloc_handle_table_def Let_def max_def split: if_splits)
  show "same_tables s s'" "objs s' = objs s"
    using mem_alloc_frame [OF m(1)] mem_alloc_frame [OF m(2)] same_tables_trans eq(1) by auto
  show "table_wf t" using assms(2) unfolding eq
    by (auto simp: table_wf_def MIN_HANDLE_ENTRIES_def MAX_HANDLE_ENTRIES_def)
  show "table_refs (Some t) a = 0" for a unfolding eq by (simp add: table_refs_def live_entries_def)
  show "last_entry t = - 1" "free_from t = 0" "nr_entries t = max n MIN_HANDLE_ENTRIES"
    "entries t = replicate (nat (nr_entries t)) None" unfolding eq by simp_all
qed

lemma alloc_table_None: "alloc_handle_table p n s = (None, s') \<Longrightarrow> same_tables s s' \<and> objs s' = objs s"
proof -
  assume a: "alloc_handle_table p n s = (None, s')"
  obtain b1 s1 b2 s2 where m: "mem_alloc s = (b1, s1)" "mem_alloc s1 = (b2, s2)"
    by (metis surj_pair)
  show ?thesis
    using a m mem_alloc_frame [OF m(1)] mem_alloc_frame [OF m(2)] same_tables_trans [of s s1 s2]
    by (auto simp: alloc_handle_table_def Let_def split: if_splits)
qed

lemma alloc_global_ok:
  assumes ok: "handles_ok (Suc k) H P s" and a: "objs s a \<noteq> None"
  shows "\<exists>h s'. alloc_global_handle_no_access_check a acc s = Some (h, s') \<and> handles_ok k H P s' \<and> keeps s s'"
proof -
  have main: "\<exists>h s'. alloc_entry Global a acc (s1\<lparr>global_table := Some t\<rparr>) = Some (h, s') \<and>
      handles_ok k H P s' \<and> keeps s s'"
    if put: "handles_ok (Suc k) H P (put_table Global (Some t) s1)" and kp: "keeps s s1" for t s1
  proof -
    have "objs (put_table Global (Some t) s1) a \<noteq> None" using keepsD(2) [OF kp a] by simp
    moreover have "get_table Global (put_table Global (Some t) s1) = Some t" by simp
    ultimately obtain h s' where
      "alloc_entry Global a acc (put_table Global (Some t) s1) = Some (h, s')" "handles_ok k H P s'"
      "keeps (put_table Global (Some t) s1) s'"
      using alloc_entry_ok [OF put] by blast
    then show ?thesis
      using keeps_trans [OF keeps_trans [OF kp put_table_keeps]] by fastforce
  qed
  show ?thesis
  proof (cases "global_table s")
    case (Some t)
    have "s\<lparr>global_table := Some t\<rparr> = s" using Some by (cases s) simp
    then have "handles_ok (Suc k) H P (put_table Global (Some t) s)"
      by (simp only: put_table.simps ok)
    from main [OF this] show ?thesis
      using Some by (auto simp: alloc_global_handle_no_access_check_def)
  next
    case None
    show ?thesis
    proof (cases "alloc_handle_table None 0 s")
      case (Pair x s1)
      show ?thesis
      proof (cases x)
        case none: None
        note f = alloc_table_None [OF Pair [unfolded none]]
        show ?thesis
          using None Pair none handles_ok_le [OF handles_ok_frame [OF ok], of s1 k] f keeps_frame [of s s1]
          by (auto simp: alloc_global_handle_no_access_check_def)
      next
        case (Some t)
        have f: "table_wf t" "\<And>b. table_refs (Some t) b = 0" "same_tables s s1" "objs s1 = objs s"
          using alloc_table_ok(1-4) [OF Pair [unfolded Some]] by (simp_all add: MAX_HANDLE_ENTRIES_def)
        have g: "get_table Global s1 = None" using None same_tables_frame(1) [OF f(3), of Global] by simp
        have "handles_ok (Suc k) H P (put_table Global (Some t) s1)"
          by (rule put_table_ok [OF handles_ok_frame [OF ok f(3,4)]])
             (use f g in \<open>auto simp: valid_table_def table_refs_def [of None]\<close>)
        then show ?thesis
          using main [of t s1] keeps_frame [OF f(3,4)] None Pair Some
          by (auto simp: alloc_global_handle_no_access_check_def)
      qed
    qed
  qed
qed

section \<open>Duplicating\<close>

lemma dup_checked_ok:
  assumes E: "env_ok E" and a: "objs s a \<noteq> None" and acc: "\<not> has_bits acc RESERVED_ALL"
  shows "\<exists>r s'. dup_checked E a (Some d) acc s = Some (r, s') \<and> same_tables s s' \<and> objs s' = objs s"
proof -
  have "\<exists>r s1. (case cur_token s of None \<Rightarrow> Some (Some acc, s)
      | Some tok \<Rightarrow> check_object_access E (Some tok) a acc s) = Some (r, s1) \<and>
      same_tables s s1 \<and> objs s1 = objs s"
    using check_access_ok [OF E a, of _ acc] by (cases "cur_token s") (auto; metis)+
  then obtain r s1 where r: "(case cur_token s of None \<Rightarrow> Some (Some acc, s)
      | Some tok \<Rightarrow> check_object_access E (Some tok) a acc s) = Some (r, s1)"
      "same_tables s s1" "objs s1 = objs s" by blast
  have a1: "objs s1 a \<noteq> None" using a r(3) by simp
  show ?thesis
  proof (cases r)
    case None
    then show ?thesis using r by (auto simp: dup_checked_def)
  next
    case (Some g)
    obtain r2 s2 where "check_object_access E (Some (process_token (procs s1 ! d))) a g s1 = Some (r2, s2)"
        "same_tables s1 s2" "objs s2 = objs s1"
      using check_access_ok [OF E a1] by blast
    then show ?thesis
      using r Some same_tables_trans [OF r(2)] by (auto simp: dup_checked_def)
  qed
qed

lemma dup_more_ok:
  assumes E: "env_ok E" and ok: "handles_ok (Suc k) H P s" and a: "objs s a \<noteq> None"
    and acc: "\<not> has_bits acc RESERVED_ALL" and loc: "\<not> has_bits options DUPLICATE_MAKE_GLOBAL"
  shows "\<exists>h s'. dup_more E a (Some d) acc attr options s = Some (h, s') \<and> handles_ok k H P s' \<and> keeps s s'"
proof -
  obtain r s1 where r: "dup_checked E a (Some d) acc s = Some (r, s1)" "same_tables s s1" "objs s1 = objs s"
    using dup_checked_ok [OF E a acc] by blast
  have ok1: "handles_ok (Suc k) H P s1" by (rule handles_ok_frame [OF ok r(2,3)])
  have k1: "keeps s s1" by (rule keeps_frame [OF r(2,3)])
  show ?thesis
  proof (cases r)
    case None
    then show ?thesis using r(1) handles_ok_le [OF ok1, of k] k1 by (auto simp: dup_more_def)
  next
    case (Some g)
    obtain h s' where "alloc_handle_no_access_check E d a g attr s1 = Some (h, s')" "handles_ok k H P s'" "keeps s1 s'"
      using alloc_nocheck_ok [OF ok1 keepsD(2) [OF k1 a]] by blast
    then show ?thesis using Some r(1) loc keeps_trans [OF k1] by (auto simp: dup_more_def)
  qed
qed

lemma dup_same_ok:
  assumes ok: "handles_ok (Suc k) H P s" and a: "objs s a \<noteq> None"
    and acc: "\<not> has_bits acc RESERVED_ALL"
    and dst: "\<not> has_bits options DUPLICATE_MAKE_GLOBAL \<Longrightarrow> dst \<noteq> None"
    and found: "get_handle src h s = Some found"
  shows "\<exists>r s'. dup_same src h found a dst acc attr options s = Some (r, s') \<and> handles_ok k H P s' \<and> keeps s s'"
proof (cases "has_bits options DUPLICATE_MAKE_GLOBAL")
  case True
  then show ?thesis using alloc_global_ok [OF ok a] by (simp add: dup_same_def)
next
  case False
  then obtain d where d: "dst = Some d" using dst by auto
  have new: "\<exists>r s'. alloc_handle_entry d a acc attr s = Some (r, s') \<and> handles_ok k H P s' \<and> keeps s s'"
    using alloc_handle_entry_ok [OF ok a acc] by metis
  show ?thesis
  proof (cases rule: get_handle_cases [OF ok, of src h, case_names invalid valid])
    case invalid
    then show ?thesis using found new False d by (simp add: dup_same_def)
  next
    case (valid t e b)
    define x where "x = (if has_bits attr OBJ_INHERIT then acc OR RESERVED_INHERIT else acc)"
    obtain t' where "write_entry t (handle_index h) (e\<lparr>access := x\<rparr>) = Some t'"
        "handles_ok (Suc k) H P (put_table (handle_table_id src h) (Some t') s)"
      using set_access_ok [OF ok valid(2,4-7)] by blast
    then have "\<exists>s'. (do {
        t \<leftarrow> get_table (handle_table_id src h) s;
        t \<leftarrow> write_entry t (handle_index h) (e\<lparr>access := x\<rparr>);
        Some (h, put_table (handle_table_id src h) (Some t) s)
      }) = Some (h, s') \<and> handles_ok k H P s' \<and> keeps s s'"
      using valid(2) handles_ok_le [of "Suc k" H P _ k] by auto
    then show ?thesis
      using found valid(1) new False d by (auto simp: dup_same_def x_def Let_def)
  qed
qed

lemma dup_flags_ok:
  assumes ok: "handles_ok k H P s" and dst: "has_bits options DUPLICATE_SAME_ATTRIBUTES \<Longrightarrow> dst \<noteq> None"
  shows "\<exists>s'. dup_flags dst res f options s = Some s' \<and> handles_ok k H P s' \<and> keeps s s'"
proof (cases "res \<noteq> 0 \<and> has_bits options DUPLICATE_SAME_ATTRIBUTES")
  case True
  then obtain d where "dst = Some d" using dst by auto
  then show ?thesis
    using True set_handle_flags_ok [OF ok, of d res "- 1" f] by (auto simp: dup_flags_def)
next
  case False
  then show ?thesis using ok by (auto simp: dup_flags_def)
qed

lemma hold_release:
  assumes "handles_ok k (hold (Some a) H) P s"
  shows "\<exists>s'. release_object a s = Some s' \<and> handles_ok k H P s' \<and> same_tables s s'"
  by (rule release_held_ok [OF assms, of a]) (auto simp: fun_upd_idem)

text \<open>
  Duplicating is safe when the destination is a process, or when a global handle is made with
  the same access and without copying attributes.
\<close>

definition dup_guard :: "pid option \<Rightarrow> u32 \<Rightarrow> bool" where
  "dup_guard dst options \<longleftrightarrow>
     (if has_bits options DUPLICATE_MAKE_GLOBAL
      then has_bits options DUPLICATE_SAME_ACCESS \<and> \<not> has_bits options DUPLICATE_SAME_ATTRIBUTES
      else dst \<noteq> None)"

lemma duplicate_handle_ok:
  assumes E: "env_ok E" and ok: "handles_ok (Suc (Suc k)) H P s" and guard: "dup_guard dst options"
  shows "\<exists>r s'. duplicate_handle E src h dst acc attr options s = Some (r, s') \<and> handles_ok k H P s' \<and>
    same_context s s'"
proof -
  obtain got s1 where g: "get_handle_obj src h 0 None s = Some (got, s1)"
      "handles_ok (Suc k) (hold got H) P s1" "same_tables s s1" "keeps s s1"
    using get_handle_obj_ok [OF ok] by blast
  show ?thesis
  proof (cases got)
    case None
    then show ?thesis
      using g handles_ok_le [OF g(2), of k] keepsD(1) [OF g(4)] by (auto simp: duplicate_handle_def)
  next
    case (Some a)
    have a1: "objs s1 a \<noteq> None" using handles_okD(4) [OF g(2), of a] Some by simp
    then obtain obj where obj: "objs s1 a = Some obj" by auto
    obtain found where found: "get_handle src h s1 = Some found"
      by (cases rule: get_handle_cases [OF g(2), of src h, case_names invalid valid]) auto
    define sa where "sa = (case found of Some (_, _, e) \<Rightarrow> access e
      | None \<Rightarrow> ops_map_access E (obj_ops obj) GENERIC_ALL)"
    define sf where "sf = drop_bit RESERVED_SHIFT (sa AND RESERVED_ALL)"
    define na where "na = (if has_bits options DUPLICATE_SAME_ACCESS then sa AND NOT RESERVED_ALL
      else ops_map_access E (obj_ops obj) acc AND NOT RESERVED_ALL)"
    have na: "\<not> has_bits na RESERVED_ALL" by (simp add: na_def)
    have zero: "\<not> has_bits na (NOT (sa AND NOT RESERVED_ALL))" if "has_bits options DUPLICATE_SAME_ACCESS"
    proof -
      have "na = sa AND NOT RESERVED_ALL" using that by (simp add: na_def)
      then show ?thesis by (simp only: has_bits_complement not_False_eq_True)
    qed
    have "\<exists>r s2. (if has_bits na (NOT (sa AND NOT RESERVED_ALL)) then dup_more E a dst na attr options s1
        else dup_same src h found a dst na attr options s1) = Some (r, s2) \<and>
        handles_ok k (hold (Some a) H) P s2 \<and> keeps s1 s2"
    proof (cases "has_bits na (NOT (sa AND NOT RESERVED_ALL))")
      case True
      then have "\<not> has_bits options DUPLICATE_MAKE_GLOBAL" "dst \<noteq> None"
        using guard zero by (auto simp: dup_guard_def split: if_splits)
      then show ?thesis
        using True dup_more_ok [OF E g(2) [unfolded Some] a1 na] by auto
    next
      case False
      have "\<not> has_bits options DUPLICATE_MAKE_GLOBAL \<Longrightarrow> dst \<noteq> None"
        using guard by (auto simp: dup_guard_def split: if_splits)
      from dup_same_ok [OF g(2) [unfolded Some] a1 na this found] False show ?thesis by simp
    qed
    then obtain r s2 where r: "(if has_bits na (NOT (sa AND NOT RESERVED_ALL))
        then dup_more E a dst na attr options s1
        else dup_same src h found a dst na attr options s1) = Some (r, s2)"
        "handles_ok k (hold (Some a) H) P s2" "keeps s1 s2" by blast
    obtain s3 where s3: "dup_flags dst r sf options s2 = Some s3" "handles_ok k (hold (Some a) H) P s3"
        "keeps s2 s3"
      using dup_flags_ok [OF r(2), of options dst r sf] guard by (auto simp: dup_guard_def split: if_splits)
    obtain s4 where s4: "release_object a s3 = Some s4" "handles_ok k H P s4" "same_tables s3 s4"
      using hold_release [OF s3(2)] by blast
    have "duplicate_handle E src h dst acc attr options s = Some (r, s4)"
      unfolding duplicate_handle_def Let_def g(1) Some
      by (simp only: Option.bind.simps prod.case option.case obj found sa_def [symmetric] sf_def [symmetric]
        na_def [symmetric] r(1) s3(1) s4(1))
    moreover have "same_context s s4"
      using keepsD(1) [OF keeps_trans [OF keeps_trans [OF g(4) r(3)] s3(3)]]
        same_context_trans same_tables_context [OF s4(3)] by blast
    ultimately show ?thesis using s4(2) by blast
  qed
qed

section \<open>Requests on objects\<close>

lemma permanent_ok:
  assumes ok: "handles_ok k (hold (Some a) H) P s" and obj: "objs s a = Some obj" "\<not> is_permanent obj"
  shows "\<exists>s'. make_object_permanent a s = Some s' \<and> handles_ok k H P s' \<and> same_tables s s'"
proof -
  define s' where "s' = upd_obj a (obj\<lparr>is_permanent := True\<rparr>) s"
  have st: "same_tables s s'" by (simp add: s'_def)
  have "handles_ok k H P s'"
  proof (rule handles_okI, unfold same_tables_frame [OF st])
    show "1 \<le> refcount x \<and> owed s b x + H b \<le> refcount x \<and> refcount x + k \<le> INT_MAX"
      if "objs s' b = Some x" for b x
      using that obj handles_okD(3) [OF ok, of b] handles_okD(3) [OF ok obj(1)]
      by (cases "b = a") (auto simp: s'_def owed_def)
    show "total_refs s b + P b = (case objs s' b of None \<Rightarrow> 0 | Some x \<Rightarrow> handle_count x)" for b
      using handles_okD(2) [OF ok, of b] obj by (auto simp: s'_def)
    show "objs s' b \<noteq> None" if "0 < H b \<or> b \<in> pinned s" for b
      using handles_okD(4) [OF ok, of b] that by (auto simp: s'_def)
  qed (use handles_okD(1,5) [OF ok] in blast)+
  then show ?thesis using obj st by (simp add: make_object_permanent_def s'_def)
qed

lemma temporary_ok:
  assumes ok: "handles_ok k H P s" and obj: "objs s a = Some obj" "is_permanent obj"
  shows "\<exists>s'. make_object_temporary a s = Some s' \<and> handles_ok k (hold (Some a) H) P s' \<and> same_tables s s'"
proof -
  define s' where "s' = upd_obj a (obj\<lparr>is_permanent := False\<rparr>) s"
  have st: "same_tables s s'" by (simp add: s'_def)
  have "handles_ok k (hold (Some a) H) P s'"
  proof (rule handles_okI, unfold same_tables_frame [OF st])
    show "1 \<le> refcount x \<and> owed s b x + hold (Some a) H b \<le> refcount x \<and> refcount x + k \<le> INT_MAX"
      if "objs s' b = Some x" for b x
      using that obj handles_okD(3) [OF ok, of b] handles_okD(3) [OF ok obj(1)]
      by (cases "b = a") (auto simp: s'_def owed_def)
    show "total_refs s b + P b = (case objs s' b of None \<Rightarrow> 0 | Some x \<Rightarrow> handle_count x)" for b
      using handles_okD(2) [OF ok, of b] obj by (auto simp: s'_def)
    show "objs s' b \<noteq> None" if "0 < hold (Some a) H b \<or> b \<in> pinned s" for b
      using handles_okD(4) [OF ok, of b] that by (auto simp: s'_def split: if_splits)
  qed (use handles_okD(1,5) [OF ok] in blast)+
  then show ?thesis using obj st by (simp add: make_object_temporary_def s'_def)
qed

lemma set_permanence_ok:
  assumes ok: "handles_ok (Suc (Suc k)) H P s"
  shows "\<exists>s'. set_object_permanence h b s = Some s' \<and> handles_ok k H P s' \<and> same_tables s s'"
proof -
  obtain got s1 where g: "get_handle_obj (cur_process s) h (if b then 0 else DELETE) None s = Some (got, s1)"
      "handles_ok (Suc k) (hold got H) P s1" "same_tables s s1"
    using get_handle_obj_ok [OF ok] by blast
  show ?thesis
  proof (cases got)
    case None
    then show ?thesis using g handles_ok_le [OF g(2), of k] by (auto simp: set_object_permanence_def)
  next
    case (Some a)
    note ok1 = g(2) [unfolded Some]
    obtain obj where obj: "objs s1 a = Some obj" using handles_okD(4) [OF ok1, of a] by auto
    define m where "m = (if b \<and> \<not> is_permanent obj
        then do { s \<leftarrow> grab_object a s1; make_object_permanent a s }
        else if \<not> b \<and> is_permanent obj
        then do { s \<leftarrow> make_object_temporary a s1; release_object a s }
        else Some s1)"
    have "\<exists>s2. m = Some s2 \<and> handles_ok k (hold (Some a) H) P s2 \<and> same_tables s1 s2"
    proof -
      consider "b" "\<not> is_permanent obj" | "\<not> b" "is_permanent obj" | "b = is_permanent obj" by blast
      then show ?thesis
      proof cases
        case 1
        obtain s2 where s2: "grab_object a s1 = Some s2"
          "handles_ok k ((hold (Some a) H)(a := hold (Some a) H a + 1)) P s2" "same_tables s1 s2"
          "\<And>c. objs s2 c = map_option (\<lambda>x. x\<lparr>refcount := refcount x + of_bool (c = a)\<rparr>) (objs s1 c)"
          using grab_ok [OF ok1, of a] obj by blast
        obtain s3 where "make_object_permanent a s2 = Some s3" "handles_ok k (hold (Some a) H) P s3"
            "same_tables s2 s3"
          using permanent_ok [of k a "hold (Some a) H" P s2] s2 obj 1 by auto
        then show ?thesis using 1 s2(1) same_tables_trans [OF s2(3)] by (auto simp: m_def)
      next
        case 2
        obtain s2 where s2: "make_object_temporary a s1 = Some s2"
          "handles_ok (Suc k) (hold (Some a) (hold (Some a) H)) P s2" "same_tables s1 s2"
          using temporary_ok [OF ok1 obj] 2 by blast
        obtain s3 where "release_object a s2 = Some s3" "handles_ok (Suc k) (hold (Some a) H) P s3"
            "same_tables s2 s3" using hold_release [OF s2(2)] by blast
        then show ?thesis
          using 2 s2(1) same_tables_trans [OF s2(3)] handles_ok_le [of "Suc k" _ P s3 k]
          by (auto simp: m_def)
      next
        case 3
        then show ?thesis using handles_ok_le [OF ok1, of k] by (auto simp: m_def)
      qed
    qed
    then obtain s2 where s2: "m = Some s2" "handles_ok k (hold (Some a) H) P s2" "same_tables s1 s2" by blast
    obtain s3 where s3: "release_object a s2 = Some s3" "handles_ok k H P s3" "same_tables s2 s3"
      using hold_release [OF s2(2)] by blast
    have "set_object_permanence h b s = Some s3"
      using g(1) Some obj s2(1) s3(1) by (simp add: set_object_permanence_def m_def [symmetric])
    then show ?thesis using s3(2) same_tables_trans [OF same_tables_trans [OF g(3) s2(3)] s3(3)] by blast
  qed
qed

lemma compare_ok:
  assumes ok: "handles_ok (Suc (Suc k)) H P s"
  shows "\<exists>s'. compare_objects h1 h2 s = Some s' \<and> handles_ok k H P s'"
proof -
  obtain got s1 where g: "get_handle_obj (cur_process s) h1 0 None s = Some (got, s1)"
      "handles_ok (Suc k) (hold got H) P s1" "same_tables s s1"
    using get_handle_obj_ok [OF ok] by blast
  show ?thesis
  proof (cases got)
    case None
    then show ?thesis using g handles_ok_le [OF g(2), of k] by (auto simp: compare_objects_def)
  next
    case (Some a)
    obtain got2 s2 where g2: "get_handle_obj (cur_process s1) h2 0 None s1 = Some (got2, s2)"
        "handles_ok k (hold got2 (hold (Some a) H)) P s2"
      using get_handle_obj_ok [OF g(2) [unfolded Some]] by blast
    show ?thesis
    proof (cases got2)
      case None
      then show ?thesis
        using g(1) Some g2 hold_release [of k a H P s2] by (auto simp: compare_objects_def)
    next
      case some: (Some c)
      define s3 where "s3 = (if a \<noteq> c then set_error STATUS_NOT_SAME_OBJECT s2 else s2)"
      have "handles_ok k (hold (Some c) (hold (Some a) H)) P s3"
        using g2(2) some by (cases "a = c") (simp_all add: s3_def)
      then obtain s4 where s4: "release_object c s3 = Some s4" "handles_ok k (hold (Some a) H) P s4"
        using hold_release by blast
      obtain s5 where "release_object a s4 = Some s5" "handles_ok k H P s5"
        using hold_release [OF s4(2)] by blast
      then show ?thesis
        using g(1) Some g2(1) some s4(1) by (simp add: compare_objects_def Let_def s3_def [symmetric])
    qed
  qed
qed

lemma get_info_ok:
  assumes ok: "handles_ok (Suc k) H P s"
  shows "\<exists>r s'. get_object_info h s = Some (r, s') \<and> handles_ok k H P s'"
proof -
  obtain got s1 where g: "get_handle_obj (cur_process s) h 0 None s = Some (got, s1)"
      "handles_ok k (hold got H) P s1"
    using get_handle_obj_ok [OF ok] by blast
  show ?thesis
  proof (cases got)
    case None
    then show ?thesis using g by (auto simp: get_object_info_def)
  next
    case (Some a)
    note ok1 = g(2) [unfolded Some]
    obtain obj where obj: "objs s1 a = Some obj" using handles_okD(4) [OF ok1, of a] by auto
    have "\<exists>x. get_handle_access (cur_process s1) h s1 = Some x"
      by (cases rule: get_handle_cases [OF ok1, of "cur_process s1" h, case_names invalid valid])
         (auto simp: get_handle_access_def)
    moreover obtain s2 where "release_object a s1 = Some s2" "handles_ok k H P s2"
      using hold_release [OF ok1] by blast
    ultimately show ?thesis using g(1) Some obj by (auto simp: get_object_info_def)
  qed
qed

section \<open>The end and the beginning of a process\<close>

lemma destroy_entries_ok:
  assumes "handles_ok k H (\<lambda>a. P a + entry_refs es a) s" "\<And>x. x \<in> set es \<Longrightarrow> x \<noteq> None"
  shows "\<exists>s'. destroy_entries es s = Some s' \<and> handles_ok k H P s' \<and> same_tables s s'"
  using assms
proof (induction es arbitrary: s)
  case Nil
  then show ?case by simp
next
  case (Cons x es)
  then obtain e where x: "x = Some e" by force
  show ?case
  proof (cases "ptr e")
    case None
    then show ?thesis using Cons x by simp
  next
    case (Some a)
    define Q where "Q = (\<lambda>b. P b + entry_refs (x # es) b)"
    obtain s1 where s1: "release_object_from_handle a s = Some s1" "handles_ok k H (Q(a := Q a - 1)) s1"
        "same_tables s s1"
      using release_from_handle_ok [of k H Q s a] Cons.prems(1) x Some by (auto simp: Q_def)
    have "Q(a := Q a - 1) = (\<lambda>b. P b + entry_refs es b)"
      using x Some by (auto simp: Q_def)
    then obtain s2 where "destroy_entries es s1 = Some s2" "handles_ok k H P s2" "same_tables s1 s2"
      using Cons.IH [of s1] s1(2) Cons.prems(2) by auto
    then show ?thesis using x Some s1(1) same_tables_trans [OF s1(3)] by auto
  qed
qed

lemma live_entries_written:
  assumes "table_wf t" "x \<in> set (live_entries t)"
  shows "x \<noteq> None"
proof -
  note D = table_wfD [OF assms(1)]
  obtain j where j: "j < length (live_entries t)" "x = live_entries t ! j"
    using assms(2) by (auto simp: in_set_conv_nth)
  then have "entry_at t (int j) = x" "int j \<le> last_entry t"
    using D(3,4) by (auto simp: live_entries_def entry_at_def)
  then show ?thesis using D(8) [of "int j"] by auto
qed

lemma close_process_ok:
  assumes ok: "handles_ok k H P s"
  shows "\<exists>s'. close_process_handles p s = Some s' \<and> handles_ok k H P s' \<and> same_context s s'"
proof (cases "get_table (Local p) s")
  case None
  then show ?thesis using ok by (auto simp: close_process_handles_def simp del: get_table.simps)
next
  case (Some t)
  have "handles_ok k H (\<lambda>a. P a + table_refs (Some t) a) (put_table (Local p) None s)"
    by (rule put_table_ok [OF ok get_table_valid [OF Some]]) (use Some in \<open>auto simp: table_refs_def\<close>)
  then have "handles_ok k H (\<lambda>a. P a + entry_refs (live_entries t) a) (put_table (Local p) None s)"
    by (simp add: table_refs_def)
  then obtain s' where "destroy_entries (live_entries t) (put_table (Local p) None s) = Some s'"
      "handles_ok k H P s'" "same_tables (put_table (Local p) None s) s'"
    using destroy_entries_ok live_entries_written [OF handles_okD(1) [OF ok Some]] by blast
  then show ?thesis
    using Some same_context_trans [OF put_table_context same_tables_context]
    by (auto simp: close_process_handles_def handle_table_destroy_def simp del: get_table.simps put_table.simps)
qed

lemma copy_entries_ok:
  assumes "handles_ok (length es + k) H P s"
    "\<And>x. x \<in> set es \<Longrightarrow> \<exists>e. x = Some e \<and> (\<forall>a. ptr e = Some a \<longrightarrow> objs s a \<noteq> None)"
  shows "\<exists>fs s'. copy_entries es s = Some (fs, s') \<and> length fs = length es \<and> None \<notin> set fs \<and>
    handles_ok k H (\<lambda>a. P a + entry_refs fs a) s' \<and> same_tables s s'"
  using assms
proof (induction es arbitrary: s P)
  case Nil
  then show ?case by simp
next
  case (Cons x es)
  then obtain e where x: "x = Some e" "\<And>a. ptr e = Some a \<Longrightarrow> objs s a \<noteq> None" by force
  have rest: "\<And>y. y \<in> set es \<Longrightarrow> \<exists>e. y = Some e \<and> (\<forall>a. ptr e = Some a \<longrightarrow> objs s a \<noteq> None)"
    using Cons.prems(2) by simp
  show ?case
  proof (cases "\<exists>a. ptr e = Some a \<and> has_bits (access e) RESERVED_INHERIT")
    case True
    then obtain a where a: "ptr e = Some a" "has_bits (access e) RESERVED_INHERIT" by blast
    obtain s1 where s1: "grab_object_for_handle a s = Some s1"
        "handles_ok (length es + k) H (P(a := P a + 1)) s1" "same_tables s s1"
        "\<And>b. objs s b \<noteq> None \<Longrightarrow> objs s1 b \<noteq> None"
      using grab_for_handle_ok [of "length es + k" H P s a] Cons.prems(1) x(2) [OF a(1)] by auto
    obtain fs s2 where fs: "copy_entries es s1 = Some (fs, s2)" "length fs = length es" "None \<notin> set fs"
        "handles_ok k H (\<lambda>b. (P(a := P a + 1)) b + entry_refs fs b) s2" "same_tables s1 s2"
      using Cons.IH [OF s1(2)] rest s1(4) by blast
    have "(\<lambda>b. (P(a := P a + 1)) b + entry_refs fs b) = (\<lambda>b. P b + entry_refs (Some e # fs) b)"
      using a by auto
    then show ?thesis
      using x a s1(1) fs same_tables_trans [OF s1(3)] by auto
  next
    case False
    obtain fs s2 where fs: "copy_entries es s = Some (fs, s2)" "length fs = length es" "None \<notin> set fs"
        "handles_ok k H (\<lambda>b. P b + entry_refs fs b) s2" "same_tables s s2"
      using Cons.IH [OF handles_ok_le [OF Cons.prems(1)] rest] by auto
    then show ?thesis using x(1) False by (cases "ptr e") auto
  qed
qed

text \<open>
  A child table while handles are copied one by one into it: the first entries, as many as the
  parent's table has, are written, those after the last one are empty.
\<close>

definition filling :: "handle_table \<Rightarrow> handle_table \<Rightarrow> bool" where
  "filling pt t \<longleftrightarrow>
     MIN_HANDLE_ENTRIES \<le> nr_entries t \<and> nr_entries t \<le> MAX_HANDLE_ENTRIES \<and>
     int (length (entries t)) = nr_entries t \<and> nr_entries pt \<le> nr_entries t \<and>
     - 1 \<le> last_entry t \<and> last_entry t < nr_entries pt \<and> free_from t = 0 \<and>
     (\<forall>i. 0 \<le> i \<and> i < nr_entries pt \<longrightarrow> entry_at t i \<noteq> None) \<and>
     (\<forall>i. last_entry t < i \<longrightarrow> entry_ptr t i = None)"

lemma filling_write:
  assumes f: "filling pt t" and i: "0 \<le> i" "i < nr_entries pt" and e: "ptr e = Some a"
    and empty: "entry_ptr t i = None"
  defines "t' \<equiv> t\<lparr>entries := (entries t)[nat i := Some e], last_entry := max (last_entry t) i\<rparr>"
  shows "filling pt t'" "entry_refs (entries t') b = entry_refs (entries t) b + of_bool (b = a)"
proof -
  have len: "i < int (length (entries t))" using f i by (simp add: filling_def)
  have at: "entry_at t' j = (if j = i then Some e else entry_at t j)" for j
    using i(1) len by (auto simp: t'_def entry_at_def nth_list_update nat_eq_iff)
  have pt: "entry_ptr t' j = (if j = i then Some a else entry_ptr t j)" for j
    using at [of j] e by (simp add: entry_ptr_def)
  show "filling pt t'"
    using f i at pt unfolding filling_def by (auto simp: t'_def)
  have "entry_refs ((entries t)[nat i := Some e]) b + (if refers b (entries t ! nat i) then 1 else 0)
      = entry_refs (entries t) b + (if refers b (Some e) then 1 else 0)"
    using i(1) len by (intro entry_refs_update) (simp add: nat_less_iff)
  then show "entry_refs (entries t') b = entry_refs (entries t) b + of_bool (b = a)"
    using refers_entry [OF i(1) len, of b] empty e by (simp add: t'_def split: if_splits)
qed

lemma filling_done:
  assumes "filling pt t"
  shows "table_pre t" "table_refs (Some t) a = entry_refs (entries t) a"
proof -
  show "table_pre t"
    using assms unfolding filling_def table_pre_def by auto
  have "\<not> refers a (entries t ! j)" if "nat (last_entry t + 1) \<le> j" "j < length (entries t)" for j
  proof -
    have "last_entry t < int j" using that(1) by linarith
    then show ?thesis using assms refers_entry [of "int j" t a] that(2) by (simp add: filling_def)
  qed
  moreover have "nat (last_entry t + 1) \<le> length (entries t)"
    using assms unfolding filling_def by linarith
  ultimately have "entry_refs (take (length (entries t)) (entries t)) a =
      entry_refs (take (nat (last_entry t + 1)) (entries t)) a"
    by (intro entry_refs_take) auto
  then show "table_refs (Some t) a = entry_refs (entries t) a"
    by (simp add: table_refs_def live_entries_def)
qed

lemma inherit_handle_ok:
  assumes ok: "handles_ok (Suc k) H (\<lambda>a. P a + entry_refs (entries t) a) s" and f: "filling pt t"
    and parent: "get_table (Local parent) s = Some pt" and local: "\<not> handle_is_global h"
  shows "\<exists>t' s'. inherit_handle parent h (t, s) = Some (t', s') \<and> filling pt t' \<and> same_tables s s' \<and>
    handles_ok k H (\<lambda>a. P a + entry_refs (entries t') a) s'"
proof -
  have id: "handle_table_id parent h = Local parent" "handle_index h = handle_to_index h"
    using local by (simp_all add: handle_table_id_def handle_index_def)
  note low = handles_ok_le [OF ok, of k]
  show ?thesis
  proof (cases rule: get_handle_cases [OF ok, of parent h, case_names invalid valid])
    case invalid
    then show ?thesis using f low by (simp add: inherit_handle_def)
  next
    case (valid u e a)
    note v = valid [unfolded id]
    have u: "u = pt" using v(2) parent by simp
    have i: "0 \<le> handle_to_index h" "handle_to_index h < nr_entries pt"
      using v(4,5) table_wfD(5) [OF v(3)] unfolding u by linarith+
    then obtain d where d: "entry_at t (handle_to_index h) = Some d" using f unfolding filling_def by blast
    show ?thesis
    proof (cases "has_bits (access e) RESERVED_INHERIT \<and> ptr d = None")
      case False
      then have "inherit_handle parent h (t, s) = Some (t, s)"
        using v(1) d by (cases "has_bits (access e) RESERVED_INHERIT") (simp_all add: inherit_handle_def Let_def)
      then show ?thesis using f low by simp
    next
      case True
      define t' where "t' = t\<lparr>entries := (entries t)[nat (handle_to_index h) := Some e],
        last_entry := max (last_entry t) (handle_to_index h)\<rparr>"
      have "entry_ptr t (handle_to_index h) = None" using d True by (simp add: entry_ptr_def)
      note w = filling_write [OF f i v(7) this, folded t'_def]
      obtain s1 where s1: "grab_object_for_handle a s = Some s1"
          "handles_ok k H ((\<lambda>b. P b + entry_refs (entries t) b)(a := P a + entry_refs (entries t) a + 1)) s1"
          "same_tables s s1"
        by (rule grab_for_handle_ok [OF ok v(8)])
      have "(\<lambda>b. P b + entry_refs (entries t) b)(a := P a + entry_refs (entries t) a + 1) =
          (\<lambda>b. P b + entry_refs (entries t') b)"
        using w(2) by (intro ext) simp
      then have "handles_ok k H (\<lambda>b. P b + entry_refs (entries t') b) s1" using s1(2) by simp
      moreover have "write_entry t (handle_to_index h) e =
          Some (t\<lparr>entries := (entries t)[nat (handle_to_index h) := Some e]\<rparr>)"
        using i f by (simp add: write_entry_def filling_def)
      then have "inherit_handle parent h (t, s) = Some (t', s1)"
        using v(1,7) d True s1(1) by (simp add: inherit_handle_def Let_def t'_def)
      ultimately show ?thesis using w(1) s1(3) by (intro exI [of _ t'] exI [of _ s1]) simp
    qed
  qed
qed

lemma inherit_handles_ok:
  assumes "handles_ok (length hs + k) H (\<lambda>a. P a + entry_refs (entries t) a) s" "filling pt t"
    "get_table (Local parent) s = Some pt" "\<And>h. h \<in> set hs \<Longrightarrow> \<not> handle_is_global h"
  shows "\<exists>t' s'. inherit_handles parent hs (t, s) = Some (t', s') \<and> filling pt t' \<and> same_tables s s' \<and>
    handles_ok k H (\<lambda>a. P a + entry_refs (entries t') a) s'"
  using assms
proof (induction hs arbitrary: t s)
  case Nil
  then show ?case by auto
next
  case (Cons h hs)
  obtain t1 s1 where s1: "inherit_handle parent h (t, s) = Some (t1, s1)" "filling pt t1" "same_tables s s1"
      "handles_ok (length hs + k) H (\<lambda>a. P a + entry_refs (entries t1) a) s1"
    using inherit_handle_ok [OF _ Cons.prems(2,3), of "length hs + k" H P h] Cons.prems(1,4) by auto
  have "get_table (Local parent) s1 = Some pt" using Cons.prems(3) same_tables_frame(1) [OF s1(3)] by simp
  then obtain t2 s2 where "inherit_handles parent hs (t1, s1) = Some (t2, s2)" "filling pt t2"
      "same_tables s1 s2" "handles_ok k H (\<lambda>a. P a + entry_refs (entries t2) a) s2"
    using Cons.IH [OF s1(4,2)] Cons.prems(4) by auto
  then show ?case using s1(1) same_tables_trans [OF s1(3)] by auto
qed

definition copy_budget :: "handle list option \<Rightarrow> nat" where
  "copy_budget hs = (case hs of None \<Rightarrow> 0x00ffffff | Some hs \<Rightarrow> length hs + 3)"

lemma copied_pre:
  assumes pt: "table_wf pt" and t: "entries t = replicate (nat (nr_entries t)) None"
      "nr_entries t = max (nr_entries pt) MIN_HANDLE_ENTRIES" "free_from t = 0"
    and fs: "length fs = nat (last_entry pt + 1)" "None \<notin> set fs"
  defines "u \<equiv> t\<lparr>last_entry := last_entry pt, entries := fs @ drop (nat (last_entry pt + 1)) (entries t)\<rparr>"
  shows "table_pre u" "table_refs (Some u) a = entry_refs fs a"
proof -
  note D = table_wfD [OF pt]
  have written: "entry_at u i \<noteq> None" if "0 \<le> i" "i \<le> last_entry pt" for i
  proof -
    have "nat i < length fs" using that fs(1) by simp
    then have "fs ! nat i \<noteq> None" using fs(2) nth_mem by metis
    then show ?thesis using that fs(1) D(5) by (auto simp: u_def entry_at_def nth_append t(1,2))
  qed
  have "int (length (entries u)) = nr_entries u" using fs(1) D(1,3,4,5) t by (simp add: u_def MIN_HANDLE_ENTRIES_def)
  then show "table_pre u"
    unfolding table_pre_def using D written t(2,3) by (auto simp: u_def)
  show "table_refs (Some u) a = entry_refs fs a"
    using fs(1) by (simp add: table_refs_def live_entries_def u_def)
qed

lemma entry_refs_null [simp]: "entry_refs (replicate n (Some null_entry)) a = 0"
  by (simp add: entry_refs_def null_entry_def)

lemma copy_listed_ok:
  assumes ok: "handles_ok (length hs + 3 + k) H P s" and wf: "table_wf pt"
    and parent: "get_table (Local parent) s = Some pt"
    and t: "last_entry t = - 1" "free_from t = 0" "nr_entries t = max (nr_entries pt) MIN_HANDLE_ENTRIES"
      "entries t = replicate (nat (nr_entries t)) None"
    and local: "\<And>h. h \<in> set hs \<union> set std \<Longrightarrow> \<not> handle_is_global h"
  defines "t0 \<equiv> t\<lparr>entries := replicate (nat (nr_entries pt)) (Some null_entry) @
    drop (nat (nr_entries pt)) (entries t)\<rparr>"
  shows "\<exists>u s'. (do {
      ts \<leftarrow> inherit_handles parent hs (t0, s);
      inherit_handles parent (take 3 std) ts
    }) = Some (u, s') \<and> table_pre u \<and> same_tables s s' \<and>
    handles_ok k H (\<lambda>a. P a + table_refs (Some u) a) s'"
proof -
  note D = table_wfD [OF wf]
  have n: "0 \<le> nr_entries pt" "nr_entries pt \<le> nr_entries t" "0 \<le> nr_entries t"
    using D(1) t(3) by (auto simp: MIN_HANDLE_ENTRIES_def)
  have len: "int (length (entries t0)) = nr_entries t" using n by (simp add: t0_def t(4))
  have at: "entry_at t0 i = (if 0 \<le> i \<and> i < nr_entries pt then Some null_entry else None)" for i
    using n by (auto simp: t0_def entry_at_def nth_append t(4))
  have fill: "filling pt t0"
    unfolding filling_def using D(1,2) len at n t(1-3)
    by (auto simp: t0_def entry_ptr_def null_entry_def MIN_HANDLE_ENTRIES_def MAX_HANDLE_ENTRIES_def)
  have "handles_ok (length hs + (3 + k)) H (\<lambda>a. P a + entry_refs (entries t0) a) s"
    using ok by (simp add: t0_def t(4) add.assoc)
  then obtain t1 s1 where s1: "inherit_handles parent hs (t0, s) = Some (t1, s1)" "filling pt t1"
      "same_tables s s1" "handles_ok (3 + k) H (\<lambda>a. P a + entry_refs (entries t1) a) s1"
    using inherit_handles_ok [OF _ fill parent] local by blast
  have loc3: "\<not> handle_is_global h" if "h \<in> set (take 3 std)" for h
    using in_set_takeD [OF that] local by blast
  have "handles_ok (length (take 3 std) + k) H (\<lambda>a. P a + entry_refs (entries t1) a) s1"
    by (rule handles_ok_le [OF s1(4)]) simp
  moreover have "get_table (Local parent) s1 = Some pt" using parent same_tables_frame(1) [OF s1(3)] by simp
  ultimately obtain t2 s2 where s2: "inherit_handles parent (take 3 std) (t1, s1) = Some (t2, s2)"
      "filling pt t2" "same_tables s1 s2" "handles_ok k H (\<lambda>a. P a + entry_refs (entries t2) a) s2"
    using inherit_handles_ok [OF _ s1(2), of "take 3 std" k H P s1 parent] loc3 by blast
  then show ?thesis
    using s1(1) filling_done [OF s2(2)] same_tables_trans [OF s1(3)] by simp
qed

lemma copy_all_ok:
  assumes ok: "handles_ok (copy_budget None + k) H P s" and wf: "table_wf pt"
    and parent: "get_table (Local parent) s = Some pt" "0 \<le> last_entry pt"
    and t: "free_from t = 0" "nr_entries t = max (nr_entries pt) MIN_HANDLE_ENTRIES"
      "entries t = replicate (nat (nr_entries t)) None"
  defines "n \<equiv> nat (last_entry pt + 1)"
  shows "\<exists>es s'. copy_entries (take n (entries pt)) s = Some (es, s') \<and> same_tables s s' \<and>
    table_pre (t\<lparr>last_entry := last_entry pt, entries := es @ drop n (entries t)\<rparr>) \<and>
    handles_ok k H (\<lambda>a. P a + table_refs (Some (t\<lparr>last_entry := last_entry pt,
      entries := es @ drop n (entries t)\<rparr>)) a) s'"
proof -
  note D = table_wfD [OF wf]
  have len: "length (take n (entries pt)) = n"
    using D(3,5) by (simp add: n_def)
  have "n \<le> 0x00ffffff" using D(2,5) by (simp add: n_def MAX_HANDLE_ENTRIES_def)
  then have "handles_ok (length (take n (entries pt)) + k) H P s"
    unfolding len by (intro handles_ok_le [OF ok]) (simp add: copy_budget_def)
  moreover have "\<exists>e. x = Some e \<and> (\<forall>a. ptr e = Some a \<longrightarrow> objs s a \<noteq> None)"
    if x: "x \<in> set (take n (entries pt))" for x
  proof -
    obtain j where j: "j < n" "x = entries pt ! j" "j < length (entries pt)"
      using x by (auto simp: in_set_conv_nth)
    have i: "0 \<le> int j" "int j \<le> last_entry pt" using j(1) parent(2) by (auto simp: n_def)
    have at: "entry_at pt (int j) = x" using j by (simp add: entry_at_def)
    obtain e where e: "x = Some e" using D(8) [OF i] at by auto
    have "objs s a \<noteq> None" if "ptr e = Some a" for a
      using entry_alive [OF ok parent(1) i] that at e by (simp add: entry_ptr_def)
    then show ?thesis using e by blast
  qed
  ultimately obtain fs s' where fs: "copy_entries (take n (entries pt)) s = Some (fs, s')"
      "length fs = length (take n (entries pt))" "None \<notin> set fs"
      "handles_ok k H (\<lambda>a. P a + entry_refs fs a) s'" "same_tables s s'"
    using copy_entries_ok [of "take n (entries pt)" k H P s] by blast
  note c = copied_pre [OF wf t(3,2,1) fs(2) [unfolded len, unfolded n_def] fs(3), folded n_def]
  show ?thesis using fs c by simp
qed

lemma copy_handle_table_ok:
  assumes ok: "handles_ok (copy_budget hs + k) H P s" and parent: "get_table (Local parent) s = Some pt"
    and local: "\<And>h. h \<in> set (case hs of None \<Rightarrow> [] | Some hs \<Rightarrow> hs @ std) \<Longrightarrow> \<not> handle_is_global h"
  shows "\<exists>x s'. copy_handle_table p parent hs std s = Some (x, s') \<and> (\<forall>t. x = Some t \<longrightarrow> table_wf t) \<and>
    handles_ok k H (\<lambda>a. P a + table_refs x a) s' \<and> same_tables s s'"
proof -
  have wf: "table_wf pt" by (rule handles_okD(1) [OF ok parent])
  note D = table_wfD [OF wf]
  show ?thesis
  proof (cases "alloc_handle_table (Some p) (nr_entries pt) s")
    case (Pair y s1)
    show ?thesis
    proof (cases y)
      case None
      note f = alloc_table_None [OF Pair [unfolded None]]
      have "handles_ok k H P s1" using handles_ok_le [OF handles_ok_frame [OF ok]] f by simp
      then show ?thesis
        using parent Pair None f by (auto simp: copy_handle_table_def table_refs_def simp del: get_table.simps)
    next
      case (Some t)
      note f = alloc_table_ok [OF Pair [unfolded Some] D(2)]
      have ok1: "handles_ok (copy_budget hs + k) H P s1" by (rule handles_ok_frame [OF ok f(3,4)])
      have par1: "get_table (Local parent) s1 = Some pt"
        using parent same_tables_frame(1) [OF f(3)] by simp
      define body where "body = (case hs of
            Some hs \<Rightarrow>
              (let n = nat (nr_entries pt);
                   t = t\<lparr>entries := replicate n (Some null_entry) @ drop n (entries t)\<rparr>
               in do {
                 ts \<leftarrow> inherit_handles parent hs (t, s1);
                 inherit_handles parent (take 3 std) ts
               })
          | None \<Rightarrow>
              if last_entry pt \<ge> 0
              then do {
                let n = nat (last_entry pt + 1);
                (es, s) \<leftarrow> copy_entries (take n (entries pt)) s1;
                Some (t\<lparr>last_entry := last_entry pt, entries := es @ drop n (entries t)\<rparr>, s)
              }
              else Some (t\<lparr>last_entry := last_entry pt\<rparr>, s1))"
      have "\<exists>u s2. body = Some (u, s2) \<and> table_pre u \<and> same_tables s1 s2 \<and>
          handles_ok k H (\<lambda>a. P a + table_refs (Some u) a) s2"
      proof (cases hs)
        case (Some hs')
        have loc: "\<not> handle_is_global h" if "h \<in> set hs' \<union> set std" for h using local [of h] that Some by simp
        have "handles_ok (length hs' + 3 + k) H P s1" using ok1 Some by (simp add: copy_budget_def)
        from copy_listed_ok [OF this wf par1 f(5-8) loc] show ?thesis
          using Some by (simp add: body_def Let_def)
      next
        case none: None
        show ?thesis
        proof (cases "0 \<le> last_entry pt")
          case True
          from copy_all_ok [OF ok1 [unfolded none] wf par1 True f(6-8)] show ?thesis
            using none True by (auto simp: body_def Let_def)
        next
          case False
          then have "last_entry pt = - 1" using D(4) by simp
          then have "t\<lparr>last_entry := last_entry pt\<rparr> = t" using f(5) by (cases t) simp
          then show ?thesis
            using none False f(1,2) handles_ok_le [OF ok1, of k] by (simp add: body_def table_wf_pre)
        qed
      qed
      then obtain u s2 where u: "body = Some (u, s2)" "table_pre u" "same_tables s1 s2"
          "handles_ok k H (\<lambda>a. P a + table_refs (Some u) a) s2" by blast
      obtain v s3 where v: "shrink_handle_table u s2 = Some (v, s3)" "table_wf v"
          "\<And>a. table_refs (Some v) a = table_refs (Some u) a" "same_tables s2 s3" "objs s3 = objs s2"
        using shrink_ok [OF u(2), of s2] by blast
      have "copy_handle_table p parent hs std s = Some (Some v, s3)"
        using parent Pair Some u(1) v(1)
        unfolding copy_handle_table_def body_def by (simp del: get_table.simps)
      moreover have "handles_ok k H (\<lambda>a. P a + table_refs (Some v) a) s3"
        using handles_ok_frame [OF u(4) v(4,5)] v(3) by simp
      ultimately show ?thesis
        using v(2) same_tables_trans [OF same_tables_trans [OF f(3) u(3)] v(4)] by blast
    qed
  qed
qed

section \<open>Sequences of requests\<close>

datatype handle_op =
    Alloc pid addr u32 u32
  | Close pid handle
  | Flags pid handle u32 u32
  | Duplicate pid handle "pid option" u32 u32 u32
  | Permanence handle bool
  | Compare handle handle
  | Info handle
  | Inherit pid pid "handle list option" "handle list"
  | Exit pid

fun handle_step :: "env \<Rightarrow> handle_op \<Rightarrow> server \<Rightarrow> server option" where
  "handle_step E (Alloc p a acc attr) s = map_option snd (alloc_handle E p a acc attr s)"
| "handle_step E (Close p h) s = map_option snd (close_handle E p h s)"
| "handle_step E (Flags p h m f) s = map_option snd (set_handle_flags p h m f s)"
| "handle_step E (Duplicate src h dst acc attr options) s =
     map_option snd (duplicate_handle E src h dst acc attr options s)"
| "handle_step E (Permanence h b) s = set_object_permanence h b s"
| "handle_step E (Compare h1 h2) s = compare_objects h1 h2 s"
| "handle_step E (Info h) s = map_option snd (get_object_info h s)"
| "handle_step E (Inherit p parent hs std) s = do {
     (t, s) \<leftarrow> copy_handle_table p parent hs std s;
     Some (put_table (Local p) t s)
   }"
| "handle_step E (Exit p) s = close_process_handles p s"

text \<open>
  What a request must satisfy: the object of a new handle exists, a handle that is closed or
  inherited is not a global one, a duplicate has a destination process unless it is global, and
  a child process is new and has a running parent.
\<close>

fun handle_guard :: "handle_op \<Rightarrow> server \<Rightarrow> bool" where
  "handle_guard (Alloc p a acc attr) s = (objs s a \<noteq> None)"
| "handle_guard (Close p h) s = (\<not> handle_is_global h)"
| "handle_guard (Duplicate src h dst acc attr options) s = dup_guard dst options"
| "handle_guard (Inherit p parent hs std) s =
     (p < length (procs s) \<and> get_table (Local p) s = None \<and> get_table (Local parent) s \<noteq> None \<and>
      list_all (\<lambda>h. \<not> handle_is_global h) (case hs of None \<Rightarrow> [] | Some hs \<Rightarrow> hs @ std))"
| "handle_guard q s = True"

text \<open>How many references a request may take on one object.\<close>

fun handle_budget :: "handle_op \<Rightarrow> nat" where
  "handle_budget (Inherit p parent hs std) = copy_budget hs"
| "handle_budget q = 2"

fun handle_run :: "env \<Rightarrow> handle_op list \<Rightarrow> server \<Rightarrow> server option" where
  "handle_run E [] s = Some s"
| "handle_run E (q # qs) s =
     (if handle_guard q s
      then do { s \<leftarrow> handle_step E q s; handle_run E qs s }
      else handle_run E qs s)"

definition handle_inv :: "nat \<Rightarrow> server \<Rightarrow> bool" where
  "handle_inv k s = handles_ok k (\<lambda>_. 0) (\<lambda>_. 0) s"

lemma inherit_step_ok:
  assumes inv: "handle_inv (copy_budget hs + k) s" and guard: "handle_guard (Inherit p parent hs std) s"
  shows "\<exists>s'. handle_step E (Inherit p parent hs std) s = Some s' \<and> handle_inv k s'"
proof -
  obtain pt where pt: "get_table (Local parent) s = Some pt" using guard by auto
  have loc: "\<not> handle_is_global h"
    if "h \<in> set (case hs of None \<Rightarrow> [] | Some hs \<Rightarrow> hs @ std)" for h
    using guard that by (simp add: list_all_iff del: get_table.simps)
  obtain x s1 where s1: "copy_handle_table p parent hs std s = Some (x, s1)"
      "\<And>t. x = Some t \<Longrightarrow> table_wf t" "handles_ok k (\<lambda>_. 0) (\<lambda>a. 0 + table_refs x a) s1" "same_tables s s1"
    using copy_handle_table_ok [OF inv [unfolded handle_inv_def] pt loc] by blast
  have tb: "valid_table (Local p) s1" "get_table (Local p) s1 = None"
    using guard same_tables_frame(1,8) [OF s1(4), of "Local p"] by (auto simp: valid_table_def simp del: get_table.simps)
  have "handles_ok k (\<lambda>_. 0) (\<lambda>_. 0) (put_table (Local p) x s1)"
    by (rule put_table_ok [OF s1(3) tb(1) s1(2)])
       (simp_all add: tb(2) table_refs_def [of None] del: get_table.simps)
  then show ?thesis using s1(1) by (simp add: handle_inv_def)
qed

lemma handle_step_ok:
  assumes E: "env_ok E" and inv: "handle_inv (handle_budget q + k) s" and guard: "handle_guard q s"
  shows "\<exists>s'. handle_step E q s = Some s' \<and> handle_inv k s'"
proof -
  have two: "handles_ok (Suc (Suc k)) (\<lambda>_. 0) (\<lambda>_. 0) s" if "handle_budget q = 2"
    using inv that by (simp add: handle_inv_def)
  note one = handles_ok_le [OF two, of "Suc k"] and none = handles_ok_le [OF two, of k]
  show ?thesis
  proof (cases q)
    case (Alloc p a acc attr)
    then show ?thesis
      using alloc_handle_ok [OF E one, of a] guard by (fastforce simp: handle_inv_def)
  next
    case (Close p h)
    then show ?thesis
      using close_handle_ok [OF none, of h E p] guard by (auto simp: handle_inv_def)
  next
    case (Flags p h m f)
    then show ?thesis
      using set_handle_flags_ok [OF none, of p h m f] by (auto simp: handle_inv_def)
  next
    case (Duplicate src h dst acc attr options)
    then show ?thesis
      using duplicate_handle_ok [OF E two, of dst options src h acc attr] guard by (auto simp: handle_inv_def)
  next
    case (Permanence h b)
    then show ?thesis using set_permanence_ok [OF two, of h b] by (auto simp: handle_inv_def)
  next
    case (Compare h1 h2)
    then show ?thesis using compare_ok [OF two, of h1 h2] by (auto simp: handle_inv_def)
  next
    case (Info h)
    then show ?thesis using get_info_ok [OF one, of h] by (auto simp: handle_inv_def)
  next
    case (Inherit p parent hs std)
    then show ?thesis using inherit_step_ok inv guard by simp
  next
    case (Exit p)
    then show ?thesis using close_process_ok [OF none, of p] by (auto simp: handle_inv_def)
  qed
qed

text \<open>
  C3: the handle tables are memory safe and their counts are right.  From a state in which the
  tables are well formed, every object's handle count is the number of table entries that refer
  to it and its reference count covers its handles, and the reference counts leave room below
  their limit, every sequence of guarded requests -- allocating, closing, flagging and duplicating
  handles, making objects permanent, comparing and querying, processes that inherit or give up
  a table -- runs to its end without leaving a table, reading an entry never written or failing
  an assertion, and re-establishes all of this.
\<close>

theorem handle_tables_safe:
  assumes "env_ok E" "handle_inv (sum_list (map handle_budget qs) + k) s"
  shows "\<exists>s'. handle_run E qs s = Some s' \<and> handle_inv k s'"
  using assms(2)
proof (induction qs arbitrary: s)
  case Nil
  then show ?case by simp
next
  case (Cons q qs)
  show ?case
  proof (cases "handle_guard q s")
    case True
    obtain s1 where "handle_step E q s = Some s1" "handle_inv (sum_list (map handle_budget qs) + k) s1"
      using handle_step_ok [OF assms(1) _ True, of "sum_list (map handle_budget qs) + k"] Cons.prems
      by (auto simp: add.assoc)
    then show ?thesis using True Cons.IH by auto
  next
    case False
    have "handle_inv (sum_list (map handle_budget qs) + k) s"
      using Cons.prems handles_ok_le unfolding handle_inv_def by fastforce
    then show ?thesis using False Cons.IH by simp
  qed
qed

section \<open>A sample server\<close>

text \<open>
  One process (object 1, token 2) whose thread is object 0, an event 3 that the server holds,
  and a global table with one handle to the event.
\<close>

definition sample_env :: env where
  "sample_env = \<lparr>other_map_access = (\<lambda>_ _. 0x1f0003), token_check = (\<lambda>_ _ acc. Some acc),
     may_close = (\<lambda>_ _ _. True)\<rparr>"

definition sample_object :: "nat \<Rightarrow> nat \<Rightarrow> object" where
  "sample_object r h = \<lparr>obj_ops = Event_ops, refcount = r, handle_count = h, is_permanent = False,
     has_sd = False\<rparr>"

definition empty_table :: "pid option \<Rightarrow> handle_table" where
  "empty_table p = \<lparr>table_process = p, nr_entries = 32, last_entry = - 1, free_from = 0,
     entries = replicate 32 None\<rparr>"

definition sample_global :: handle_table where
  "sample_global = (empty_table None)\<lparr>last_entry := 0, free_from := 1,
     entries := Some \<lparr>ptr = Some 3, access = 1\<rparr> # replicate 31 None\<rparr>"

definition sample_server :: server where
  "sample_server = \<lparr>objs = [0 \<mapsto> sample_object 1 0, 1 \<mapsto> sample_object 1 0, 2 \<mapsto> sample_object 1 0,
       3 \<mapsto> sample_object 2 1],
     next_obj = 4, memory = [], error = 0,
     procs = [\<lparr>process_obj = 1, process_token = 2, handles = Some (empty_table (Some 0))\<rparr>],
     global_table = Some sample_global, cur_process = 0, cur_thread_obj = 0, cur_token = None,
     cur_impersonation = None, type_counts = (\<lambda>_. \<lparr>handles_now = 0, handles_max = 0\<rparr>), dead = []\<rparr>"

lemma sample_env_ok: "env_ok sample_env"
  by (simp add: env_ok_def sample_env_def has_bits_def handle_consts)

lemma empty_table_wf: "table_wf (empty_table p)"
  by (auto simp: table_wf_def empty_table_def MIN_HANDLE_ENTRIES_def MAX_HANDLE_ENTRIES_def)

lemma sample_global_wf: "table_wf sample_global"
  by (auto simp: table_wf_def sample_global_def empty_table_def MIN_HANDLE_ENTRIES_def
      MAX_HANDLE_ENTRIES_def entry_at_def entry_ptr_def)

lemma sample_inv: "handle_inv 10 sample_server"
  unfolding handle_inv_def
proof (rule handles_okI)
  show "table_wf t" if "get_table tb sample_server = Some t" for tb t
    using that empty_table_wf sample_global_wf
    by (cases tb) (auto simp: sample_server_def split: if_splits)
  have refs: "total_refs sample_server a = of_bool (a = 3)" for a
    by (simp add: total_refs_def sample_server_def table_refs_def live_entries_def empty_table_def
        sample_global_def)
  show "total_refs sample_server a + 0 =
      (case objs sample_server a of None \<Rightarrow> 0 | Some x \<Rightarrow> handle_count x)" for a
    unfolding refs by (simp add: sample_server_def sample_object_def)
  show "1 \<le> refcount x \<and> owed sample_server a x + 0 \<le> refcount x \<and> refcount x + 10 \<le> INT_MAX"
    if "objs sample_server a = Some x" for a x
    using that by (auto simp: sample_server_def sample_object_def owed_def pinned_def INT_MAX_def
      split: if_splits)
qed (auto simp: sample_server_def pinned_def)

theorem handle_tables_safe_witness:
  "\<exists>s'. handle_run sample_env
     [Alloc 0 3 GENERIC_ALL 0, Flags 0 4 1 1, Duplicate 0 4 (Some 0) 0 0 2, Close 0 4, Exit 0]
     sample_server = Some s' \<and> handle_inv 0 s'"
  using handle_tables_safe [OF sample_env_ok, of
    "[Alloc 0 3 GENERIC_ALL 0, Flags 0 4 1 1, Duplicate 0 4 (Some 0) 0 0 2, Close 0 4, Exit 0]"
    0 sample_server] sample_inv
  by simp

section \<open>Closing a global handle\<close>

text \<open>
  C32: closing a global handle writes outside its table.  The handle is valid, but \<open>close_handle\<close>
  computes its index from the obfuscated value and not from the local one, and that index is
  beyond the largest table there can be, so the entry it clears is not in the table.
\<close>

theorem close_global_outside:
  assumes "handle_is_global h" "get_handle p h s = Some (Some (tb, i, e))"
    "get_table Global s = Some t" "int (length (entries t)) \<le> MAX_HANDLE_ENTRIES"
    "\<not> has_bits (access e) RESERVED_CLOSE_PROTECT" "\<And>a. may_close E a p h"
  shows "close_handle E p h s = None"
proof -
  have tb: "tb = Global"
    using assms(1,2) by (auto simp: get_handle_alt handle_table_id_def bind_eq_Some_conv
      split: option.splits if_splits)
  have "entry_at t (handle_to_index h) = None"
    using global_handle_index [OF assms(1)] assms(4) by (simp add: entry_at_def)
  then have "clear_entry t (handle_to_index h) s = None" by (simp add: clear_entry_def)
  then show ?thesis
    using assms(2,3,5,6) tb by (cases "ptr e") (simp_all add: close_handle_def Let_def)
qed

theorem close_global_outside_witness:
  "close_handle sample_env 0 (handle_local_to_global 4) sample_server = None"
  by (rule close_global_outside [where tb = Global and i = 0 and t = sample_global
        and e = "\<lparr>ptr = Some 3, access = 1\<rparr>"])
     (simp_all add: handle_local_to_global_def handle_is_global_iff HANDLE_OBFUSCATOR_def get_handle_def
       handle_global_to_local_def handle_to_index_def sample_server_def sample_global_def
       empty_table_def entry_at_def MAX_HANDLE_ENTRIES_def has_bits_def handle_consts sample_env_def)

section \<open>Allocating and closing as operations on a map\<close>

text \<open>What a handle of a process stands for.\<close>

definition lookup_handle :: "pid \<Rightarrow> handle \<Rightarrow> server \<Rightarrow> (addr \<times> u32) option" where
  "lookup_handle p h s = (case get_handle p h s of
     Some (Some (_, _, e)) \<Rightarrow> map_option (\<lambda>a. (a, access e)) (ptr e)
   | _ \<Rightarrow> None)"

lemma lookup_handle_map:
  assumes "handles_ok k H P s"
  shows "lookup_handle p h s = (case get_table (handle_table_id p h) s of
    None \<Rightarrow> None | Some t \<Rightarrow> table_map t (handle_index h))"
proof (cases rule: get_handle_cases [OF assms, of p h, case_names invalid valid])
  case invalid
  then show ?thesis by (auto simp: lookup_handle_def split: option.split)
next
  case (valid t e a)
  then show ?thesis by (simp add: lookup_handle_def table_map_def)
qed

lemma index_to_handle_local:
  assumes "0 \<le> i" "i < MAX_HANDLE_ENTRIES"
  shows "\<not> handle_is_global (index_to_handle i)"
  using assms unat_index_to_handle [OF assms]
  by (intro small_handle_local) (simp add: MAX_HANDLE_ENTRIES_def)

text \<open>
  C18: allocating and closing a handle are insertion into and deletion from the map of the
  process.  A handle that allocation returns was free, stands for the object with the access
  it was given (plus the inheritance flag), and leaves what every handle with another index
  means in every process unchanged; if that handle is then closed it is free again, and every
  process sees the map it had before.
\<close>

theorem handle_roundtrip:
  assumes inv: "handle_inv (Suc k) s" and obj: "objs s a \<noteq> None" and acc: "\<not> has_bits acc RESERVED_ALL"
    and alloc: "alloc_handle_entry p a acc attr s = Some (h, s1)" "h \<noteq> 0"
    and close: "close_handle E p h s1 = Some (0, s2)"
  shows "lookup_handle p h s = None \<and>
    lookup_handle p h s1 =
      Some (a, if has_bits attr OBJ_INHERIT then acc OR RESERVED_INHERIT else acc) \<and>
    (\<forall>q h'. q \<noteq> p \<or> handle_to_index h' \<noteq> handle_to_index h \<longrightarrow>
      lookup_handle q h' s1 = lookup_handle q h' s) \<and>
    (\<forall>q h'. lookup_handle q h' s2 = lookup_handle q h' s)"
proof -
  define x where "x = (if has_bits attr OBJ_INHERIT then acc OR RESERVED_INHERIT else acc)"
  have ok: "handles_ok (Suc k) (\<lambda>_. 0) (\<lambda>_. 0) s" using inv by (simp add: handle_inv_def)
  have ok1: "handles_ok k (\<lambda>_. 0) (\<lambda>_. 0) s1"
    and eff: "\<And>t. get_table (Local p) s = Some t \<Longrightarrow> alloc_effect (Local p) t a x s h s1"
    and none: "get_table (Local p) s \<noteq> None"
    using alloc_handle_entry_ok [OF ok obj acc, of p attr] alloc unfolding x_def by auto
  obtain t where t: "get_table (Local p) s = Some t" using none by auto
  obtain i t1 where i: "h = index_to_handle i" "0 \<le> i" "i < MAX_HANDLE_ENTRIES" "table_map t i = None"
      "get_table (Local p) s1 = Some t1" "table_map t1 = (table_map t)(i \<mapsto> (a, x))"
      "\<And>tb'. tb' \<noteq> Local p \<Longrightarrow> get_table tb' s1 = get_table tb' s"
    using eff [OF t] alloc(2) unfolding alloc_effect_def by blast
  have loc: "\<not> handle_is_global h" using index_to_handle_local i(1-3) by simp
  have idx: "handle_to_index h = i" using handle_index_roundtrip i(1-3) by simp
  have ok2: "handles_ok k (\<lambda>_. 0) (\<lambda>_. 0) s2" and ceff: "close_effect p h s1 0 s2"
    using close_handle_ok [OF ok1 loc, of E p] close by auto
  obtain t2 where t2: "get_table (Local p) s2 = Some t2" "table_map t2 = (table_map t1)(i := None)"
      "\<And>tb. tb \<noteq> Local p \<Longrightarrow> get_table tb s2 = get_table tb s1"
    using ceff i(5) idx unfolding close_effect_def by auto
  have same: "table_map t2 = table_map t" using t2(2) i(4,6) by auto
  note L = lookup_handle_map [OF ok] lookup_handle_map [OF ok1] lookup_handle_map [OF ok2]
  have id: "handle_table_id p h = Local p" "handle_index h = i"
    using loc idx by (simp_all add: handle_table_id_def handle_index_def)
  have "lookup_handle q h' s1 = lookup_handle q h' s" if "q \<noteq> p \<or> handle_to_index h' \<noteq> i" for q h'
  proof (cases "handle_table_id q h' = Local p")
    case True
    then have "q = p" "handle_index h' = handle_to_index h'"
      by (auto simp: handle_table_id_def handle_index_def split: if_splits)
    then show ?thesis using True that t i(5,6) by (simp add: L del: get_table.simps)
  next
    case False
    then show ?thesis using i(7) by (simp add: L del: get_table.simps)
  qed
  moreover have "lookup_handle q h' s2 = lookup_handle q h' s" for q h'
    using same t t2(1,3) i(7) by (cases "handle_table_id q h' = Local p") (simp_all add: L del: get_table.simps)
  ultimately show ?thesis
    using t i(4-6) id unfolding idx x_def [symmetric] by (simp add: L del: get_table.simps)
qed

definition sample_table :: handle_table where
  "sample_table = (empty_table (Some 0))\<lparr>last_entry := 0, free_from := 1,
     entries := Some \<lparr>ptr = Some 3, access = 1\<rparr> # replicate 31 None\<rparr>"

lemma sample_alloc:
  "\<exists>s1. alloc_handle_entry 0 3 1 0 sample_server = Some (4, s1) \<and>
     get_table (Local 0) s1 = Some sample_table \<and> objs s1 3 = Some (sample_object 3 2)"
proof -
  have scan: "scan_free (empty_table (Some 0)) 0 = Some (0, False)"
    by (simp add: scan_free.simps empty_table_def)
  have "write_entry ((empty_table (Some 0))\<lparr>last_entry := 0, free_from := 1\<rparr>) 0
      \<lparr>ptr = Some 3, access = 1\<rparr> = Some sample_table"
    by (simp add: write_entry_def empty_table_def sample_table_def numeral_eq_Suc)
  then show ?thesis
    using scan
    by (simp add: alloc_handle_entry_def assert_that_def has_bits_def handle_consts OBJ_INHERIT_def
        sample_server_def alloc_entry_def Let_def claim_entry_def grab_object_for_handle_def
        grab_object_def sample_object_def upd_obj_def count_type_def INT_MAX_def index_to_handle_def
        empty_table_def [of "Some 0"])
qed

lemma sample_close:
  assumes t: "get_table (Local 0) s1 = Some sample_table" and obj: "objs s1 3 = Some (sample_object 3 2)"
  shows "\<exists>s2. close_handle sample_env 0 4 s1 = Some (0, s2)"
proof -
  have loc: "\<not> handle_is_global 4" by (rule small_handle_local) simp
  have idx: "handle_to_index 4 = 0" by (simp add: handle_to_index_alt)
  have get: "get_handle 0 4 s1 = Some (Some (Local 0, 0, \<lparr>ptr = Some 3, access = 1\<rparr>))"
    using t loc idx by (simp add: get_handle_def sample_table_def entry_at_def del: get_table.simps)
  define u where "u = sample_table\<lparr>free_from := 0, entries := Some \<lparr>ptr = None, access = 1\<rparr> # replicate 31 None\<rparr>"
  have "shrink_last u 0 = Some (- 1)"
    by (simp add: shrink_last.simps u_def entry_at_def)
  then have "clear_entry sample_table 0 s1 = Some (u\<lparr>last_entry := - 1\<rparr>, s1)"
    by (simp add: clear_entry_def sample_table_def entry_at_def write_entry_def Let_def u_def
        empty_table_def shrink_handle_table_def MIN_HANDLE_ENTRIES_def)
  then show ?thesis
    using get t idx obj
    by (simp add: close_handle_def Let_def has_bits_def handle_consts sample_env_def
        release_object_from_handle_def release_object_def assert_that_def sample_object_def
        del: get_table.simps put_table.simps)
qed

theorem handle_roundtrip_witness:
  "\<exists>h s1 s2. alloc_handle_entry 0 3 1 0 sample_server = Some (h, s1) \<and> h = 4 \<and>
     close_handle sample_env 0 h s1 = Some (0, s2) \<and> lookup_handle 0 h s1 = Some (3, 1) \<and>
     lookup_handle 0 h s2 = None"
proof -
  have run: "\<exists>s1 s2. alloc_handle_entry 0 3 1 0 sample_server = Some (4, s1) \<and>
      close_handle sample_env 0 4 s1 = Some (0, s2)"
    using sample_alloc sample_close by blast
  have inv: "handle_inv (Suc 9) sample_server" using sample_inv by simp
  have obj: "objs sample_server 3 \<noteq> None" by (simp add: sample_server_def)
  have acc: "\<not> has_bits 1 RESERVED_ALL" by (simp add: has_bits_def handle_consts)
  from run obtain s1 s2 where r: "alloc_handle_entry 0 3 1 0 sample_server = Some (4, s1)"
    "close_handle sample_env 0 4 s1 = Some (0, s2)" by blast
  have "\<not> has_bits (0 :: u32) OBJ_INHERIT" by (simp add: has_bits_def)
  then show ?thesis
    using r handle_roundtrip [OF inv obj acc r(1) _ r(2)] by auto
qed

end
