(* ===== verification/Wine_Wait.thy ===== *)
theory Wine_Wait
  imports Wine_Handles
begin

text \<open>
  Waiting and waking: the wait queues of \<^verbatim>\<open>wine/server/thread.c\<close> and the synchronisation objects
  of \<^verbatim>\<open>semaphore.c\<close>, \<^verbatim>\<open>mutex.c\<close> and \<^verbatim>\<open>event.c\<close> that they call through the object vtable.

  A waitable object refers to a sync object, which carries the queue.  A queue entry is the
  thread, the number of its wait structure and the index in it; a thread's wait structures are
  a stack with the current wait first.  \<^const>\<open>None\<close> is a failed assertion.

  The wakeup pipe of a thread accepts every reply: a failed write ends in the teardown of the
  thread, which is not modelled, nor are keyed events.  The in-process synchronisation device
  is absent, as on every host but Linux.
\<close>

section \<open>State\<close>

type_synonym tid = nat
type_synonym queue_entry = "tid \<times> nat \<times> nat"

record semaphore_sync =
  sem_count :: u32
  sem_max :: u32

record mutex_sync =
  mutex_owner :: "tid option"
  mutex_count :: u32
  mutex_abandoned :: bool

record event_sync =
  ev_manual :: bool
  ev_signaled :: bool

text \<open>
  What is behind an object header: a semaphore, mutex, event or suspended thread context with its
  sync object, an object of another type with its sync object if it can be waited on, or one of the
  sync objects.
\<close>

record thread_ctx =
  ctx_sync :: "addr option"
  cooperative :: bool
  regs_pending :: bool

datatype body =
    Semaphore "addr option" | Mutex "addr option" | Event "addr option"
  | Context thread_ctx | Other "addr option"
  | Semaphore_sync semaphore_sync | Mutex_sync mutex_sync | Event_sync event_sync

fun body_sync :: "body \<Rightarrow> addr option" where
  "body_sync (Semaphore y) = y"
| "body_sync (Mutex y) = y"
| "body_sync (Event y) = y"
| "body_sync (Context c) = ctx_sync c"
| "body_sync (Other y) = y"
| "body_sync _ = None"

text \<open>The object's own \<open>get_sync\<close>; the default one returns the object itself.\<close>

fun get_sync :: "addr \<Rightarrow> body \<Rightarrow> addr option" where
  "get_sync a (Semaphore y) = y"
| "get_sync a (Mutex y) = y"
| "get_sync a (Event y) = y"
| "get_sync a (Context c) = ctx_sync c"
| "get_sync a (Other (Some y)) = Some y"
| "get_sync a _ = Some a"

fun is_sync :: "body \<Rightarrow> bool" where
  "is_sync (Semaphore_sync _) = True"
| "is_sync (Mutex_sync _) = True"
| "is_sync (Event_sync _) = True"
| "is_sync _ = False"

datatype select_opcode = SELECT_NONE | SELECT_WAIT | SELECT_WAIT_ALL | SELECT_SIGNAL_AND_WAIT | Unknown_opcode

definition SELECT_ALERTABLE :: u32 where "SELECT_ALERTABLE = 1"
definition SELECT_INTERRUPTIBLE :: u32 where "SELECT_INTERRUPTIBLE = 2"
definition SELECT_COOPERATIVE_SUSPEND :: u32 where "SELECT_COOPERATIVE_SUSPEND = 4"
definition MAXIMUM_WAIT_OBJECTS :: nat where "MAXIMUM_WAIT_OBJECTS = 64"
definition TIMEOUT_INFINITE :: int where "TIMEOUT_INFINITE = 0x7fffffffffffffff"

record thread_wait =
  wait_id :: nat
  wait_flags :: u32
  wait_abandoned :: bool
  wait_select :: select_opcode
  wait_cookie :: u64
  wait_when :: int
  wait_user :: bool
  wait_objs :: "addr list"

record thread =
  thread_process :: pid
  waits :: "thread_wait list"
  mutex_list :: "addr list"
  system_apc :: nat
  user_apc :: nat
  suspend_count :: nat
  bypass_proc_suspend :: bool
  thread_context :: "addr option"
  suspend_cookie :: u64

record sync_server =
  srv :: server
  bodies :: "addr \<Rightarrow> body option"
  wait_queue :: "addr \<Rightarrow> queue_entry list"
  threads :: "tid \<Rightarrow> thread"
  proc_suspend :: "pid \<Rightarrow> nat"
  init_done :: "pid \<Rightarrow> bool"
  current :: tid
  current_time :: int
  monotonic_time :: int
  next_wait :: nat
  wakeups :: "(tid \<times> u64 \<times> u32) list"
  stop_signals :: "tid list"

definition sync_error :: "u32 \<Rightarrow> sync_server \<Rightarrow> sync_server" where
  "sync_error err s = s\<lparr>srv := set_error err (srv s)\<rparr>"

definition upd_thread :: "tid \<Rightarrow> (thread \<Rightarrow> thread) \<Rightarrow> sync_server \<Rightarrow> sync_server" where
  "upd_thread t f s = s\<lparr>threads := (threads s)(t := f (threads s t))\<rparr>"

definition upd_body :: "addr \<Rightarrow> body option \<Rightarrow> sync_server \<Rightarrow> sync_server" where
  "upd_body a b s = s\<lparr>bodies := (bodies s)(a := b)\<rparr>"

definition upd_queue :: "addr \<Rightarrow> queue_entry list \<Rightarrow> sync_server \<Rightarrow> sync_server" where
  "upd_queue a q s = s\<lparr>wait_queue := (wait_queue s)(a := q)\<rparr>"

section \<open>References, and what happens to an object that loses the last one\<close>

definition grab :: "addr \<Rightarrow> sync_server \<Rightarrow> sync_server option" where
  "grab a s = do {
     h \<leftarrow> grab_object a (srv s);
     Some (s\<lparr>srv := h\<rparr>)
   }"

text \<open>A sync object has no references of its own; a mutex must not be held.\<close>

definition mutex_sync_destroy :: "mutex_sync \<Rightarrow> unit option" where
  "mutex_sync_destroy m = assert_that (mutex_count m = 0)"

definition destroy_leaf :: "addr \<Rightarrow> sync_server \<Rightarrow> sync_server option" where
  "destroy_leaf a s = do {
     assert_that (wait_queue s a = []);
     (case bodies s a of Some (Mutex_sync m) \<Rightarrow> mutex_sync_destroy m | _ \<Rightarrow> Some ());
     Some (upd_body a None s)
   }"

definition release_sync :: "addr \<Rightarrow> sync_server \<Rightarrow> sync_server option" where
  "release_sync y s = do {
     h \<leftarrow> release_object y (srv s);
     if objs h y = None then destroy_leaf y (s\<lparr>srv := h\<lparr>dead := dead (srv s)\<rparr>\<rparr>)
     else Some (s\<lparr>srv := h\<rparr>)
   }"

definition destroy :: "addr \<Rightarrow> sync_server \<Rightarrow> sync_server option" where
  "destroy a s = do {
     assert_that (wait_queue s a = []);
     case Option.bind (bodies s a) body_sync of
       None \<Rightarrow> destroy_leaf a s
     | Some y \<Rightarrow> release_sync y (upd_body a None s)
   }"

fun destroy_all :: "addr list \<Rightarrow> sync_server \<Rightarrow> sync_server option" where
  "destroy_all [] s = Some s"
| "destroy_all (a # as) s = do { s \<leftarrow> destroy a s; destroy_all as s }"

text \<open>Running an operation on handles and then the destroy callbacks of what it freed.\<close>

definition with_handles ::
    "(server \<Rightarrow> ('a \<times> server) option) \<Rightarrow> sync_server \<Rightarrow> ('a \<times> sync_server) option" where
  "with_handles f s = do {
     (r, h) \<leftarrow> f (srv s);
     s \<leftarrow> destroy_all (rev (dead h)) (s\<lparr>srv := h\<lparr>dead := []\<rparr>\<rparr>);
     Some (r, s)
   }"

definition release :: "addr \<Rightarrow> sync_server \<Rightarrow> sync_server option" where
  "release a s = do {
     (_, s) \<leftarrow> with_handles (\<lambda>h. map_option (\<lambda>h. ((), h)) (release_object a h)) s;
     Some s
   }"

section \<open>Semaphores, mutexes and events\<close>

definition semaphore_sync_signaled :: "semaphore_sync \<Rightarrow> bool" where
  "semaphore_sync_signaled sem \<longleftrightarrow> sem_count sem > 0"

definition semaphore_sync_satisfied :: "addr \<Rightarrow> semaphore_sync \<Rightarrow> sync_server \<Rightarrow> sync_server option" where
  "semaphore_sync_satisfied y sem s = do {
     assert_that (sem_count sem \<noteq> 0);
     Some (upd_body y (Some (Semaphore_sync (sem\<lparr>sem_count := sem_count sem - 1\<rparr>))) s)
   }"

definition mutex_sync_signaled :: "mutex_sync \<Rightarrow> tid \<Rightarrow> bool" where
  "mutex_sync_signaled m t \<longleftrightarrow> mutex_count m = 0 \<or> mutex_owner m = Some t"

definition do_grab :: "addr \<Rightarrow> mutex_sync \<Rightarrow> tid \<Rightarrow> sync_server \<Rightarrow> (mutex_sync \<times> sync_server) option" where
  "do_grab y m t s = do {
     assert_that (mutex_count m = 0 \<or> mutex_owner m = Some t);
     let m' = m\<lparr>mutex_count := mutex_count m + 1\<rparr>;
     if mutex_count m = 0
     then do {
       assert_that (mutex_owner m = None);
       s \<leftarrow> grab y s;
       Some (m'\<lparr>mutex_owner := Some t\<rparr>,
             upd_thread t (\<lambda>th. th\<lparr>mutex_list := y # mutex_list th\<rparr>) s)
     }
     else Some (m', s)
   }"

text \<open>The result tells whether the wait is to be reported as abandoned.\<close>

definition mutex_sync_satisfied ::
    "addr \<Rightarrow> mutex_sync \<Rightarrow> tid \<Rightarrow> sync_server \<Rightarrow> (bool \<times> sync_server) option" where
  "mutex_sync_satisfied y m t s = do {
     (m', s) \<leftarrow> do_grab y m t s;
     Some (mutex_abandoned m', upd_body y (Some (Mutex_sync (m'\<lparr>mutex_abandoned := False\<rparr>))) s)
   }"

definition event_sync_signaled :: "event_sync \<Rightarrow> bool" where
  "event_sync_signaled ev = ev_signaled ev"

definition event_sync_satisfied :: "addr \<Rightarrow> event_sync \<Rightarrow> sync_server \<Rightarrow> sync_server" where
  "event_sync_satisfied y ev s =
     (if ev_manual ev then s else upd_body y (Some (Event_sync (ev\<lparr>ev_signaled := False\<rparr>))) s)"

section \<open>The sync object of an object\<close>

definition get_obj_sync :: "addr \<Rightarrow> sync_server \<Rightarrow> (addr \<times> sync_server) option" where
  "get_obj_sync a s = do {
     b \<leftarrow> bodies s a;
     y \<leftarrow> get_sync a b;
     s \<leftarrow> grab y s;
     Some (y, s)
   }"

fun sync_signaled :: "addr \<Rightarrow> tid \<Rightarrow> sync_server \<Rightarrow> bool option" where
  "sync_signaled y t s = (case bodies s y of
     Some (Semaphore_sync sem) \<Rightarrow> Some (semaphore_sync_signaled sem)
   | Some (Mutex_sync m) \<Rightarrow> Some (mutex_sync_signaled m t)
   | Some (Event_sync ev) \<Rightarrow> Some (event_sync_signaled ev)
   | _ \<Rightarrow> None)"

fun sync_satisfied :: "addr \<Rightarrow> tid \<Rightarrow> sync_server \<Rightarrow> (bool \<times> sync_server) option" where
  "sync_satisfied y t s = (case bodies s y of
     Some (Semaphore_sync sem) \<Rightarrow> do { s \<leftarrow> semaphore_sync_satisfied y sem s; Some (False, s) }
   | Some (Mutex_sync m) \<Rightarrow> mutex_sync_satisfied y m t s
   | Some (Event_sync ev) \<Rightarrow> Some (False, event_sync_satisfied y ev s)
   | _ \<Rightarrow> None)"

definition add_queue :: "addr \<Rightarrow> queue_entry \<Rightarrow> sync_server \<Rightarrow> bool \<times> sync_server" where
  "add_queue y e s = (case bodies s y of
     Some b \<Rightarrow> if is_sync b then (True, upd_queue y (wait_queue s y @ [e]) s)
               else (False, sync_error STATUS_OBJECT_TYPE_MISMATCH s)
   | None \<Rightarrow> (False, sync_error STATUS_OBJECT_TYPE_MISMATCH s))"

definition remove_queue :: "addr \<Rightarrow> queue_entry \<Rightarrow> sync_server \<Rightarrow> sync_server" where
  "remove_queue y e s = upd_queue y (remove1 e (wait_queue s y)) s"

definition object_sync_satisfied :: "addr \<Rightarrow> tid \<Rightarrow> sync_server \<Rightarrow> (bool \<times> sync_server) option" where
  "object_sync_satisfied a t s = do {
     (y, s) \<leftarrow> get_obj_sync a s;
     (ab, s) \<leftarrow> sync_satisfied y t s;
     s \<leftarrow> release_sync y s;
     Some (ab, s)
   }"

definition object_sync_remove_queue :: "addr \<Rightarrow> queue_entry \<Rightarrow> sync_server \<Rightarrow> sync_server option" where
  "object_sync_remove_queue a e s = do {
     (y, s) \<leftarrow> get_obj_sync a s;
     release_sync y (remove_queue y e s)
   }"

definition object_sync_add_queue :: "addr \<Rightarrow> queue_entry \<Rightarrow> sync_server \<Rightarrow> (bool \<times> sync_server) option" where
  "object_sync_add_queue a e s = do {
     (y, s) \<leftarrow> get_obj_sync a s;
     let (ok, s) = add_queue y e s;
     s \<leftarrow> release_sync y s;
     Some (ok, s)
   }"

definition object_sync_signaled :: "addr \<Rightarrow> tid \<Rightarrow> sync_server \<Rightarrow> (bool \<times> sync_server) option" where
  "object_sync_signaled a t s = do {
     (y, s) \<leftarrow> get_obj_sync a s;
     b \<leftarrow> sync_signaled y t s;
     s \<leftarrow> release_sync y s;
     Some (b, s)
   }"

section \<open>Ending a wait\<close>

fun satisfy_all :: "addr list \<Rightarrow> tid \<Rightarrow> bool \<Rightarrow> sync_server \<Rightarrow> (bool \<times> sync_server) option" where
  "satisfy_all [] t ab s = Some (ab, s)"
| "satisfy_all (a # as) t ab s = do {
     (b, s) \<leftarrow> object_sync_satisfied a t s;
     satisfy_all as t (ab \<or> b) s
   }"

fun leave_queues :: "addr list \<Rightarrow> nat \<Rightarrow> nat \<Rightarrow> tid \<Rightarrow> sync_server \<Rightarrow> sync_server option" where
  "leave_queues [] i w t s = Some s"
| "leave_queues (a # as) i w t s = do {
     s \<leftarrow> object_sync_remove_queue a (t, w, i) s;
     s \<leftarrow> release a s;
     leave_queues as (i + 1) w t s
   }"

definition satisfy_wait ::
    "thread_wait \<Rightarrow> tid \<Rightarrow> u32 \<Rightarrow> sync_server \<Rightarrow> (u32 \<times> sync_server) option" where
  "satisfy_wait w t status s =
     (if unat status < length (wait_objs w)
      then do {
        (ab, s) \<leftarrow> (if wait_select w = SELECT_WAIT_ALL then satisfy_all (wait_objs w) t (wait_abandoned w) s
                    else satisfy_all [wait_objs w ! unat status] t (wait_abandoned w) s);
        Some (if ab then status + STATUS_ABANDONED_WAIT_0 else status, s)
      }
      else Some (status, s))"

definition end_wait :: "tid \<Rightarrow> u32 \<Rightarrow> sync_server \<Rightarrow> (u32 \<times> sync_server) option" where
  "end_wait t status s = (case waits (threads s t) of
     [] \<Rightarrow> None
   | w # ws \<Rightarrow> do {
       let s = upd_thread t (\<lambda>th. th\<lparr>waits := ws\<rparr>) s;
       (status, s) \<leftarrow> satisfy_wait w t status s;
       s \<leftarrow> leave_queues (wait_objs w) 0 (wait_id w) t s;
       Some (status, s)
     })"

section \<open>Checking a wait\<close>

definition context_of :: "tid \<Rightarrow> sync_server \<Rightarrow> (addr \<times> thread_ctx) option" where
  "context_of t s = (case thread_context (threads s t) of
     None \<Rightarrow> None
   | Some a \<Rightarrow> (case bodies s a of Some (Context c) \<Rightarrow> Some (a, c) | _ \<Rightarrow> None))"

definition is_thread_suspended :: "tid \<Rightarrow> sync_server \<Rightarrow> bool" where
  "is_thread_suspended t s = (let th = threads s t in
     if (case context_of t s of Some (_, c) \<Rightarrow> cooperative c | None \<Rightarrow> False) then False
     else if suspend_count th \<noteq> 0 then True
     else \<not> bypass_proc_suspend th \<and> proc_suspend s (thread_process th) \<noteq> 0)"

fun all_signaled :: "addr list \<Rightarrow> tid \<Rightarrow> sync_server \<Rightarrow> (bool \<times> sync_server) option" where
  "all_signaled [] t s = Some (True, s)"
| "all_signaled (a # as) t s = do {
     (b, s) \<leftarrow> object_sync_signaled a t s;
     (bs, s) \<leftarrow> all_signaled as t s;
     Some (b \<and> bs, s)
   }"

fun first_signaled :: "addr list \<Rightarrow> nat \<Rightarrow> tid \<Rightarrow> sync_server \<Rightarrow> (nat option \<times> sync_server) option" where
  "first_signaled [] i t s = Some (None, s)"
| "first_signaled (a # as) i t s = do {
     (b, s) \<leftarrow> object_sync_signaled a t s;
     if b then Some (Some i, s) else first_signaled as (i + 1) t s
   }"

definition wait_expired :: "thread_wait \<Rightarrow> tid \<Rightarrow> sync_server \<Rightarrow> u32 option" where
  "wait_expired w t s =
     (if has_bits (wait_flags w) SELECT_ALERTABLE \<and> user_apc (threads s t) \<noteq> 0 then Some STATUS_USER_APC
      else if wait_when w \<ge> 0 \<and> wait_when w \<le> current_time s then Some STATUS_TIMEOUT
      else if wait_when w < 0 \<and> - wait_when w \<le> monotonic_time s then Some STATUS_TIMEOUT
      else None)"

text \<open>The status, or \<^const>\<open>None\<close> inside for the code's \<open>- 1\<close>: still waiting.\<close>

definition check_objects :: "thread_wait \<Rightarrow> tid \<Rightarrow> sync_server \<Rightarrow> (u32 option \<times> sync_server) option" where
  "check_objects w t s =
     (if wait_select w = SELECT_WAIT_ALL
      then do {
        (ok, s) \<leftarrow> all_signaled (wait_objs w) t s;
        Some (if ok then Some STATUS_WAIT_0 else wait_expired w t s, s)
      }
      else do {
        (i, s) \<leftarrow> first_signaled (wait_objs w) 0 t s;
        Some (case i of Some i \<Rightarrow> Some (of_nat i) | None \<Rightarrow> wait_expired w t s, s)
      })"

definition check_wait :: "tid \<Rightarrow> sync_server \<Rightarrow> (u32 option \<times> sync_server) option" where
  "check_wait t s = (case waits (threads s t) of
     [] \<Rightarrow> None
   | w # _ \<Rightarrow>
       if has_bits (wait_flags w) SELECT_INTERRUPTIBLE \<and> system_apc (threads s t) \<noteq> 0
       then Some (Some STATUS_KERNEL_APC, s)
       else case (if has_bits (wait_flags w) SELECT_COOPERATIVE_SUSPEND then context_of t s else None) of
         Some (a, c) \<Rightarrow> Some (Some STATUS_THREAD_WAS_SUSPENDED,
           upd_body a (Some (Context (c\<lparr>cooperative := True\<rparr>))) s)
       | None \<Rightarrow>
           if is_thread_suspended t s then Some (None, s)
           else check_objects w t s)"

section \<open>Waking\<close>

text \<open>What the reply to the thread says; waking a suspended thread lets go of its saved context.\<close>

definition wake_context :: "tid \<Rightarrow> u64 \<Rightarrow> u32 \<Rightarrow> sync_server \<Rightarrow> (u32 \<times> sync_server) option" where
  "wake_context t cookie signaled s = (case context_of t s of
     None \<Rightarrow> Some (signaled, s)
   | Some (a, c) \<Rightarrow>
       if suspend_cookie (threads s t) = cookie \<and> signaled \<noteq> STATUS_KERNEL_APC \<and>
          signaled \<noteq> STATUS_USER_APC
       then if \<not> regs_pending c
            then do {
              s \<leftarrow> release a s;
              Some (signaled, upd_thread t (\<lambda>th. th\<lparr>thread_context := None\<rparr>) s)
            }
            else Some (STATUS_KERNEL_APC, s)
       else Some (signaled, s))"

definition send_thread_wakeup :: "tid \<Rightarrow> u64 \<Rightarrow> u32 \<Rightarrow> sync_server \<Rightarrow> sync_server option" where
  "send_thread_wakeup t cookie signaled s = do {
     (signaled, s) \<leftarrow> wake_context t cookie signaled s;
     Some (s\<lparr>wakeups := wakeups s @ [(t, cookie, signaled)]\<rparr>)
   }"

partial_function (option) wake_loop :: "tid \<Rightarrow> nat \<Rightarrow> sync_server \<Rightarrow> (nat \<times> sync_server) option" where
  "wake_loop t n s = (case waits (threads s t) of
     [] \<Rightarrow> Some (n, s)
   | w # ws \<Rightarrow> do {
       (st, s) \<leftarrow> check_wait t s;
       case st of
         None \<Rightarrow> Some (n, s)
       | Some st \<Rightarrow> do {
           (st, s) \<leftarrow> end_wait t st s;
           s \<leftarrow> (if wait_cookie w \<noteq> 0 then send_thread_wakeup t (wait_cookie w) st s else Some s);
           wake_loop t (n + 1) s
         }
     })"

definition wake_thread :: "tid \<Rightarrow> sync_server \<Rightarrow> (nat \<times> sync_server) option" where
  "wake_thread t s = wake_loop t 0 s"

text \<open>The first thread of the queue that wakes; a thread that stays asleep changes nothing.\<close>

fun wake_first :: "queue_entry list \<Rightarrow> sync_server \<Rightarrow> (bool \<times> sync_server) option" where
  "wake_first [] s = Some (False, s)"
| "wake_first ((t, _) # es) s = do {
     (n, s) \<leftarrow> wake_thread t s;
     if n = 0 then wake_first es s else Some (True, s)
   }"

partial_function (option) wake_up :: "addr \<Rightarrow> u32 \<Rightarrow> sync_server \<Rightarrow> sync_server option" where
  "wake_up y limit s = do {
     (woken, s) \<leftarrow> wake_first (wait_queue s y) s;
     if \<not> woken then Some s
     else if limit = 1 then Some s
     else wake_up y (if limit = 0 then 0 else limit - 1) s
   }"

definition thread_timeout :: "tid \<Rightarrow> nat \<Rightarrow> sync_server \<Rightarrow> sync_server option" where
  "thread_timeout t wid s =
     (let s = upd_thread t (\<lambda>th. th\<lparr>waits :=
                map (\<lambda>w. if wait_id w = wid then w\<lparr>wait_user := False\<rparr> else w) (waits th)\<rparr>) s
      in case waits (threads s t) of
           [] \<Rightarrow> Some s
         | w # _ \<Rightarrow>
             if wait_id w \<noteq> wid then Some s
             else if is_thread_suspended t s then Some s
             else do {
               (_, s) \<leftarrow> end_wait t STATUS_TIMEOUT s;
               assert_that (wait_cookie w \<noteq> 0);
               s \<leftarrow> send_thread_wakeup t (wait_cookie w) STATUS_TIMEOUT s;
               (_, s) \<leftarrow> wake_thread t s;
               Some s
             })"

section \<open>Releasing and signalling\<close>

definition release_semaphore :: "addr \<Rightarrow> u32 \<Rightarrow> sync_server \<Rightarrow> (bool \<times> u32 \<times> sync_server) option" where
  "release_semaphore y n s = (case bodies s y of
     Some (Semaphore_sync sem) \<Rightarrow>
       if sem_count sem + n < sem_count sem \<or> sem_count sem + n > sem_max sem
       then Some (False, sem_count sem, sync_error STATUS_SEMAPHORE_LIMIT_EXCEEDED s)
       else if sem_count sem \<noteq> 0
       then Some (True, sem_count sem,
         upd_body y (Some (Semaphore_sync (sem\<lparr>sem_count := sem_count sem + n\<rparr>))) s)
       else do {
         s \<leftarrow> wake_up y n (upd_body y (Some (Semaphore_sync (sem\<lparr>sem_count := n\<rparr>))) s);
         Some (True, sem_count sem, s)
       }
   | _ \<Rightarrow> None)"

definition do_release :: "addr \<Rightarrow> tid \<Rightarrow> u32 \<Rightarrow> sync_server \<Rightarrow> (bool \<times> sync_server) option" where
  "do_release y t n s = (case bodies s y of
     Some (Mutex_sync m) \<Rightarrow>
       if mutex_count m = 0 \<or> mutex_owner m \<noteq> Some t
       then Some (False, sync_error STATUS_MUTANT_NOT_OWNED s)
       else let m' = m\<lparr>mutex_count := mutex_count m - n\<rparr>
            in if mutex_count m' \<noteq> 0 then Some (True, upd_body y (Some (Mutex_sync m')) s)
               else do {
                 let s = upd_thread t (\<lambda>th. th\<lparr>mutex_list := remove1 y (mutex_list th)\<rparr>)
                           (upd_body y (Some (Mutex_sync (m'\<lparr>mutex_owner := None\<rparr>))) s);
                 s \<leftarrow> wake_up y 0 s;
                 s \<leftarrow> release_sync y s;
                 Some (True, s)
               }
   | _ \<Rightarrow> None)"

definition event_sync_signal :: "addr \<Rightarrow> bool \<Rightarrow> sync_server \<Rightarrow> sync_server option" where
  "event_sync_signal y signal s = (case bodies s y of
     Some (Event_sync ev) \<Rightarrow>
       (let s = upd_body y (Some (Event_sync (ev\<lparr>ev_signaled := signal\<rparr>))) s
        in if signal then wake_up y (if ev_manual ev then 0 else 1) s else Some s)
   | _ \<Rightarrow> None)"

end
