(* ===== verification/Wine_Sync.thy ===== *)
theory Wine_Sync
  imports Wine_Wait
begin

text \<open>
  Starting a wait and the requests on semaphores, mutexes and events: \<open>wait_on\<close>, \<open>select_on\<close> and the
  suspension of threads from \<^verbatim>\<open>wine/server/thread.c\<close>, and the handlers of \<^verbatim>\<open>semaphore.c\<close>,
  \<^verbatim>\<open>mutex.c\<close> and \<^verbatim>\<open>event.c\<close>.

  The outcome of looking up an object name is a parameter of the create and open requests, the
  datatype \<open>lookup\<close>; the object attributes of a request are given as the handler gets them from
  \<open>get_req_object_attributes\<close>, with the root directory if there is one.  No debugger is attached.
\<close>

section \<open>Starting a wait\<close>

fun enter_queues :: "addr list \<Rightarrow> nat \<Rightarrow> nat \<Rightarrow> tid \<Rightarrow> sync_server \<Rightarrow> (bool \<times> sync_server) option" where
  "enter_queues [] i w t s = Some (True, s)"
| "enter_queues (a # as) i w t s = do {
     (ok, s) \<leftarrow> object_sync_add_queue a (t, w, i) s;
     if \<not> ok then Some (False, s)
     else do {
       s \<leftarrow> grab a s;
       enter_queues as (i + 1) w t
         (upd_thread t (\<lambda>th. th\<lparr>waits := (hd (waits th))\<lparr>wait_objs := wait_objs (hd (waits th)) @ [a]\<rparr>
            # tl (waits th)\<rparr>) s)
     }
   }"

definition sync_alloc :: "sync_server \<Rightarrow> bool \<times> sync_server" where
  "sync_alloc s = (let (ok, h) = Wine_Objects.mem_alloc (srv s) in (ok, s\<lparr>srv := h\<rparr>))"

definition push_wait :: "select_opcode \<Rightarrow> u32 \<Rightarrow> int \<Rightarrow> sync_server \<Rightarrow> sync_server" where
  "push_wait op flags time s =
     upd_thread (current s) (\<lambda>th. th\<lparr>waits :=
       \<lparr>wait_id = next_wait s, wait_flags = flags, wait_abandoned = False, wait_select = op,
        wait_cookie = 0, wait_when = time, wait_user = False, wait_objs = []\<rparr> # waits th\<rparr>)
     (s\<lparr>next_wait := next_wait s + 1\<rparr>)"

definition wait_on ::
    "select_opcode \<Rightarrow> addr list \<Rightarrow> u32 \<Rightarrow> int \<Rightarrow> sync_server \<Rightarrow> (bool \<times> sync_server) option" where
  "wait_on op as flags time s =
     (let (ok, s) = sync_alloc s in
      if \<not> ok then Some (False, s)
      else do {
        (ok, s) \<leftarrow> enter_queues as 0 (next_wait s) (current s) (push_wait op flags time s);
        if \<not> ok
        then do {
          (_, s) \<leftarrow> end_wait (current s) (error (srv s)) s;
          Some (False, s)
        }
        else Some (waits (threads s (current s)) \<noteq> [], s)
      })"

text \<open>The objects of the handles up to the first bad one, each with a reference.\<close>

fun wait_objects :: "handle list \<Rightarrow> sync_server \<Rightarrow> (addr list \<times> bool \<times> sync_server) option" where
  "wait_objects [] s = Some ([], True, s)"
| "wait_objects (h # hs) s = do {
     (a, v) \<leftarrow> get_handle_obj (thread_process (threads s (current s))) h SYNCHRONIZE None (srv s);
     let s = s\<lparr>srv := v\<rparr>;
     case a of
       None \<Rightarrow> Some ([], False, s)
     | Some a \<Rightarrow> do {
         (as, ok, s) \<leftarrow> wait_objects hs s;
         Some (a # as, ok, s)
       }
   }"

fun release_all :: "addr list \<Rightarrow> sync_server \<Rightarrow> sync_server option" where
  "release_all [] s = Some s"
| "release_all (a # as) s = do { s \<leftarrow> release a s; release_all as s }"

definition wait_on_handles ::
    "select_opcode \<Rightarrow> handle list \<Rightarrow> u32 \<Rightarrow> int \<Rightarrow> sync_server \<Rightarrow> (bool \<times> sync_server) option" where
  "wait_on_handles op hs flags time s = do {
     assert_that (length hs \<le> MAXIMUM_WAIT_OBJECTS);
     (as, ok, s) \<leftarrow> wait_objects hs s;
     (r, s) \<leftarrow> (if ok then wait_on op as flags time s else Some (False, s));
     s \<leftarrow> release_all (rev as) s;
     Some (r, s)
   }"

section \<open>Signalling an object\<close>

definition semaphore_signal :: "addr option \<Rightarrow> u32 \<Rightarrow> sync_server \<Rightarrow> (bool \<times> sync_server) option" where
  "semaphore_signal y acc s = do {
     y \<leftarrow> y;
     if \<not> has_bits acc SEMAPHORE_MODIFY_STATE then Some (False, sync_error STATUS_ACCESS_DENIED s)
     else do { (ok, _, s) \<leftarrow> release_semaphore y 1 s; Some (ok, s) }
   }"

definition mutex_signal :: "addr option \<Rightarrow> u32 \<Rightarrow> sync_server \<Rightarrow> (bool \<times> sync_server) option" where
  "mutex_signal y acc s = do {
     y \<leftarrow> y;
     if \<not> has_bits acc SYNCHRONIZE then Some (False, sync_error STATUS_ACCESS_DENIED s)
     else do_release y (current s) 1 s
   }"

definition event_signal :: "addr option \<Rightarrow> u32 \<Rightarrow> sync_server \<Rightarrow> (bool \<times> sync_server) option" where
  "event_signal y acc s = do {
     y \<leftarrow> y;
     if \<not> has_bits acc EVENT_MODIFY_STATE then Some (False, sync_error STATUS_ACCESS_DENIED s)
     else do { s \<leftarrow> event_sync_signal y True s; Some (True, s) }
   }"

definition no_signal :: "sync_server \<Rightarrow> bool \<times> sync_server" where
  "no_signal s = (False, sync_error STATUS_OBJECT_TYPE_MISMATCH s)"

definition ops_signal :: "addr \<Rightarrow> u32 \<Rightarrow> sync_server \<Rightarrow> (bool \<times> sync_server) option" where
  "ops_signal a acc s = do {
     b \<leftarrow> bodies s a;
     case b of
       Semaphore y \<Rightarrow> semaphore_signal y acc s
     | Mutex y \<Rightarrow> mutex_signal y acc s
     | Event y \<Rightarrow> event_signal y acc s
     | Event_sync _ \<Rightarrow> do { s \<leftarrow> event_sync_signal a True s; Some (True, s) }
     | _ \<Rightarrow> Some (no_signal s)
   }"

definition signal_object :: "handle \<Rightarrow> sync_server \<Rightarrow> (bool \<times> sync_server) option" where
  "signal_object h s = do {
     let p = thread_process (threads s (current s));
     (a, v) \<leftarrow> get_handle_obj p h 0 None (srv s);
     let s = s\<lparr>srv := v\<rparr>;
     case a of
       None \<Rightarrow> Some (False, s)
     | Some a \<Rightarrow> do {
         acc \<leftarrow> get_handle_access p h (srv s);
         (r, s) \<leftarrow> ops_signal a acc s;
         s \<leftarrow> release a s;
         Some (r, s)
       }
   }"

section \<open>The select request\<close>

text \<open>
  The handles follow the opcode in the request; a signal-and-wait has the handle to wait on first
  and the one to signal second.  The result is the code's return value: \<^const>\<open>True\<close> when the
  select is over, \<^const>\<open>False\<close> when the thread now waits.
\<close>

record select_op =
  op :: select_opcode
  op_handles :: "handle list"

definition select_start ::
    "select_op \<Rightarrow> u32 \<Rightarrow> u32 \<Rightarrow> int \<Rightarrow> sync_server \<Rightarrow> (bool \<times> sync_server) option" where
  "select_start sel op_size flags time s = (case op sel of
     SELECT_NONE \<Rightarrow> wait_on SELECT_NONE [] flags time s
   | SELECT_SIGNAL_AND_WAIT \<Rightarrow> do {
       (ok, s) \<leftarrow> wait_on_handles (op sel) [op_handles sel ! 0] flags time s;
       if \<not> ok then Some (False, s)
       else if op_handles sel ! 1 = 0 then Some (True, s)
       else do {
         (ok, s) \<leftarrow> signal_object (op_handles sel ! 1) s;
         if \<not> ok
         then do { (_, s) \<leftarrow> end_wait (current s) (error (srv s)) s; Some (False, s) }
         else Some (waits (threads s (current s)) \<noteq> [], s)
       }
     }
   | Unknown_opcode \<Rightarrow> Some (False, sync_error STATUS_INVALID_PARAMETER s)
   | _ \<Rightarrow>
       if op_size < 4 \<or> unat ((op_size - 4) div 4) > MAXIMUM_WAIT_OBJECTS
       then Some (False, sync_error STATUS_INVALID_PARAMETER s)
       else wait_on_handles (op sel) (take (unat ((op_size - 4) div 4)) (op_handles sel)) flags time s)"

definition upd_wait :: "(thread_wait \<Rightarrow> thread_wait) \<Rightarrow> sync_server \<Rightarrow> sync_server" where
  "upd_wait f s = upd_thread (current s) (\<lambda>th. th\<lparr>waits := f (hd (waits th)) # tl (waits th)\<rparr>) s"

definition select_block :: "u64 \<Rightarrow> sync_server \<Rightarrow> (bool \<times> sync_server) option" where
  "select_block cookie s = do {
     let w = hd (waits (threads s (current s)));
     let (ok, s) = (if wait_when w = TIMEOUT_INFINITE then (True, s)
                    else let (ok, s) = sync_alloc s in
                         (ok, if ok then upd_wait (\<lambda>w. w\<lparr>wait_user := True\<rparr>) s else s));
     if \<not> ok then do { (_, s) \<leftarrow> end_wait (current s) (error (srv s)) s; Some (True, s) }
     else Some (False, sync_error STATUS_PENDING (upd_wait (\<lambda>w. w\<lparr>wait_cookie := cookie\<rparr>) s))
   }"

definition select_on ::
    "select_op \<Rightarrow> u32 \<Rightarrow> u64 \<Rightarrow> u32 \<Rightarrow> int \<Rightarrow> sync_server \<Rightarrow> (bool \<times> sync_server) option" where
  "select_on sel op_size cookie flags time s = do {
     (started, s) \<leftarrow> select_start sel op_size flags time s;
     if \<not> started then Some (True, s)
     else do {
       (st, s) \<leftarrow> check_wait (current s) s;
       case st of
         Some st \<Rightarrow> do {
           (st, s) \<leftarrow> end_wait (current s) st s;
           Some (True, sync_error st s)
         }
       | None \<Rightarrow> select_block cookie s
     }
   }"

section \<open>Creating objects\<close>

datatype lookup = Unnamed | No_path u32 | Found addr | Under addr "u32 option"

definition OBJ_PERMANENT :: u32 where "OBJ_PERMANENT = 0x10"
definition OBJ_OPENIF :: u32 where "OBJ_OPENIF = 0x80"

definition new_object :: "ops \<Rightarrow> sync_server \<Rightarrow> addr option \<times> sync_server" where
  "new_object q s = (let (a, h) = alloc_object q (srv s) in (a, s\<lparr>srv := h\<rparr>))"

definition create_object ::
    "ops \<Rightarrow> u32 option \<Rightarrow> sync_server \<Rightarrow> addr option \<times> sync_server" where
  "create_object q link s =
     (let (ok, s) = sync_alloc s in
      if \<not> ok then (None, s)
      else let (a, s) = new_object q s in
           (case (a, link) of
              (Some a, Some err) \<Rightarrow>
                (None, sync_error err (s\<lparr>srv := (srv s)\<lparr>objs := (objs (srv s))(a := None)\<rparr>\<rparr>))
            | _ \<Rightarrow> (a, s)))"

definition create_named ::
    "ops \<Rightarrow> u32 \<Rightarrow> lookup \<Rightarrow> sync_server \<Rightarrow> (addr option \<times> bool \<times> sync_server) option" where
  "create_named q attributes l s = (case l of
     Unnamed \<Rightarrow> let (a, s) = new_object q s in Some (a, True, s)
   | No_path err \<Rightarrow> Some (None, True, sync_error err s)
   | Found a \<Rightarrow> do {
       s \<leftarrow> grab a s;
       obj \<leftarrow> objs (srv s) a;
       if has_bits attributes OBJ_OPENIF \<and> obj_ops obj = q
       then Some (Some a, False, sync_error STATUS_OBJECT_NAME_EXISTS s)
       else do {
         s \<leftarrow> release a s;
         Some (None, False, sync_error (if has_bits attributes OBJ_OPENIF then STATUS_OBJECT_TYPE_MISMATCH
                                        else STATUS_OBJECT_NAME_COLLISION) s)
       }
     }
   | Under parent link \<Rightarrow> do {
       s \<leftarrow> grab parent s;
       let (a, s) = create_object q link s;
       s \<leftarrow> release parent s;
       Some (a, True, s)
     })"

definition create_named_object ::
    "ops \<Rightarrow> u32 \<Rightarrow> lookup \<Rightarrow> sync_server \<Rightarrow> (addr option \<times> sync_server) option" where
  "create_named_object q attributes l s = do {
     (a, is_new, s) \<leftarrow> create_named q attributes l (sync_error 0 s);
     case a of
       None \<Rightarrow> Some (None, s)
     | Some a \<Rightarrow>
         if is_new \<and> has_bits attributes OBJ_PERMANENT
         then do {
           h \<leftarrow> make_object_permanent a (srv s);
           s \<leftarrow> grab a (s\<lparr>srv := h\<rparr>);
           Some (Some a, s)
         }
         else Some (Some a, s)
   }"

definition create_semaphore_sync :: "u32 \<Rightarrow> u32 \<Rightarrow> sync_server \<Rightarrow> (addr option \<times> sync_server) option" where
  "create_semaphore_sync initial limit s =
     (let (y, s) = new_object Semaphore_sync_ops s in
      case y of
        None \<Rightarrow> Some (None, s)
      | Some y \<Rightarrow> Some (Some y, upd_body y (Some (Semaphore_sync \<lparr>sem_count = initial, sem_max = limit\<rparr>)) s))"

definition create_mutex_sync :: "bool \<Rightarrow> sync_server \<Rightarrow> (addr option \<times> sync_server) option" where
  "create_mutex_sync owned s =
     (let (y, s) = new_object Mutex_sync_ops s in
      case y of
        None \<Rightarrow> Some (None, s)
      | Some y \<Rightarrow> do {
          let m = \<lparr>mutex_owner = None, mutex_count = 0, mutex_abandoned = False\<rparr>;
          (m, s) \<leftarrow> (if owned then do_grab y m (current s) s else Some (m, s));
          Some (Some y, upd_body y (Some (Mutex_sync m)) s)
        })"

definition create_event_sync :: "bool \<Rightarrow> bool \<Rightarrow> sync_server \<Rightarrow> (addr option \<times> sync_server) option" where
  "create_event_sync manual signaled s =
     (let (y, s) = new_object Event_sync_ops s in
      case y of
        None \<Rightarrow> Some (None, s)
      | Some y \<Rightarrow> Some (Some y, upd_body y (Some (Event_sync \<lparr>ev_manual = manual, ev_signaled = signaled\<rparr>)) s))"

definition create_server_internal_sync ::
    "bool \<Rightarrow> bool \<Rightarrow> sync_server \<Rightarrow> (addr option \<times> sync_server) option" where
  "create_server_internal_sync manual signaled s =
     (let (y, s) = new_object Event_sync_ops s in
      case y of
        None \<Rightarrow> Some (None, s)
      | Some y \<Rightarrow> Some (Some y, upd_body y (Some (Event_sync \<lparr>ev_manual = manual, ev_signaled = signaled\<rparr>)) s))"

definition create_internal_sync ::
    "bool \<Rightarrow> bool \<Rightarrow> sync_server \<Rightarrow> (addr option \<times> sync_server) option" where
  "create_internal_sync manual signaled s = create_server_internal_sync manual signaled s"

text \<open>
  The common shape of the three create functions: a new object gets its sync object, and is
  released again when that fails.
\<close>

definition create_synced ::
    "ops \<Rightarrow> (addr option \<Rightarrow> body) \<Rightarrow> (sync_server \<Rightarrow> (addr option \<times> sync_server) option) \<Rightarrow>
     u32 \<Rightarrow> lookup \<Rightarrow> sync_server \<Rightarrow> (addr option \<times> sync_server) option" where
  "create_synced q wrap create_sync attributes l s = do {
     (a, s) \<leftarrow> create_named_object q attributes l s;
     case a of
       None \<Rightarrow> Some (None, s)
     | Some a \<Rightarrow>
         if error (srv s) = STATUS_OBJECT_NAME_EXISTS then Some (Some a, s)
         else do {
           (y, s) \<leftarrow> create_sync (upd_body a (Some (wrap None)) s);
           case y of
             None \<Rightarrow> do { s \<leftarrow> release a s; Some (None, s) }
           | Some y \<Rightarrow> Some (Some a, upd_body a (Some (wrap (Some y))) s)
         }
   }"

definition create_semaphore ::
    "u32 \<Rightarrow> lookup \<Rightarrow> u32 \<Rightarrow> u32 \<Rightarrow> sync_server \<Rightarrow> (addr option \<times> sync_server) option" where
  "create_semaphore attributes l initial limit s =
     (if limit = 0 \<or> initial > limit then Some (None, sync_error STATUS_INVALID_PARAMETER s)
      else create_synced Semaphore_ops Semaphore (create_semaphore_sync initial limit) attributes l s)"

definition create_mutex ::
    "u32 \<Rightarrow> lookup \<Rightarrow> bool \<Rightarrow> sync_server \<Rightarrow> (addr option \<times> sync_server) option" where
  "create_mutex attributes l owned s =
     create_synced Mutex_ops Mutex (create_mutex_sync owned) attributes l s"

definition create_event ::
    "u32 \<Rightarrow> lookup \<Rightarrow> bool \<Rightarrow> bool \<Rightarrow> sync_server \<Rightarrow> (addr option \<times> sync_server) option" where
  "create_event attributes l manual initial s =
     create_synced Event_ops Event (create_event_sync manual initial) attributes l s"

section \<open>Requests\<close>

text \<open>The object attributes of a create request: flags, the root directory and the name lookup.\<close>

type_synonym objattr = "(u32 \<times> addr option \<times> lookup) option"

definition release_opt :: "addr option \<Rightarrow> sync_server \<Rightarrow> sync_server option" where
  "release_opt a s = (case a of None \<Rightarrow> Some s | Some a \<Rightarrow> release a s)"

definition grab_opt :: "addr option \<Rightarrow> sync_server \<Rightarrow> sync_server option" where
  "grab_opt a s = (case a of None \<Rightarrow> Some s | Some a \<Rightarrow> grab a s)"

definition lift_handles ::
    "(server \<Rightarrow> ('a \<times> server) option) \<Rightarrow> sync_server \<Rightarrow> ('a \<times> sync_server) option" where
  "lift_handles f s = do { (r, h) \<leftarrow> f (srv s); Some (r, s\<lparr>srv := h\<rparr>) }"

definition cur_proc :: "sync_server \<Rightarrow> pid" where
  "cur_proc s = thread_process (threads s (current s))"

definition create_handle ::
    "env \<Rightarrow> (u32 \<Rightarrow> lookup \<Rightarrow> sync_server \<Rightarrow> (addr option \<times> sync_server) option) \<Rightarrow> u32 \<Rightarrow> objattr \<Rightarrow>
     sync_server \<Rightarrow> (handle \<times> sync_server) option" where
  "create_handle E create acc objattr s = (case objattr of
     None \<Rightarrow> Some (0, s)
   | Some (attributes, root, l) \<Rightarrow> do {
       s \<leftarrow> grab_opt root s;
       (a, s) \<leftarrow> create attributes l s;
       (h, s) \<leftarrow> (case a of
          None \<Rightarrow> Some (0, s)
        | Some a \<Rightarrow> do {
            (h, s) \<leftarrow> (if error (srv s) = STATUS_OBJECT_NAME_EXISTS
                       then lift_handles (alloc_handle E (cur_proc s) a acc attributes) s
                       else lift_handles (alloc_handle_no_access_check E (cur_proc s) a acc attributes) s);
            s \<leftarrow> release a s;
            Some (h, s)
          });
       s \<leftarrow> release_opt root s;
       Some (h, s)
     })"

definition create_semaphore_request ::
    "env \<Rightarrow> u32 \<Rightarrow> u32 \<Rightarrow> u32 \<Rightarrow> objattr \<Rightarrow> sync_server \<Rightarrow> (handle \<times> sync_server) option" where
  "create_semaphore_request E acc initial limit =
     create_handle E (\<lambda>attributes l. create_semaphore attributes l initial limit) acc"

definition create_mutex_request ::
    "env \<Rightarrow> u32 \<Rightarrow> bool \<Rightarrow> objattr \<Rightarrow> sync_server \<Rightarrow> (handle \<times> sync_server) option" where
  "create_mutex_request E acc owned =
     create_handle E (\<lambda>attributes l. create_mutex attributes l owned) acc"

definition create_event_request ::
    "env \<Rightarrow> u32 \<Rightarrow> bool \<Rightarrow> bool \<Rightarrow> objattr \<Rightarrow> sync_server \<Rightarrow> (handle \<times> sync_server) option" where
  "create_event_request E acc manual initial =
     create_handle E (\<lambda>attributes l. create_event attributes l manual initial) acc"

text \<open>The resolution of the name is given; it finds an object of the requested type or an error.\<close>

definition open_named ::
    "env \<Rightarrow> ops \<Rightarrow> handle \<Rightarrow> u32 \<Rightarrow> nat \<Rightarrow> u32 \<Rightarrow> (ops \<Rightarrow> server \<Rightarrow> u32 + addr) \<Rightarrow> sync_server \<Rightarrow>
     (handle \<times> sync_server) option" where
  "open_named E q root acc name_len attributes resolve s =
     with_handles (open_object E (cur_proc s) root acc name_len attributes (resolve q)) s"

definition open_semaphore ::
    "env \<Rightarrow> handle \<Rightarrow> u32 \<Rightarrow> nat \<Rightarrow> u32 \<Rightarrow> (ops \<Rightarrow> server \<Rightarrow> u32 + addr) \<Rightarrow> sync_server \<Rightarrow>
     (handle \<times> sync_server) option" where
  "open_semaphore E = open_named E Semaphore_ops"

definition open_mutex ::
    "env \<Rightarrow> handle \<Rightarrow> u32 \<Rightarrow> nat \<Rightarrow> u32 \<Rightarrow> (ops \<Rightarrow> server \<Rightarrow> u32 + addr) \<Rightarrow> sync_server \<Rightarrow>
     (handle \<times> sync_server) option" where
  "open_mutex E = open_named E Mutex_ops"

definition open_event ::
    "env \<Rightarrow> handle \<Rightarrow> u32 \<Rightarrow> nat \<Rightarrow> u32 \<Rightarrow> (ops \<Rightarrow> server \<Rightarrow> u32 + addr) \<Rightarrow> sync_server \<Rightarrow>
     (handle \<times> sync_server) option" where
  "open_event E = open_named E Event_ops"

definition get_event_obj :: "pid \<Rightarrow> handle \<Rightarrow> u32 \<Rightarrow> sync_server \<Rightarrow> (addr option \<times> sync_server) option" where
  "get_event_obj p h acc = lift_handles (get_handle_obj p h acc (Some Event_ops))"

definition release_semaphore_request ::
    "handle \<Rightarrow> u32 \<Rightarrow> sync_server \<Rightarrow> (u32 option \<times> sync_server) option" where
  "release_semaphore_request h n s = do {
     (a, s) \<leftarrow> lift_handles (get_handle_obj (cur_proc s) h SEMAPHORE_MODIFY_STATE (Some Semaphore_ops)) s;
     case a of
       None \<Rightarrow> Some (None, s)
     | Some a \<Rightarrow> do {
         b \<leftarrow> bodies s a;
         y \<leftarrow> body_sync b;
         (_, prev, s) \<leftarrow> release_semaphore y n s;
         s \<leftarrow> release a s;
         Some (Some prev, s)
       }
   }"

definition query_semaphore :: "handle \<Rightarrow> sync_server \<Rightarrow> ((u32 \<times> u32) option \<times> sync_server) option" where
  "query_semaphore h s = do {
     (a, s) \<leftarrow> lift_handles (get_handle_obj (cur_proc s) h SEMAPHORE_QUERY_STATE (Some Semaphore_ops)) s;
     case a of
       None \<Rightarrow> Some (None, s)
     | Some a \<Rightarrow> do {
         b \<leftarrow> bodies s a;
         y \<leftarrow> body_sync b;
         sem \<leftarrow> (case bodies s y of Some (Semaphore_sync sem) \<Rightarrow> Some sem | _ \<Rightarrow> None);
         s \<leftarrow> release a s;
         Some (Some (sem_count sem, sem_max sem), s)
       }
   }"

definition release_mutex_request :: "handle \<Rightarrow> sync_server \<Rightarrow> (u32 option \<times> sync_server) option" where
  "release_mutex_request h s = do {
     (a, s) \<leftarrow> lift_handles (get_handle_obj (cur_proc s) h 0 (Some Mutex_ops)) s;
     case a of
       None \<Rightarrow> Some (None, s)
     | Some a \<Rightarrow> do {
         b \<leftarrow> bodies s a;
         y \<leftarrow> body_sync b;
         m \<leftarrow> (case bodies s y of Some (Mutex_sync m) \<Rightarrow> Some m | _ \<Rightarrow> None);
         (_, s) \<leftarrow> do_release y (current s) 1 s;
         s \<leftarrow> release a s;
         Some (Some (mutex_count m), s)
       }
   }"

definition query_mutex :: "handle \<Rightarrow> sync_server \<Rightarrow> ((u32 \<times> bool \<times> bool) option \<times> sync_server) option" where
  "query_mutex h s = do {
     (a, s) \<leftarrow> lift_handles (get_handle_obj (cur_proc s) h MUTANT_QUERY_STATE (Some Mutex_ops)) s;
     case a of
       None \<Rightarrow> Some (None, s)
     | Some a \<Rightarrow> do {
         b \<leftarrow> bodies s a;
         y \<leftarrow> body_sync b;
         m \<leftarrow> (case bodies s y of Some (Mutex_sync m) \<Rightarrow> Some m | _ \<Rightarrow> None);
         let reply = (mutex_count m, mutex_owner m = Some (current s), mutex_abandoned m);
         s \<leftarrow> release a s;
         Some (Some reply, s)
       }
   }"

text \<open>
  A terminating thread gives up its mutexes; each round removes the first of its list, so the
  list bounds the loop.
\<close>

definition abandon_first :: "addr \<Rightarrow> tid \<Rightarrow> sync_server \<Rightarrow> sync_server option" where
  "abandon_first y t s = (case bodies s y of
     Some (Mutex_sync m) \<Rightarrow> do {
       assert_that (mutex_owner m = Some t);
       (_, s) \<leftarrow> do_release y t (mutex_count m)
                  (upd_body y (Some (Mutex_sync (m\<lparr>mutex_abandoned := True\<rparr>))) s);
       Some s
     }
   | _ \<Rightarrow> None)"

partial_function (option) abandon_mutexes :: "tid \<Rightarrow> sync_server \<Rightarrow> sync_server option" where
  "abandon_mutexes t s = (case mutex_list (threads s t) of
     [] \<Rightarrow> Some s
   | y # _ \<Rightarrow> do {
       s \<leftarrow> abandon_first y t s;
       abandon_mutexes t s
     })"

definition set_event :: "addr \<Rightarrow> sync_server \<Rightarrow> sync_server option" where
  "set_event y s = event_sync_signal y True s"

definition reset_event :: "addr \<Rightarrow> sync_server \<Rightarrow> sync_server option" where
  "reset_event y s = event_sync_signal y False s"

datatype event_opcode = PULSE_EVENT | SET_EVENT | RESET_EVENT | Bad_event_op

definition event_op ::
    "handle \<Rightarrow> event_opcode \<Rightarrow> sync_server \<Rightarrow> (bool option \<times> sync_server) option" where
  "event_op h opc s = do {
     (a, s) \<leftarrow> get_event_obj (cur_proc s) h EVENT_MODIFY_STATE s;
     case a of
       None \<Rightarrow> Some (None, s)
     | Some a \<Rightarrow> do {
         b \<leftarrow> bodies s a;
         y \<leftarrow> body_sync b;
         ev \<leftarrow> (case bodies s y of Some (Event_sync ev) \<Rightarrow> Some ev | _ \<Rightarrow> None);
         s \<leftarrow> (case opc of
            PULSE_EVENT \<Rightarrow> do { s \<leftarrow> set_event y s; reset_event y s }
          | SET_EVENT \<Rightarrow> set_event y s
          | RESET_EVENT \<Rightarrow> reset_event y s
          | Bad_event_op \<Rightarrow> Some (sync_error STATUS_INVALID_PARAMETER s));
         s \<leftarrow> release a s;
         Some (Some (ev_signaled ev), s)
       }
   }"

definition query_event :: "handle \<Rightarrow> sync_server \<Rightarrow> ((bool \<times> bool) option \<times> sync_server) option" where
  "query_event h s = do {
     (a, s) \<leftarrow> get_event_obj (cur_proc s) h EVENT_QUERY_STATE s;
     case a of
       None \<Rightarrow> Some (None, s)
     | Some a \<Rightarrow> do {
         b \<leftarrow> bodies s a;
         y \<leftarrow> body_sync b;
         ev \<leftarrow> (case bodies s y of Some (Event_sync ev) \<Rightarrow> Some ev | _ \<Rightarrow> None);
         s \<leftarrow> release a s;
         Some (Some (ev_manual ev, ev_signaled ev), s)
       }
   }"

section \<open>Suspending threads\<close>

definition MAXIMUM_SUSPEND_COUNT :: nat where "MAXIMUM_SUSPEND_COUNT = 127"

definition create_thread_context :: "sync_server \<Rightarrow> (addr option \<times> sync_server) option" where
  "create_thread_context s =
     (let (a, s) = new_object Context_ops s in
      case a of
        None \<Rightarrow> Some (None, s)
      | Some a \<Rightarrow> do {
          let c = \<lparr>ctx_sync = None, cooperative = False, regs_pending = False\<rparr>;
          (y, s) \<leftarrow> create_internal_sync True False (upd_body a (Some (Context c)) s);
          case y of
            None \<Rightarrow> do { s \<leftarrow> release a s; Some (None, s) }
          | Some y \<Rightarrow> Some (Some a, upd_body a (Some (Context (c\<lparr>ctx_sync := Some y\<rparr>))) s)
        })"

definition stop_thread :: "tid \<Rightarrow> sync_server \<Rightarrow> sync_server option" where
  "stop_thread t s =
     (if thread_context (threads s t) \<noteq> None then Some s
      else do {
        (a, s) \<leftarrow> create_thread_context s;
        let s = upd_thread t (\<lambda>th. th\<lparr>thread_context := a\<rparr>) s;
        if a = None then Some s
        else if init_done s (thread_process (threads s t))
        then Some (s\<lparr>stop_signals := stop_signals s @ [t]\<rparr>)
        else Some s
      })"

definition suspend_thread :: "tid \<Rightarrow> sync_server \<Rightarrow> (nat \<times> sync_server) option" where
  "suspend_thread t s = do {
     let old = suspend_count (threads s t);
     if old < MAXIMUM_SUSPEND_COUNT
     then do {
       s \<leftarrow> (if \<not> is_thread_suspended t s then stop_thread t s else Some s);
       Some (old, upd_thread t (\<lambda>th. th\<lparr>suspend_count := suspend_count th + 1\<rparr>) s)
     }
     else Some (old, sync_error STATUS_SUSPEND_COUNT_EXCEEDED s)
   }"

definition resume_thread :: "tid \<Rightarrow> sync_server \<Rightarrow> (nat \<times> sync_server) option" where
  "resume_thread t s = do {
     let old = suspend_count (threads s t);
     if old > 0
     then do {
       let s = upd_thread t (\<lambda>th. th\<lparr>suspend_count := suspend_count th - 1\<rparr>) s;
       if \<not> is_thread_suspended t s
       then do { (_, s) \<leftarrow> wake_thread t s; Some (old, s) }
       else Some (old, s)
     }
     else Some (old, s)
   }"

end
