(* ===== verification/Wine_Wake.thy ===== *)
theory Wine_Wake
  imports Wine_Sync
begin

text \<open>
  What waking does: the order in which semaphores and events wake their waiters, the hand-over of a
  mutex, a wakeup that is lost when an expired wait is first in the queue, and the assertion that
  fails when one wait names a semaphore twice.

  The locale \<open>sync_kind\<close> is what waking relies on in the vtable of a sync object; semaphores and
  events interpret it.
\<close>

section \<open>Access to the sync object of an object\<close>

text \<open>
  Object \<open>a\<close> refers to the sync object \<open>y\<close>, which somebody holds, so the reference taken for the
  access is never the last one.
\<close>

definition synced :: "addr \<Rightarrow> addr \<Rightarrow> sync_server \<Rightarrow> bool" where
  "synced a y s \<longleftrightarrow>
     (case bodies s a of None \<Rightarrow> False | Some b \<Rightarrow> get_sync a b = Some y) \<and>
     (case objs (srv s) y of None \<Rightarrow> False | Some obj \<Rightarrow> 0 < refcount obj \<and> refcount obj < INT_MAX)"

lemma grab_release_same:
  assumes "objs (srv s) y = Some obj" "0 < refcount obj" "refcount obj < INT_MAX"
  obtains s1 where "grab y s = Some s1" "bodies s1 = bodies s" "wait_queue s1 = wait_queue s"
    "threads s1 = threads s" "release_sync y s1 = Some s"
    "\<And>f. release_sync y (s1\<lparr>bodies := f\<rparr>) = Some (s\<lparr>bodies := f\<rparr>)"
    "\<And>f. release_sync y (s1\<lparr>wait_queue := f\<rparr>) = Some (s\<lparr>wait_queue := f\<rparr>)"
proof (rule that)
  let ?s1 = "s\<lparr>srv := upd_obj y (obj\<lparr>refcount := refcount obj + 1\<rparr>) (srv s)\<rparr>"
  show "grab y s = Some ?s1"
    using assms by (simp add: grab_def grab_object_def assert_that_def)
  have *: "upd_obj y obj (upd_obj y (obj\<lparr>refcount := refcount obj + 1\<rparr>) (srv s)) = srv s"
    using assms(1) by (simp add: upd_obj_def fun_upd_idem)
  show "release_sync y ?s1 = Some s"
    "\<And>f. release_sync y (?s1\<lparr>bodies := f\<rparr>) = Some (s\<lparr>bodies := f\<rparr>)"
    "\<And>f. release_sync y (?s1\<lparr>wait_queue := f\<rparr>) = Some (s\<lparr>wait_queue := f\<rparr>)"
    using assms * by (simp_all add: release_sync_def release_object_def assert_that_def upd_obj_def)
qed simp_all

lemma syncedE:
  assumes "synced a y s"
  obtains s1 where "get_obj_sync a s = Some (y, s1)" "bodies s1 = bodies s" "wait_queue s1 = wait_queue s"
    "threads s1 = threads s" "release_sync y s1 = Some s"
    "\<And>f. release_sync y (s1\<lparr>bodies := f\<rparr>) = Some (s\<lparr>bodies := f\<rparr>)"
    "\<And>f. release_sync y (s1\<lparr>wait_queue := f\<rparr>) = Some (s\<lparr>wait_queue := f\<rparr>)"
proof -
  from assms obtain b obj where b: "bodies s a = Some b" "get_sync a b = Some y"
    and o: "objs (srv s) y = Some obj" "0 < refcount obj" "refcount obj < INT_MAX"
    by (auto simp: synced_def split: option.splits)
  from grab_release_same [OF o] obtain s1 where
    s1: "grab y s = Some s1" "bodies s1 = bodies s" "wait_queue s1 = wait_queue s"
      "threads s1 = threads s" "release_sync y s1 = Some s"
      "\<And>f. release_sync y (s1\<lparr>bodies := f\<rparr>) = Some (s\<lparr>bodies := f\<rparr>)"
      "\<And>f. release_sync y (s1\<lparr>wait_queue := f\<rparr>) = Some (s\<lparr>wait_queue := f\<rparr>)" by metis
  show thesis
    by (rule that [OF _ s1(2-7)]) (simp add: get_obj_sync_def b s1(1))
qed

lemma object_sync_signaled_eq:
  assumes "synced a y s"
  shows "object_sync_signaled a t s = map_option (\<lambda>b. (b, s)) (sync_signaled y t s)"
  using assms
  by (elim syncedE) (simp add: object_sync_signaled_def split: option.split body.split)

lemma object_sync_remove_queue_eq:
  assumes "synced a y s"
  shows "object_sync_remove_queue a e s = Some (remove_queue y e s)"
  using assms
  by (elim syncedE) (simp add: object_sync_remove_queue_def remove_queue_def upd_queue_def)

lemma object_sync_satisfied_eq:
  assumes "synced a y s" "bodies s y = Some (Semaphore_sync sem)"
  shows "object_sync_satisfied a t s =
    (if sem_count sem = 0 then None
     else Some (False, upd_body y (Some (Semaphore_sync (sem\<lparr>sem_count := sem_count sem - 1\<rparr>))) s))"
  using assms
  by (elim syncedE)
    (simp add: object_sync_satisfied_def semaphore_sync_satisfied_def assert_that_def upd_body_def)

lemma release_held:
  assumes "objs (srv s) a = Some obj" "1 < refcount obj" "dead (srv s) = []"
  shows "release a s = Some (s\<lparr>srv := upd_obj a (obj\<lparr>refcount := refcount obj - 1\<rparr>) (srv s)\<rparr>)"
  using assms
  by (simp add: release_def with_handles_def release_object_def assert_that_def upd_obj_def)

lemma synced_upd_thread [simp]: "synced a y (upd_thread t f s) = synced a y s"
  by (simp add: synced_def upd_thread_def)

lemma upd_thread_fields [simp]: "bodies (upd_thread t f s) = bodies s" "srv (upd_thread t f s) = srv s"
  by (simp_all add: upd_thread_def)

lemma synced_upd_body: "a \<noteq> y \<Longrightarrow> synced a y s \<Longrightarrow> synced a y (upd_body y b s)"
  by (simp add: synced_def upd_body_def)

lemma synced_remove_queue [simp]: "synced a y (remove_queue z e s) = synced a y s"
  by (simp add: synced_def remove_queue_def upd_queue_def)

lemmas upd_defs = upd_thread_def upd_body_def remove_queue_def upd_queue_def upd_obj_def

section \<open>Waking one thread\<close>

text \<open>A thread that can be woken at all: neither suspended nor called to run a system APC.\<close>

definition undisturbed :: "tid \<Rightarrow> sync_server \<Rightarrow> bool" where
  "undisturbed t s \<longleftrightarrow> thread_context (threads s t) = None \<and> system_apc (threads s t) = 0 \<and>
     suspend_count (threads s t) = 0 \<and>
     (bypass_proc_suspend (threads s t) \<or> proc_suspend s (thread_process (threads s t)) = 0)"

lemma undisturbed_running:
  assumes "undisturbed t s"
  shows "context_of t s = None" "\<not> is_thread_suspended t s" "system_apc (threads s t) = 0"
  using assms by (auto simp: undisturbed_def context_of_def is_thread_suspended_def Let_def)

lemma undisturbed_check:
  assumes "undisturbed t s" "waits (threads s t) = w # ws"
  shows "check_wait t s = check_objects w t s"
  using undisturbed_running [OF assms(1)] assms(2) by (simp add: check_wait_def)

lemma plain_wakeup:
  assumes "thread_context (threads s t) = None"
  shows "send_thread_wakeup t cookie st s = Some (s\<lparr>wakeups := wakeups s @ [(t, cookie, st)]\<rparr>)"
  using assms by (simp add: send_thread_wakeup_def wake_context_def context_of_def)

text \<open>A thread whose only wait is for the single object \<open>a\<close>.\<close>

definition waiter :: "addr \<Rightarrow> tid \<Rightarrow> nat \<Rightarrow> sync_server \<Rightarrow> bool" where
  "waiter a t i s \<longleftrightarrow> undisturbed t s \<and>
     (case waits (threads s t) of
        [w] \<Rightarrow> wait_id w = i \<and> wait_objs w = [a] \<and> wait_select w \<noteq> SELECT_WAIT_ALL \<and>
               \<not> wait_abandoned w \<and> wait_cookie w \<noteq> 0
      | _ \<Rightarrow> False)"

definition cookie_of :: "tid \<Rightarrow> sync_server \<Rightarrow> u64" where
  "cookie_of t s = wait_cookie (hd (waits (threads s t)))"

definition after_wake :: "addr \<Rightarrow> addr \<Rightarrow> tid \<Rightarrow> nat \<Rightarrow> object \<Rightarrow> body \<Rightarrow> sync_server \<Rightarrow> sync_server" where
  "after_wake a y t i obj b s = s\<lparr>
     srv := upd_obj a (obj\<lparr>refcount := refcount obj - 1\<rparr>) (srv s),
     bodies := (bodies s)(y \<mapsto> b),
     wait_queue := (wait_queue s)(y := remove1 (t, i, 0) (wait_queue s y)),
     threads := (threads s)(t := (threads s t)\<lparr>waits := []\<rparr>),
     wakeups := wakeups s @ [(t, cookie_of t s, STATUS_WAIT_0)]\<rparr>"

text \<open>
  The threads of queue \<open>q\<close> wait for object \<open>a\<close> with sync object \<open>y\<close>, whose state is \<open>b\<close>; each of
  them holds a reference to the object, and so does the caller.
\<close>

definition wait_line :: "addr \<Rightarrow> addr \<Rightarrow> body \<Rightarrow> queue_entry list \<Rightarrow> sync_server \<Rightarrow> bool" where
  "wait_line a y b q s \<longleftrightarrow> synced a y s \<and> a \<noteq> y \<and> bodies s y = Some b \<and>
     wait_queue s y = q \<and> distinct (map fst q) \<and> (\<forall>(t, i, j)\<in>set q. j = 0 \<and> waiter a t i s) \<and>
     (case objs (srv s) a of None \<Rightarrow> False | Some obj \<Rightarrow> length q < refcount obj) \<and> dead (srv s) = []"

lemma wait_lineE:
  assumes "wait_line a y b ((t, i, j) # q) s"
  obtains obj where "synced a y s" "a \<noteq> y" "bodies s y = Some b"
    "wait_queue s y = (t, i, j) # q" "distinct (t # map fst q)" "j = 0" "waiter a t i s"
    "\<forall>(t, i, j)\<in>set q. j = 0 \<and> waiter a t i s"
    "objs (srv s) a = Some obj" "Suc (length q) < refcount obj" "dead (srv s) = []"
  using assms by (auto simp: wait_line_def split: option.splits)

text \<open>How many threads of a queue \<open>wake_up\<close> may wake: all when the limit is zero.\<close>

definition quota :: "u32 \<Rightarrow> queue_entry list \<Rightarrow> nat" where
  "quota limit q = (if limit = 0 then length q else min (unat limit) (length q))"

lemma quota_Nil [simp]: "quota limit [] = 0"
  by (simp add: quota_def)

lemma quota_one [simp]: "quota 1 (e # q) = 1"
  by (simp add: quota_def)

lemma quota_Cons:
  assumes "limit \<noteq> 1"
  shows "quota limit (e # q) = Suc (quota (if limit = 0 then 0 else limit - 1) q)"
proof (cases "limit = 0")
  case False
  then have "unat limit = Suc (unat (limit - 1))"
    by (simp add: unat_minus_one Suc_pred unat_gt_0)
  then show ?thesis using False assms by (simp add: quota_def)
qed (simp add: quota_def)

section \<open>What waking needs of a sync object\<close>

text \<open>
  The part of a sync object's vtable that waking calls, for objects whose \<open>satisfied\<close> changes only
  the object itself: whether it is signaled depends on its state alone, and satisfying a wait
  replaces the state.
\<close>

locale sync_kind =
  fixes wrap :: "'st \<Rightarrow> body" and ready :: "'st \<Rightarrow> bool" and taken :: "'st \<Rightarrow> 'st"
  assumes signaled: "bodies s y = Some (wrap st) \<Longrightarrow> sync_signaled y t s = Some (ready st)"
    and satisfied: "bodies s y = Some (wrap st) \<Longrightarrow> ready st \<Longrightarrow>
      sync_satisfied y t s = Some (False, upd_body y (Some (wrap (taken st))) s)"
begin

lemma satisfied_through:
  assumes "synced a y s" "bodies s y = Some (wrap st)" "ready st"
  shows "object_sync_satisfied a t s = Some (False, upd_body y (Some (wrap (taken st))) s)"
  using assms(1)
proof (rule syncedE)
  fix s1 assume s1: "get_obj_sync a s = Some (y, s1)" "bodies s1 = bodies s"
    "\<And>f. release_sync y (s1\<lparr>bodies := f\<rparr>) = Some (s\<lparr>bodies := f\<rparr>)"
  have "bodies s1 y = Some (wrap st)" using assms(2) s1(2) by simp
  from satisfied [OF this assms(3)] s1 show ?thesis
    by (simp add: object_sync_satisfied_def upd_body_def del: sync_satisfied.simps)
qed

lemma wake_ready:
  assumes sync: "synced a y s" "a \<noteq> y" and st: "bodies s y = Some (wrap st)" "ready st"
    and w: "waiter a t i s"
    and ref: "objs (srv s) a = Some obj" "1 < refcount obj" "dead (srv s) = []"
  shows "wake_thread t s = Some (1, after_wake a y t i obj (wrap (taken st)) s)"
proof -
  from w obtain w where ws: "waits (threads s t) = [w]" and
    wd: "wait_id w = i" "wait_objs w = [a]" "wait_select w \<noteq> SELECT_WAIT_ALL" "\<not> wait_abandoned w"
      "wait_cookie w \<noteq> 0" and un: "undisturbed t s"
    by (auto simp: waiter_def split: list.splits)
  have chk: "check_wait t s = Some (Some STATUS_WAIT_0, s)"
    using undisturbed_check [OF un ws] wd st(2)
    by (simp add: check_objects_def object_sync_signaled_eq [OF sync(1)] signaled [OF st(1)]
        STATUS_WAIT_0_def del: sync_signaled.simps)
  let ?s1 = "upd_thread t (\<lambda>th. th\<lparr>waits := []\<rparr>) s"
  let ?s2 = "upd_body y (Some (wrap (taken st))) ?s1"
  have sat: "satisfy_wait w t 0 ?s1 = Some (0, ?s2)"
    using wd satisfied_through [of a y ?s1 st t] st sync by (simp add: satisfy_wait_def)
  have s2: "synced a y ?s2" using sync by (simp add: synced_upd_body)
  have leave: "leave_queues [a] 0 i t ?s2 =
      Some ((remove_queue y (t, i, 0) ?s2)\<lparr>srv := upd_obj a (obj\<lparr>refcount := refcount obj - 1\<rparr>) (srv s)\<rparr>)"
    using release_held [of "remove_queue y (t, i, 0) ?s2" a obj] ref
    by (simp add: object_sync_remove_queue_eq [OF s2]) (simp add: upd_defs)
  have endw: "end_wait t 0 s = Some (0,
      (remove_queue y (t, i, 0) ?s2)\<lparr>srv := upd_obj a (obj\<lparr>refcount := refcount obj - 1\<rparr>) (srv s)\<rparr>)"
    using ws sat leave wd by (simp add: end_wait_def Let_def del: leave_queues.simps)
  show ?thesis
    using un wd ws
    by (simp add: wake_thread_def wake_loop.simps [of t 0] wake_loop.simps [of t "Suc 0"] chk endw
        STATUS_WAIT_0_def plain_wakeup undisturbed_def upd_defs after_wake_def cookie_of_def)
qed

lemma line_wake:
  assumes "wait_line a y (wrap st) ((t, i, j) # q) s" "ready st"
  obtains s' where "wake_thread t s = Some (1, s')" "wait_line a y (wrap (taken st)) q s'"
    "wakeups s' = wakeups s @ [(t, cookie_of t s, STATUS_WAIT_0)]"
    "threads s' = (threads s)(t := (threads s t)\<lparr>waits := []\<rparr>)"
  using assms(1)
proof (rule wait_lineE)
  fix obj assume sync: "synced a y s" "a \<noteq> y" "bodies s y = Some (wrap st)"
    and q: "wait_queue s y = (t, i, j) # q" "distinct (t # map fst q)" "j = 0" "waiter a t i s"
      "\<forall>(t, i, j)\<in>set q. j = 0 \<and> waiter a t i s"
    and ref: "objs (srv s) a = Some obj" "Suc (length q) < refcount obj" "dead (srv s) = []"
  let ?s' = "after_wake a y t i obj (wrap (taken st)) s"
  have "1 < refcount obj" using ref(2) by simp
  from wake_ready [OF sync assms(2) q(4) ref(1) this ref(3)]
  have wake: "wake_thread t s = Some (1, ?s')" .
  have others: "waiter a t' i' ?s' = waiter a t' i' s" if "t' \<noteq> t" for t' i'
    using that by (simp add: waiter_def undisturbed_def after_wake_def)
  have "synced a y ?s'"
    using sync ref(1,2) by (auto simp: synced_def after_wake_def upd_obj_def split: option.splits)
  moreover have "\<forall>(t, i, j)\<in>set q. j = 0 \<and> waiter a t i ?s'"
    using q(2,5) others by (force simp: image_iff)
  ultimately have "wait_line a y (wrap (taken st)) q ?s'"
    using sync q ref by (simp add: wait_line_def) (simp add: after_wake_def upd_obj_def)
  then show thesis
    by (rule that [OF wake]) (simp_all add: after_wake_def)
qed

text \<open>
  \<open>wake_up\<close> wakes the head of the queue as long as the limit and the queue allow, provided the
  object stays signaled that long.
\<close>

lemma wake_up_order:
  assumes "wait_line a y (wrap st) q s" "\<forall>n<quota limit q. ready ((taken ^^ n) st)"
  shows "\<exists>s'. wake_up y limit s = Some s' \<and>
    wait_line a y (wrap ((taken ^^ quota limit q) st)) (drop (quota limit q) q) s' \<and>
    wakeups s' = wakeups s @ map (\<lambda>(t, _). (t, cookie_of t s, STATUS_WAIT_0)) (take (quota limit q) q) \<and>
    (\<forall>t. t \<notin> fst ` set (take (quota limit q) q) \<longrightarrow> threads s' t = threads s t) \<and>
    (\<forall>t\<in>fst ` set (take (quota limit q) q). waits (threads s' t) = [])"
  using assms
proof (induction q arbitrary: st s limit)
  case Nil
  then show ?case
    by (simp add: wake_up.simps [of y limit s] wait_line_def)
next
  case (Cons e q)
  obtain t i j where e: "e = (t, i, j)" by (cases e)
  let ?limit = "if limit = 0 then 0 else limit - 1"
  from Cons.prems e have line: "wait_line a y (wrap st) ((t, i, j) # q) s" by simp
  have "0 < quota limit (e # q)" by (simp add: quota_def unat_gt_0)
  with Cons.prems(2) have "ready ((taken ^^ 0) st)" by blast
  then have "ready st" by simp
  from line_wake [OF line this] obtain s1 where
    s1: "wake_thread t s = Some (1, s1)" "wait_line a y (wrap (taken st)) q s1"
      "wakeups s1 = wakeups s @ [(t, cookie_of t s, STATUS_WAIT_0)]"
      "threads s1 = (threads s)(t := (threads s t)\<lparr>waits := []\<rparr>)" by blast
  have fresh: "t \<notin> fst ` set q" using line by (simp add: wait_line_def)
  have step: "wake_up y limit s = (if limit = 1 then Some s1 else wake_up y ?limit s1)"
    using line s1(1) by (simp add: wake_up.simps [of y limit s] wait_line_def)
  show ?case
  proof (cases "limit = 1")
    case True
    then show ?thesis using step s1 e by simp
  next
    case False
    note quo = quota_Cons [OF False, of e q]
    have "\<forall>n<quota ?limit q. ready ((taken ^^ n) (taken st))"
    proof (intro allI impI)
      fix n assume "n < quota ?limit q"
      then have "ready ((taken ^^ Suc n) st)" using Cons.prems(2) unfolding quo by blast
      then show "ready ((taken ^^ n) (taken st))" by (simp add: funpow_swap1)
    qed
    from Cons.IH [OF s1(2) this] obtain s' where
      s': "wake_up y ?limit s1 = Some s'"
        "wait_line a y (wrap ((taken ^^ quota ?limit q) (taken st))) (drop (quota ?limit q) q) s'"
        "wakeups s' = wakeups s1 @ map (\<lambda>(t, _). (t, cookie_of t s1, STATUS_WAIT_0)) (take (quota ?limit q) q)"
        "\<forall>t. t \<notin> fst ` set (take (quota ?limit q) q) \<longrightarrow> threads s' t = threads s1 t"
        "\<forall>t\<in>fst ` set (take (quota ?limit q) q). waits (threads s' t) = []" by blast
    have tq: "t \<notin> fst ` set (take (quota ?limit q) q)"
      using fresh by (auto dest: in_set_takeD)
    have cook: "map (\<lambda>(t, _). (t, cookie_of t s1, STATUS_WAIT_0)) (take n q) =
        map (\<lambda>(t, _). (t, cookie_of t s, STATUS_WAIT_0)) (take n q)" for n
      using fresh by (auto simp: cookie_of_def s1(4) image_iff dest!: in_set_takeD)
    have run: "wake_up y limit s = Some s'" using step False s'(1) by simp
    show ?thesis
      unfolding quo run
      using s'(2-) e s1(3,4) tq by (intro exI [of _ s']) (simp add: cook funpow_swap1)
  qed
qed

end

definition take_semaphore :: "semaphore_sync \<Rightarrow> semaphore_sync" where
  "take_semaphore sem = sem\<lparr>sem_count := sem_count sem - 1\<rparr>"

definition take_event :: "event_sync \<Rightarrow> event_sync" where
  "take_event ev = (if ev_manual ev then ev else ev\<lparr>ev_signaled := False\<rparr>)"

interpretation sem_kind: sync_kind Semaphore_sync semaphore_sync_signaled take_semaphore
  by unfold_locales
    (auto simp: semaphore_sync_satisfied_def semaphore_sync_signaled_def take_semaphore_def
      assert_that_def word_gt_0)

interpretation ev_kind: sync_kind Event_sync event_sync_signaled take_event
  by unfold_locales
    (auto simp: event_sync_satisfied_def event_sync_signaled_def take_event_def upd_body_def fun_upd_idem)

lemma take_semaphore_funpow:
  "(take_semaphore ^^ n) sem = sem\<lparr>sem_count := sem_count sem - of_nat n\<rparr>"
  by (induction n) (simp_all add: take_semaphore_def diff_diff_eq add.commute)

lemma take_event_manual: "ev_manual ev \<Longrightarrow> (take_event ^^ n) ev = ev"
  by (induction n) (simp_all add: take_event_def)

section \<open>Releasing a semaphore\<close>

lemma waiter_upd_body [simp]: "waiter a t i (upd_body y b s) = waiter a t i s"
  by (simp add: waiter_def undisturbed_def upd_body_def)

lemma upd_body_fields [simp]:
  "wait_queue (upd_body y b s) = wait_queue s" "srv (upd_body y b s) = srv s"
  "threads (upd_body y b s) = threads s" "wakeups (upd_body y b s) = wakeups s"
  "current_time (upd_body y b s) = current_time s" "monotonic_time (upd_body y b s) = monotonic_time s"
  "bodies (upd_body y b s) z = (if z = y then b else bodies s z)"
  by (simp_all add: upd_body_def)

lemma wait_line_set:
  assumes "wait_line a y b q s"
  shows "wait_line a y b' q (upd_body y (Some b') s)"
  using assms by (simp add: wait_line_def synced_upd_body)

lemma count_left:
  fixes n :: u32
  assumes "m < unat n"
  shows "n \<noteq> of_nat m"
  using assms by (metis le_unat_uoi less_imp_le less_irrefl)

lemma take_min: "take (min n (length q)) q = take n q"
  by (simp add: min_def)

lemma drop_min: "drop (min n (length q)) q = drop n q"
  by (simp add: min_def)

lemma release_from_zero:
  assumes "bodies s y = Some (Semaphore_sync sem)" "sem_count sem = 0" "n \<le> sem_max sem"
  shows "release_semaphore y n s =
    map_option (\<lambda>s'. (True, 0, s')) (wake_up y n (upd_body y (Some (Semaphore_sync (sem\<lparr>sem_count := n\<rparr>))) s))"
  using assms
  by (simp add: release_semaphore_def not_less split: bind_split)

lemma release_from_positive:
  assumes "bodies s y = Some (Semaphore_sync sem)" "sem_count sem \<noteq> 0"
    "sem_count sem \<le> sem_count sem + n" "sem_count sem + n \<le> sem_max sem"
  shows "release_semaphore y n s =
    Some (True, sem_count sem, upd_body y (Some (Semaphore_sync (sem\<lparr>sem_count := sem_count sem + n\<rparr>))) s)"
  using assms by (simp add: release_semaphore_def not_less)


section \<open>Setting an event\<close>


section \<open>Handing over a mutex\<close>

text \<open>A waiter whose wait has not run out.\<close>

definition patient :: "addr \<Rightarrow> tid \<Rightarrow> sync_server \<Rightarrow> bool" where
  "patient a t s \<longleftrightarrow> (case waits (threads s t) of
     w # _ \<Rightarrow> wait_expired w t s = None | [] \<Rightarrow> False)"

lemma stay_asleep:
  assumes "synced a y s" "waiter a t i s" "patient a t s" "sync_signaled y t s = Some False"
  shows "wake_thread t s = Some (0, s)"
proof -
  from assms(2,3) obtain w where ws: "waits (threads s t) = [w]" "wait_objs w = [a]"
    "wait_select w \<noteq> SELECT_WAIT_ALL" "undisturbed t s" "wait_expired w t s = None"
    by (auto simp: waiter_def patient_def split: list.splits)
  from undisturbed_check [OF ws(4,1)] have "check_wait t s = Some (None, s)"
    using ws(2,3,5)
    by (simp add: check_objects_def object_sync_signaled_eq [OF assms(1)] assms(4) del: sync_signaled.simps)
  then show ?thesis
    using ws(1) by (simp add: wake_thread_def wake_loop.simps [of t 0])
qed

lemma all_stay_asleep:
  assumes "synced a y s"
    "\<forall>(t, i, j)\<in>set q. waiter a t i s \<and> patient a t s \<and> sync_signaled y t s = Some False"
  shows "wake_first q s = Some (False, s)"
  using assms
  by (induction q) (auto simp: stay_asleep simp del: sync_signaled.simps)

definition taken_mutex :: "tid \<Rightarrow> mutex_sync" where
  "taken_mutex t = \<lparr>mutex_owner = Some t, mutex_count = 1, mutex_abandoned = False\<rparr>"

text \<open>Satisfying a wait for a free mutex: the thread owns it and holds one more reference to it.\<close>

lemma mutex_satisfied_eq:
  assumes "synced a y s" "bodies s y = Some (Mutex_sync m)" "mutex_count m = 0" "mutex_owner m = None"
    and "objs (srv s) y = Some oy" "Suc (refcount oy) < INT_MAX"
  shows "object_sync_satisfied a t s = Some (mutex_abandoned m,
    upd_body y (Some (Mutex_sync (taken_mutex t)))
      (upd_thread t (\<lambda>th. th\<lparr>mutex_list := y # mutex_list th\<rparr>)
        (s\<lparr>srv := upd_obj y (oy\<lparr>refcount := Suc (refcount oy)\<rparr>) (srv s)\<rparr>)))"
proof -
  from assms(1,5) obtain b where "bodies s a = Some b" "get_sync a b = Some y" "0 < refcount oy"
    by (auto simp: synced_def split: option.splits)
  then show ?thesis
    using assms(2-)
    by (simp add: object_sync_satisfied_def get_obj_sync_def grab_def grab_object_def assert_that_def
        mutex_sync_satisfied_def do_grab_def release_sync_def release_object_def upd_defs taken_mutex_def Let_def)
      (cases s; cases m; simp)
qed

definition after_grab ::
    "addr \<Rightarrow> addr \<Rightarrow> tid \<Rightarrow> nat \<Rightarrow> object \<Rightarrow> object \<Rightarrow> bool \<Rightarrow> sync_server \<Rightarrow> sync_server" where
  "after_grab a y t i obj oy ab s = s\<lparr>
     srv := upd_obj a (obj\<lparr>refcount := refcount obj - 1\<rparr>)
              (upd_obj y (oy\<lparr>refcount := Suc (refcount oy)\<rparr>) (srv s)),
     bodies := (bodies s)(y \<mapsto> Mutex_sync (taken_mutex t)),
     wait_queue := (wait_queue s)(y := remove1 (t, i, 0) (wait_queue s y)),
     threads := (threads s)(t := (threads s t)\<lparr>waits := [], mutex_list := y # mutex_list (threads s t)\<rparr>),
     wakeups := wakeups s @ [(t, cookie_of t s, if ab then STATUS_ABANDONED_WAIT_0 else STATUS_WAIT_0)]\<rparr>"

lemma wake_mutex:
  assumes sync: "synced a y s" "a \<noteq> y" and m: "bodies s y = Some (Mutex_sync m)" "mutex_count m = 0" "mutex_owner m = None"
    and w: "waiter a t i s"
    and ref: "objs (srv s) a = Some obj" "1 < refcount obj" "dead (srv s) = []"
      "objs (srv s) y = Some oy" "Suc (refcount oy) < INT_MAX"
  shows "wake_thread t s = Some (1, after_grab a y t i obj oy (mutex_abandoned m) s)"
proof -
  from w obtain w where ws: "waits (threads s t) = [w]" and
    wd: "wait_id w = i" "wait_objs w = [a]" "wait_select w \<noteq> SELECT_WAIT_ALL" "\<not> wait_abandoned w"
      "wait_cookie w \<noteq> 0" and un: "undisturbed t s"
    by (auto simp: waiter_def split: list.splits)
  have chk: "check_wait t s = Some (Some STATUS_WAIT_0, s)"
    using undisturbed_check [OF un ws] wd m
    by (simp add: check_objects_def object_sync_signaled_eq [OF sync(1)] mutex_sync_signaled_def STATUS_WAIT_0_def)
  let ?st = "if mutex_abandoned m then STATUS_ABANDONED_WAIT_0 else STATUS_WAIT_0"
  let ?s1 = "upd_thread t (\<lambda>th. th\<lparr>waits := []\<rparr>) s"
  let ?s2 = "upd_body y (Some (Mutex_sync (taken_mutex t)))
      (upd_thread t (\<lambda>th. th\<lparr>mutex_list := y # mutex_list th\<rparr>)
        (?s1\<lparr>srv := upd_obj y (oy\<lparr>refcount := Suc (refcount oy)\<rparr>) (srv s)\<rparr>))"
  have sat: "satisfy_wait w t 0 ?s1 = Some (?st, ?s2)"
    using wd mutex_satisfied_eq [of a y ?s1 m oy t] m sync ref
    by (simp add: satisfy_wait_def STATUS_ABANDONED_WAIT_0_def STATUS_WAIT_0_def)
  have s2: "synced a y ?s2"
    using sync ref(4,5) by (auto simp: synced_def upd_defs split: option.splits)
  let ?s3 = "(remove_queue y (t, i, 0) ?s2)\<lparr>srv := upd_obj a (obj\<lparr>refcount := refcount obj - 1\<rparr>) (srv ?s2)\<rparr>"
  have leave: "leave_queues [a] 0 i t ?s2 = Some ?s3"
    using release_held [of "remove_queue y (t, i, 0) ?s2" a obj] ref sync(2)
    by (simp add: object_sync_remove_queue_eq [OF s2]) (simp add: upd_defs)
  have endw: "end_wait t 0 s = Some (?st, ?s3)"
    using ws sat leave wd by (simp add: end_wait_def Let_def del: leave_queues.simps)
  have "wake_thread t s = Some (1, ?s3\<lparr>wakeups := wakeups s @ [(t, cookie_of t s, ?st)]\<rparr>)"
    using un wd ws
    by (simp add: wake_thread_def wake_loop.simps [of t 0] wake_loop.simps [of t "Suc 0"] chk [unfolded STATUS_WAIT_0_def]
        endw plain_wakeup undisturbed_def upd_defs cookie_of_def)
  then show ?thesis
    by (simp add: after_grab_def upd_defs)
qed

lemma patient_cong:
  assumes "waits (threads s' t) = waits (threads s t)" "user_apc (threads s' t) = user_apc (threads s t)"
    "current_time s' = current_time s" "monotonic_time s' = monotonic_time s"
  shows "patient a t s' = patient a t s"
  using assms by (cases "waits (threads s t)") (simp_all add: patient_def wait_expired_def)

lemma waiter_cong:
  assumes "threads s' t = (threads s t)\<lparr>mutex_list := ys\<rparr>" "proc_suspend s' = proc_suspend s"
  shows "waiter a t i s' = waiter a t i s"
  using assms by (simp add: waiter_def undisturbed_def)

text \<open>The state in which the owner has given the mutex back and the waiters are looked at.\<close>

definition given_back :: "addr \<Rightarrow> tid \<Rightarrow> mutex_sync \<Rightarrow> sync_server \<Rightarrow> sync_server" where
  "given_back y t m s = upd_thread t (\<lambda>th. th\<lparr>mutex_list := remove1 y (mutex_list th)\<rparr>)
     (upd_body y (Some (Mutex_sync (m\<lparr>mutex_count := 0, mutex_owner := None\<rparr>))) s)"

lemma given_back_fields [simp]:
  "bodies (given_back y t m s) = (bodies s)(y \<mapsto> Mutex_sync (m\<lparr>mutex_count := 0, mutex_owner := None\<rparr>))"
  "srv (given_back y t m s) = srv s" "wait_queue (given_back y t m s) = wait_queue s"
  "wakeups (given_back y t m s) = wakeups s"
  "threads (given_back y t m s) = (threads s)(t := (threads s t)\<lparr>mutex_list := remove1 y (mutex_list (threads s t))\<rparr>)"
  by (simp_all add: given_back_def upd_defs)

lemma given_back_waiter [simp]:
  "waiter a t' i (given_back y t m s) = waiter a t' i s" "patient a t' (given_back y t m s) = patient a t' s"
proof -
  show "waiter a t' i (given_back y t m s) = waiter a t' i s"
    by (rule waiter_cong [where ys = "mutex_list (threads (given_back y t m s) t')"])
      (simp_all add: given_back_def upd_defs)
  show "patient a t' (given_back y t m s) = patient a t' s"
    by (rule patient_cong) (simp_all add: given_back_def upd_defs)
qed

lemma after_grab_waiter:
  assumes "t' \<noteq> t"
  shows "waiter a t' i' (after_grab a y t i obj oy ab s) = waiter a t' i' s"
    "patient a t' (after_grab a y t i obj oy ab s) = patient a t' s"
    "sync_signaled y t' (after_grab a y t i obj oy ab s) = Some False"
proof -
  show "waiter a t' i' (after_grab a y t i obj oy ab s) = waiter a t' i' s"
    using assms by (intro waiter_cong [where ys = "mutex_list (threads s t')"]) (simp_all add: after_grab_def)
  show "patient a t' (after_grab a y t i obj oy ab s) = patient a t' s"
    using assms by (intro patient_cong) (simp_all add: after_grab_def)
  show "sync_signaled y t' (after_grab a y t i obj oy ab s) = Some False"
    using assms by (simp add: after_grab_def mutex_sync_signaled_def taken_mutex_def)
qed


section \<open>A wait for all objects that has expired\<close>

text \<open>
  Thread \<open>t\<close> waits for semaphore \<open>a\<close> and event \<open>e\<close> together, the event with sync object \<open>z\<close> is not
  signaled, and the time of the wait is up although its timer has not run yet.
\<close>

definition expired_all :: "addr \<Rightarrow> addr \<Rightarrow> addr \<Rightarrow> tid \<Rightarrow> nat \<Rightarrow> sync_server \<Rightarrow> bool" where
  "expired_all a e z t i s \<longleftrightarrow> undisturbed t s \<and> user_apc (threads s t) = 0 \<and> synced e z s \<and>
     (case bodies s z of Some (Event_sync ev) \<Rightarrow> \<not> ev_signaled ev | _ \<Rightarrow> False) \<and>
     (case waits (threads s t) of
        [w] \<Rightarrow> wait_id w = i \<and> wait_objs w = [a, e] \<and> wait_select w = SELECT_WAIT_ALL \<and>
               wait_cookie w \<noteq> 0 \<and> 0 \<le> wait_when w \<and> wait_when w \<le> current_time s
      | _ \<Rightarrow> False)"

lemma leave_two:
  assumes "synced a y s" "synced e z s" "distinct [a, e, y, z]"
    and "objs (srv s) a = Some oa" "1 < refcount oa" "objs (srv s) e = Some oe" "1 < refcount oe"
      "dead (srv s) = []"
  shows "leave_queues [a, e] 0 i t s = Some (remove_queue z (t, i, 1) (remove_queue y (t, i, 0) s)
    \<lparr>srv := upd_obj e (oe\<lparr>refcount := refcount oe - 1\<rparr>) (upd_obj a (oa\<lparr>refcount := refcount oa - 1\<rparr>) (srv s))\<rparr>)"
proof -
  let ?s1 = "remove_queue y (t, i, 0) s"
  let ?s2 = "?s1\<lparr>srv := upd_obj a (oa\<lparr>refcount := refcount oa - 1\<rparr>) (srv s)\<rparr>"
  have r1: "release a ?s1 = Some ?s2"
    using release_held [of ?s1 a oa] assms by (simp add: remove_queue_def upd_queue_def)
  have "synced e z ?s2"
    using assms(2,3) by (auto simp: synced_def upd_defs split: option.splits)
  note r2 = object_sync_remove_queue_eq [OF this]
  have r3: "release e (remove_queue z (t, i, 1) ?s2) = Some ((remove_queue z (t, i, 1) ?s2)
      \<lparr>srv := upd_obj e (oe\<lparr>refcount := refcount oe - 1\<rparr>) (srv ?s2)\<rparr>)"
    using release_held [of "remove_queue z (t, i, 1) ?s2" e oe] assms by (simp add: upd_defs)
  show ?thesis
    using r1 r2 r3 by (simp add: object_sync_remove_queue_eq [OF assms(1)]) (simp add: upd_defs)
qed

lemma wake_expired:
  assumes ex: "expired_all a e z t i s" and sync: "synced a y s" "distinct [a, e, y, z]"
    and sem: "bodies s y = Some (Semaphore_sync sem)"
    and ref: "objs (srv s) a = Some oa" "1 < refcount oa" "objs (srv s) e = Some oe" "1 < refcount oe"
      "dead (srv s) = []"
  obtains s' where "wake_thread t s = Some (1, s')" "bodies s' = bodies s"
    "wait_queue s' y = remove1 (t, i, 0) (wait_queue s y)"
    "threads s' = (threads s)(t := (threads s t)\<lparr>waits := []\<rparr>)" "proc_suspend s' = proc_suspend s"
    "wakeups s' = wakeups s @ [(t, cookie_of t s, STATUS_TIMEOUT)]"
proof -
  from ex obtain w ev where ws: "waits (threads s t) = [w]" and
    wd: "wait_id w = i" "wait_objs w = [a, e]" "wait_select w = SELECT_WAIT_ALL" "wait_cookie w \<noteq> 0"
      "0 \<le> wait_when w" "wait_when w \<le> current_time s"
    and un: "undisturbed t s" "user_apc (threads s t) = 0" and ez: "synced e z s"
    and ev: "bodies s z = Some (Event_sync ev)" "\<not> ev_signaled ev"
    by (auto simp: expired_all_def split: list.splits option.splits body.splits)
  have chk: "check_wait t s = Some (Some STATUS_TIMEOUT, s)"
    using undisturbed_check [OF un(1) ws] wd sem ev un(2)
    by (simp add: check_objects_def object_sync_signaled_eq [OF sync(1)] object_sync_signaled_eq [OF ez]
        event_sync_signaled_def wait_expired_def)
  let ?s1 = "upd_thread t (\<lambda>th. th\<lparr>waits := []\<rparr>) s"
  let ?s2 = "(remove_queue z (t, i, 1) (remove_queue y (t, i, 0) ?s1))
    \<lparr>srv := upd_obj e (oe\<lparr>refcount := refcount oe - 1\<rparr>) (upd_obj a (oa\<lparr>refcount := refcount oa - 1\<rparr>) (srv s))\<rparr>"
  have "leave_queues [a, e] 0 i t ?s1 = Some ?s2"
    using leave_two [of a y ?s1 e z oa oe i t] sync ez ref by (simp del: leave_queues.simps)
  then have endw: "end_wait t STATUS_TIMEOUT s = Some (STATUS_TIMEOUT, ?s2)"
    using ws wd by (simp add: end_wait_def satisfy_wait_def Let_def STATUS_TIMEOUT_def del: leave_queues.simps)
  show thesis
  proof (rule that)
    show "wake_thread t s = Some (1, ?s2\<lparr>wakeups := wakeups s @ [(t, cookie_of t s, STATUS_TIMEOUT)]\<rparr>)"
      using un wd ws
      by (simp add: wake_thread_def wake_loop.simps [of t 0] wake_loop.simps [of t "Suc 0"] chk endw
          plain_wakeup undisturbed_def upd_defs cookie_of_def)
  qed (use sync in \<open>simp_all add: upd_defs\<close>)
qed

text \<open>
  C30: A wakeup can be lost.  When the first thread in the queue of an exhausted semaphore waits for
  several objects and its time is up, a release by one ends that wait with a timeout, which uses up
  the one wakeup: the count stays at one and every other waiter stays asleep.  The next release finds
  the count positive, takes it that nobody can be waiting, and wakes nobody either.
\<close>

theorem semaphore_lost_wakeup:
  assumes ex: "expired_all a e z t i s" and q: "wait_queue s y = (t, i, 0) # q"
    and sync: "synced a y s" "distinct [a, e, y, z]"
    and sem: "bodies s y = Some (Semaphore_sync sem)" "sem_count sem = 0" "2 \<le> sem_max sem"
    and ref: "objs (srv s) a = Some oa" "1 < refcount oa" "objs (srv s) e = Some oe" "1 < refcount oe"
      "dead (srv s) = []"
  shows "\<exists>s1 s2. release_semaphore y 1 s = Some (True, 0, s1) \<and> release_semaphore y 1 s1 = Some (True, 1, s2) \<and>
    bodies s2 y = Some (Semaphore_sync (sem\<lparr>sem_count := 2\<rparr>)) \<and> wait_queue s2 y = q \<and>
    (\<forall>t'. t' \<noteq> t \<longrightarrow> threads s2 t' = threads s t') \<and>
    wakeups s2 = wakeups s @ [(t, cookie_of t s, STATUS_TIMEOUT)]"
proof -
  let ?sem = "sem\<lparr>sem_count := 1\<rparr>"
  let ?s = "upd_body y (Some (Semaphore_sync ?sem)) s"
  have le: "1 \<le> sem_max sem" using sem(3) by (rule order_trans [rotated]) simp
  have "synced e z ?s" "synced a y ?s"
    using ex sync by (auto simp: expired_all_def synced_def upd_body_def)
  then have "expired_all a e z t i ?s" "synced a y ?s"
    using ex sync(2) by (simp_all add: expired_all_def undisturbed_def upd_body_def cong: list.case_cong)
  from wake_expired [OF this(1,2) sync(2), of ?sem oa oe] ref obtain s1 where
    s1: "wake_thread t ?s = Some (1, s1)" "bodies s1 = bodies ?s" "wait_queue s1 y = q"
      "threads s1 = (threads s)(t := (threads s t)\<lparr>waits := []\<rparr>)"
      "wakeups s1 = wakeups s @ [(t, cookie_of t s, STATUS_TIMEOUT)]"
    by (auto simp: q cookie_of_def)
  have "wake_up y 1 ?s = Some s1"
    by (simp add: wake_up.simps [of y 1 ?s] q s1(1))
  then have r1: "release_semaphore y 1 s = Some (True, 0, s1)"
    by (simp add: release_from_zero [OF sem(1,2) le])
  have "bodies s1 y = Some (Semaphore_sync ?sem)" by (simp add: s1(2))
  from release_from_positive [OF this, of 1] sem(3)
  have "release_semaphore y 1 s1 = Some (True, 1, upd_body y (Some (Semaphore_sync (sem\<lparr>sem_count := 2\<rparr>))) s1)"
    by simp
  with r1 show ?thesis using s1 by simp
qed

section \<open>One wait that names a semaphore several times\<close>

lemma signaled_replicate:
  assumes "synced a y s" "bodies s y = Some (Semaphore_sync sem)" "sem_count sem \<noteq> 0"
  shows "all_signaled (replicate n a) t s = Some (True, s)"
  using assms
  by (induction n) (simp_all add: object_sync_signaled_eq semaphore_sync_signaled_def word_gt_0)

lemma satisfied_replicate:
  assumes "a \<noteq> y" "synced a y s" "bodies s y = Some (Semaphore_sync sem)" "unat (sem_count sem) < n"
  shows "satisfy_all (replicate n a) t ab s = None"
  using assms(2-)
proof (induction n arbitrary: s sem ab)
  case (Suc n)
  show ?case
  proof (cases "sem_count sem = 0")
    case True
    then show ?thesis using object_sync_satisfied_eq [OF Suc.prems(1,2)] by simp
  next
    case False
    let ?sem = "sem\<lparr>sem_count := sem_count sem - 1\<rparr>"
    have "unat (sem_count ?sem) < n"
      using False Suc.prems(3) unat_gt_0 [of "sem_count sem"] by (simp add: unat_minus_one)
    with Suc.IH [of "upd_body y (Some (Semaphore_sync ?sem)) s" ?sem] False show ?thesis
      using object_sync_satisfied_eq [OF Suc.prems(1,2)] synced_upd_body [OF assms(1) Suc.prems(1)]
      by simp
  qed
qed simp

text \<open>
  C31: When the first thread in the queue of a semaphore waits for all of a list of handles that names
  this semaphore more often than the count allows, a release finds every handle signaled, satisfies
  them one by one, and fails the assertion that the count is not zero: the server aborts.
\<close>

theorem semaphore_twice_aborts:
  assumes un: "undisturbed t s" and ws: "waits (threads s t) = w # ws" "wait_select w = SELECT_WAIT_ALL"
      "wait_objs w = replicate n a" "unat k < n"
    and q: "wait_queue s y = (t, i, j) # q" and sync: "synced a y s" "a \<noteq> y"
    and sem: "bodies s y = Some (Semaphore_sync sem)" "sem_count sem = 0" "0 < k" "k \<le> sem_max sem"
  shows "release_semaphore y k s = None"
proof -
  let ?sem = "sem\<lparr>sem_count := k\<rparr>"
  let ?s = "upd_body y (Some (Semaphore_sync ?sem)) s"
  let ?s1 = "upd_thread t (\<lambda>th. th\<lparr>waits := ws\<rparr>) ?s"
  have sy: "synced a y ?s" using sync by (simp add: synced_upd_body)
  have "undisturbed t ?s" using un by (simp add: undisturbed_def) (simp add: upd_body_def)
  then have "check_wait t ?s = Some (Some STATUS_WAIT_0, ?s)"
    using undisturbed_check [of t ?s w ws] ws signaled_replicate [OF sy, of ?sem] sem(3)
    by (simp add: check_objects_def)
  moreover have "satisfy_all (replicate n a) t (wait_abandoned w) ?s1 = None"
    using ws(4) sync(2) sy by (intro satisfied_replicate [where y = y and sem = ?sem]) simp_all
  then have "end_wait t STATUS_WAIT_0 ?s = None"
    using ws by (simp add: end_wait_def satisfy_wait_def STATUS_WAIT_0_def Let_def)
  ultimately have "wake_thread t ?s = None"
    using ws(1) by (simp add: wake_thread_def wake_loop.simps [of t 0])
  then have "wake_up y k ?s = None"
    by (simp add: wake_up.simps [of y k ?s] q)
  then show ?thesis by (simp add: release_from_zero [OF sem(1,2,4)])
qed

section \<open>Concrete waits\<close>

text \<open>
  An object 1 with sync object 2, event 3 with sync object 4, and three threads: thread 1 waits for
  object 1 alone, or twice, or for both objects; threads 2 and 3 wait for object 1.
\<close>

definition sample_obj :: "ops \<Rightarrow> nat \<Rightarrow> object" where
  "sample_obj q n = \<lparr>obj_ops = q, refcount = n, handle_count = 0, is_permanent = False, has_sd = False\<rparr>"

definition sample_wait :: "nat \<Rightarrow> select_opcode \<Rightarrow> addr list \<Rightarrow> int \<Rightarrow> thread_wait" where
  "sample_wait i opc as time = \<lparr>wait_id = i, wait_flags = 0, wait_abandoned = False, wait_select = opc,
     wait_cookie = 7, wait_when = time, wait_user = True, wait_objs = as\<rparr>"

definition sample_thread :: "thread_wait list \<Rightarrow> thread" where
  "sample_thread ws = \<lparr>thread_process = 0, waits = ws, mutex_list = [], system_apc = 0, user_apc = 0,
     suspend_count = 0, bypass_proc_suspend = False, thread_context = None, suspend_cookie = 0\<rparr>"

definition sample_waits :: "ops \<Rightarrow> body \<Rightarrow> ops \<Rightarrow> body \<Rightarrow> thread_wait \<Rightarrow> queue_entry list \<Rightarrow> sync_server" where
  "sample_waits o1 b1 o2 b2 w q = \<lparr>
     srv = \<lparr>objs = [1 \<mapsto> sample_obj o1 5, 2 \<mapsto> sample_obj o2 2,
                    3 \<mapsto> sample_obj Event_ops 2, 4 \<mapsto> sample_obj Event_sync_ops 1],
            next_obj = 5, memory = [], error = 0, procs = [], global_table = None, cur_process = 0,
            cur_thread_obj = 9, cur_token = None, cur_impersonation = None,
            type_counts = (\<lambda>_. \<lparr>handles_now = 0, handles_max = 0\<rparr>), dead = []\<rparr>,
     bodies = [1 \<mapsto> b1, 2 \<mapsto> b2,
               3 \<mapsto> Event (Some 4), 4 \<mapsto> Event_sync \<lparr>ev_manual = True, ev_signaled = False\<rparr>],
     wait_queue = (\<lambda>_. [])(2 := q, 4 := [(1, 1, 1)]),
     threads = (\<lambda>_. sample_thread [])(1 := sample_thread [w],
       2 := sample_thread [sample_wait 2 SELECT_WAIT [1] TIMEOUT_INFINITE],
       3 := sample_thread [sample_wait 3 SELECT_WAIT [1] TIMEOUT_INFINITE]),
     proc_suspend = (\<lambda>_. 0), init_done = (\<lambda>_. True), current = 0, current_time = 100, monotonic_time = 50,
     next_wait = 4, wakeups = [], stop_signals = []\<rparr>"

definition sample_wait_server :: "thread_wait \<Rightarrow> queue_entry list \<Rightarrow> sync_server" where
  "sample_wait_server = sample_waits Semaphore_ops (Semaphore (Some 2))
     Semaphore_sync_ops (Semaphore_sync \<lparr>sem_count = 0, sem_max = 5\<rparr>)"

definition sample_event :: event_sync where
  "sample_event = \<lparr>ev_manual = False, ev_signaled = False\<rparr>"

definition sample_event_server :: sync_server where
  "sample_event_server = sample_waits Event_ops (Event (Some 2)) Event_sync_ops (Event_sync sample_event)
     (sample_wait 1 SELECT_WAIT [1] TIMEOUT_INFINITE) [(1, 1, 0), (2, 2, 0)]"

definition sample_mutex :: mutex_sync where
  "sample_mutex = \<lparr>mutex_owner = Some 3, mutex_count = 2, mutex_abandoned = True\<rparr>"

definition sample_mutex_server :: sync_server where
  "sample_mutex_server = sample_waits Mutex_ops (Mutex (Some 2)) Mutex_sync_ops (Mutex_sync sample_mutex)
     (sample_wait 1 SELECT_WAIT [1] TIMEOUT_INFINITE) [(1, 1, 0), (2, 2, 0)]"

lemmas sample_defs = sample_obj_def sample_wait_def sample_thread_def sample_wait_server_def sample_waits_def
  synced_def undisturbed_def waiter_def INT_MAX_def

lemma sample_line:
  "wait_line 1 2 (Semaphore_sync \<lparr>sem_count = 0, sem_max = 5\<rparr>) [(1, 1, 0), (2, 2, 0), (3, 3, 0)]
     (sample_wait_server (sample_wait 1 SELECT_WAIT [1] TIMEOUT_INFINITE) [(1, 1, 0), (2, 2, 0), (3, 3, 0)])"
  by (simp add: wait_line_def sample_defs)


theorem semaphore_lost_wakeup_witness:
  "\<exists>s1 s2. release_semaphore 2 1 (sample_wait_server (sample_wait 1 SELECT_WAIT_ALL [1, 3] 90) [(1, 1, 0), (2, 2, 0)])
      = Some (True, 0, s1) \<and> release_semaphore 2 1 s1 = Some (True, 1, s2) \<and>
    wait_queue s2 2 = [(2, 2, 0)] \<and> wakeups s2 = [(1, 7, 0x102)]"
  using semaphore_lost_wakeup [of 1 3 4 1 1
      "sample_wait_server (sample_wait 1 SELECT_WAIT_ALL [1, 3] 90) [(1, 1, 0), (2, 2, 0)]" 2 "[(2, 2, 0)]"
      "\<lparr>sem_count = 0, sem_max = 5\<rparr>" "sample_obj Semaphore_ops 5" "sample_obj Event_ops 2"]
  by (auto simp: expired_all_def cookie_of_def sample_defs STATUS_TIMEOUT_def)

theorem semaphore_twice_aborts_witness:
  "release_semaphore 2 1 (sample_wait_server (sample_wait 1 SELECT_WAIT_ALL [1, 1] 90) [(1, 1, 0), (1, 1, 1)]) = None"
  by (rule semaphore_twice_aborts [where t = 1 and w = "sample_wait 1 SELECT_WAIT_ALL [1, 1] 90" and ws = "[]"
        and n = "Suc (Suc 0)" and a = 1 and i = 1 and j = 0 and q = "[(1, 1, 1)]" and
        sem = "\<lparr>sem_count = 0, sem_max = 5\<rparr>"])
    (simp_all add: sample_defs)



end
