(* ===== verification/Wine_Select.thy ===== *)
theory Wine_Select
  imports Wine_Wake
begin

text \<open>
  The select request from the handle to the queue: a thread that selects an object that is not
  signaled joins the end of the line of its waiters, which is what the theorems on waking start from;
  a thread that selects a signaled object takes it at once.  New objects start with an empty line, and
  a suspended thread keeps its place.
\<close>

section \<open>Handles and references\<close>

text \<open>Handle \<open>h\<close> of the current process stands for object \<open>a\<close> and may be waited on.\<close>

definition waitable_handle :: "handle \<Rightarrow> addr \<Rightarrow> sync_server \<Rightarrow> bool" where
  "waitable_handle h a s \<longleftrightarrow> get_magic_handle h (srv s) = None \<and>
     (case get_handle (thread_process (threads s (current s))) h (srv s) of
        Some (Some (_, _, e)) \<Rightarrow> ptr e = Some a \<and> access e AND SYNCHRONIZE = SYNCHRONIZE
      | _ \<Rightarrow> False)"

definition with_refs :: "addr \<Rightarrow> object \<Rightarrow> nat \<Rightarrow> sync_server \<Rightarrow> sync_server" where
  "with_refs a obj n s = s\<lparr>srv := upd_obj a (obj\<lparr>refcount := n\<rparr>) (srv s)\<rparr>"

lemma with_refs_fields [simp]:
  "bodies (with_refs a obj n s) = bodies s" "wait_queue (with_refs a obj n s) = wait_queue s"
  "threads (with_refs a obj n s) = threads s" "current (with_refs a obj n s) = current s"
  "wakeups (with_refs a obj n s) = wakeups s"
  "next_wait (with_refs a obj n s) = next_wait s" "objs (srv (with_refs a obj n s)) a = Some (obj\<lparr>refcount := n\<rparr>)"
  "dead (srv (with_refs a obj n s)) = dead (srv s)"
  "with_refs a (obj\<lparr>refcount := k\<rparr>) n (with_refs a obj k s) = with_refs a obj n s"
  "with_refs a obj n (with_refs a obj k s) = with_refs a obj n s"
  by (simp_all add: with_refs_def upd_obj_def)

lemma with_refs_same: "objs (srv s) a = Some obj \<Longrightarrow> with_refs a obj (refcount obj) s = s"
  by (simp add: with_refs_def upd_obj_def fun_upd_idem)

lemma synced_with_refs: "a \<noteq> y \<Longrightarrow> synced a y (with_refs a obj n s) = synced a y s"
  by (simp add: synced_def with_refs_def upd_obj_def)

lemma grab_with_refs:
  assumes "objs (srv s) a = Some obj" "refcount obj < INT_MAX"
  shows "grab a s = Some (with_refs a obj (Suc (refcount obj)) s)"
  using assms by (simp add: grab_def grab_object_def assert_that_def with_refs_def)

lemma release_with_refs:
  assumes "objs (srv s) a = Some obj" "1 < refcount obj" "dead (srv s) = []"
  shows "release a s = Some (with_refs a obj (refcount obj - 1) s)"
  using release_held [OF assms] by (simp add: with_refs_def)

lemma wait_objects_single:
  assumes "waitable_handle h a s" "objs (srv s) a = Some obj" "refcount obj < INT_MAX"
  shows "wait_objects [h] s = Some ([a], True, with_refs a obj (Suc (refcount obj)) s)"
proof -
  from assms(1) obtain tb i e where
    "get_magic_handle h (srv s) = None"
    "get_handle (thread_process (threads s (current s))) h (srv s) = Some (Some (tb, i, e))"
    "ptr e = Some a" "access e AND SYNCHRONIZE = SYNCHRONIZE"
    by (auto simp: waitable_handle_def split: option.splits prod.splits)
  then show ?thesis
    using assms(2,3)
    by (simp add: get_handle_obj_def grab_object_def assert_that_def with_refs_def)
qed

lemma object_sync_add_queue_eq:
  assumes "synced a y s" "bodies s y = Some b" "is_sync b"
  shows "object_sync_add_queue a e s = Some (True, upd_queue y (wait_queue s y @ [e]) s)"
  using assms
  by (elim syncedE) (simp add: object_sync_add_queue_def add_queue_def upd_queue_def)

section \<open>Starting the wait\<close>

definition new_wait :: "nat \<Rightarrow> select_opcode \<Rightarrow> addr list \<Rightarrow> u64 \<Rightarrow> thread_wait" where
  "new_wait i opc as cookie = \<lparr>wait_id = i, wait_flags = 0, wait_abandoned = False, wait_select = opc,
     wait_cookie = cookie, wait_when = TIMEOUT_INFINITE, wait_user = False, wait_objs = as\<rparr>"

text \<open>The state in which the current thread has queued up; \<open>mem\<close> is what is left of the allocations.\<close>

definition queued :: "addr \<Rightarrow> addr \<Rightarrow> select_opcode \<Rightarrow> u64 \<Rightarrow> bool list \<Rightarrow> sync_server \<Rightarrow> sync_server" where
  "queued a y opc cookie mem s = s\<lparr>srv := (srv s)\<lparr>memory := mem\<rparr>,
     wait_queue := (wait_queue s)(y := wait_queue s y @ [(current s, next_wait s, 0)]),
     threads := (threads s)(current s := (threads s (current s))\<lparr>waits := [new_wait (next_wait s) opc [a] cookie]\<rparr>),
     next_wait := next_wait s + 1\<rparr>"

lemma queued_with_refs: "queued a y opc cookie mem (with_refs a obj n s) = with_refs a obj n (queued a y opc cookie mem s)"
  by (simp add: queued_def with_refs_def upd_obj_def)

lemma synced_queued: "synced a y (queued a y opc cookie mem s) = synced a y s"
  by (simp add: synced_def queued_def)

lemma wait_on_single:
  assumes mem: "memory (srv s) = True # mem" and sync: "synced a y s" "a \<noteq> y" "bodies s y = Some b" "is_sync b"
    and ref: "objs (srv s) a = Some obj" "refcount obj < INT_MAX" and idle: "waits (threads s (current s)) = []"
  shows "wait_on opc [a] 0 TIMEOUT_INFINITE s =
    Some (True, with_refs a obj (Suc (refcount obj)) (queued a y opc 0 mem s))"
proof -
  let ?s1 = "s\<lparr>srv := (srv s)\<lparr>memory := mem\<rparr>\<rparr>"
  let ?s2 = "push_wait opc 0 TIMEOUT_INFINITE ?s1"
  let ?e = "(current s, next_wait s, 0)"
  have alloc: "sync_alloc s = (True, ?s1)"
    using mem by (simp add: sync_alloc_def Wine_Objects.mem_alloc_def malloc_def)
  have s2: "synced a y ?s2" "bodies ?s2 y = Some b" "wait_queue ?s2 = wait_queue s"
    using sync by (simp_all add: push_wait_def upd_thread_def synced_def)
  have add: "object_sync_add_queue a ?e ?s2 = Some (True, upd_queue y (wait_queue s y @ [?e]) ?s2)"
    using object_sync_add_queue_eq [OF s2(1,2) sync(4)] s2(3) by simp
  have "grab a (upd_queue y (wait_queue s y @ [?e]) ?s2) =
      Some (with_refs a obj (Suc (refcount obj)) (upd_queue y (wait_queue s y @ [?e]) ?s2))"
    using ref by (intro grab_with_refs) (simp_all add: push_wait_def upd_queue_def upd_thread_def)
  then show ?thesis
    using add alloc idle
    by (simp add: wait_on_def) (simp add: queued_def new_wait_def push_wait_def upd_queue_def upd_thread_def with_refs_def upd_obj_def)
qed

lemma wait_on_handle:
  assumes h: "waitable_handle h a s" and mem: "memory (srv s) = True # mem"
    and sync: "synced a y s" "a \<noteq> y" "bodies s y = Some b" "is_sync b"
    and ref: "objs (srv s) a = Some obj" "0 < refcount obj" "Suc (refcount obj) < INT_MAX" "dead (srv s) = []"
    and idle: "waits (threads s (current s)) = []"
  shows "wait_on_handles opc [h] 0 TIMEOUT_INFINITE s =
    Some (True, with_refs a obj (Suc (refcount obj)) (queued a y opc 0 mem s))"
proof -
  let ?s1 = "with_refs a obj (Suc (refcount obj)) s"
  have objs: "wait_objects [h] s = Some ([a], True, ?s1)"
    using wait_objects_single [OF h ref(1)] ref(3) by simp
  have "memory (srv ?s1) = True # mem" using mem by (simp add: with_refs_def upd_obj_def)
  then have on: "wait_on opc [a] 0 TIMEOUT_INFINITE ?s1 =
      Some (True, with_refs a obj (Suc (Suc (refcount obj))) (queued a y opc 0 mem s))"
    using wait_on_single [of ?s1 mem a y b "obj\<lparr>refcount := Suc (refcount obj)\<rparr>" opc] sync ref idle
    by (simp add: synced_with_refs queued_with_refs)
  have "release a (with_refs a obj (Suc (Suc (refcount obj))) (queued a y opc 0 mem s)) =
      Some (with_refs a obj (Suc (refcount obj)) (queued a y opc 0 mem s))"
    using release_with_refs [of "with_refs a obj (Suc (Suc (refcount obj))) (queued a y opc 0 mem s)" a
        "obj\<lparr>refcount := Suc (Suc (refcount obj))\<rparr>"] ref
    by (simp add: queued_def)
  then show ?thesis
    using objs on
    by (simp add: wait_on_handles_def assert_that_def MAXIMUM_WAIT_OBJECTS_def del: wait_objects.simps)
qed

lemma select_block_infinite:
  assumes "waits (threads s (current s)) = [w]" "wait_when w = TIMEOUT_INFINITE"
  shows "select_block cookie s = Some (False, sync_error STATUS_PENDING
    (upd_thread (current s) (\<lambda>th. th\<lparr>waits := [w\<lparr>wait_cookie := cookie\<rparr>]\<rparr>) s))"
  using assms by (simp add: select_block_def upd_wait_def upd_thread_def)

section \<open>Selecting one object\<close>

definition select_one :: "handle \<Rightarrow> select_op" where
  "select_one h = \<lparr>op = SELECT_WAIT, op_handles = [h]\<rparr>"

lemma select_start_one:
  "select_start (select_one h) 8 flags time s = wait_on_handles SELECT_WAIT [h] flags time s"
  by (simp add: select_start_def select_one_def MAXIMUM_WAIT_OBJECTS_def)

lemma undisturbed_queued:
  "undisturbed t (with_refs a obj n (queued a y opc cookie mem s)) = undisturbed t s"
  by (auto simp: undisturbed_def queued_def with_refs_def)

lemma signaled_queued:
  "sync_signaled y t (with_refs a obj n (queued a y opc cookie mem s)) = sync_signaled y t s"
  by (simp add: queued_def)

lemma select_blocks:
  assumes h: "waitable_handle h a s" and mem: "memory (srv s) = True # mem"
    and sync: "synced a y s" "a \<noteq> y" "bodies s y = Some b" "is_sync b"
    and ref: "objs (srv s) a = Some obj" "0 < refcount obj" "Suc (refcount obj) < INT_MAX" "dead (srv s) = []"
    and idle: "waits (threads s (current s)) = []" "undisturbed (current s) s" "current_time s < TIMEOUT_INFINITE"
    and sig: "sync_signaled y (current s) s = Some False"
  shows "select_on (select_one h) 8 cookie 0 TIMEOUT_INFINITE s =
    Some (False, sync_error STATUS_PENDING (with_refs a obj (Suc (refcount obj)) (queued a y SELECT_WAIT cookie mem s)))"
proof -
  let ?s = "with_refs a obj (Suc (refcount obj)) (queued a y SELECT_WAIT 0 mem s)"
  let ?w = "new_wait (next_wait s) SELECT_WAIT [a] 0"
  have ws: "waits (threads ?s (current ?s)) = [?w]" by (simp add: queued_def)
  have cur: "current ?s = current s" by (simp add: queued_def)
  have "synced a y ?s" using sync by (simp add: synced_with_refs synced_queued)
  note probe = object_sync_signaled_eq [OF this]
  have "wait_expired ?w (current s) ?s = None"
    using idle(3) by (simp add: wait_expired_def new_wait_def has_bits_def queued_def with_refs_def TIMEOUT_INFINITE_def)
  then have "check_objects ?w (current s) ?s = Some (None, ?s)"
    using sig by (simp add: check_objects_def new_wait_def probe signaled_queued del: sync_signaled.simps)
  moreover have "undisturbed (current s) ?s" using idle(2) by (simp add: undisturbed_queued)
  ultimately have chk: "check_wait (current ?s) ?s = Some (None, ?s)"
    using undisturbed_check [of "current s" ?s ?w "[]"] ws cur by simp
  have "select_block cookie ?s = Some (False, sync_error STATUS_PENDING
      (with_refs a obj (Suc (refcount obj)) (queued a y SELECT_WAIT cookie mem s)))"
    using select_block_infinite [OF ws]
    by (simp add: new_wait_def) (cases s; simp add: queued_def with_refs_def upd_thread_def new_wait_def)
  then show ?thesis
    using wait_on_handle [OF h mem sync ref idle(1)] chk by (simp add: select_on_def select_start_one)
qed

lemma end_queued:
  fixes mem :: "bool list"
  assumes sync: "synced a y s" "a \<noteq> y" and ref: "objs (srv s) a = Some obj" "0 < refcount obj" "dead (srv s) = []"
    and idle: "waits (threads s (current s)) = []" and new: "(current s, next_wait s, 0) \<notin> set (wait_queue s y)"
  defines "s0 \<equiv> s\<lparr>srv := (srv s)\<lparr>memory := mem\<rparr>, next_wait := next_wait s + 1\<rparr>"
  shows "leave_queues [a] 0 (next_wait s) (current s) (upd_body y b' (upd_thread (current s) (\<lambda>th. th\<lparr>waits := []\<rparr>)
      (with_refs a obj (Suc (refcount obj)) (queued a y SELECT_WAIT 0 mem s)))) = Some (upd_body y b' s0)"
proof -
  let ?e = "(current s, next_wait s, 0)"
  let ?s1 = "upd_body y b' (upd_thread (current s) (\<lambda>th. th\<lparr>waits := []\<rparr>)
      (with_refs a obj (Suc (refcount obj)) (queued a y SELECT_WAIT 0 mem s)))"
  have s1: "?s1 = with_refs a obj (Suc (refcount obj)) (upd_queue y (wait_queue s y @ [?e]) (upd_body y b' s0))"
    using idle by (cases s) (simp add: s0_def queued_def with_refs_def upd_defs fun_upd_idem)
  have "synced a y ?s1"
    using sync by (simp add: synced_upd_body synced_with_refs synced_queued)
  note rq = object_sync_remove_queue_eq [OF this, of ?e]
  have "remove_queue y ?e ?s1 = with_refs a obj (Suc (refcount obj)) (upd_body y b' s0)"
    unfolding s1 using new
    by (cases s) (simp add: s0_def with_refs_def upd_defs remove1_append fun_upd_idem)
  moreover have "release a (with_refs a obj (Suc (refcount obj)) (upd_body y b' s0)) = Some (upd_body y b' s0)"
    using release_with_refs [of "with_refs a obj (Suc (refcount obj)) (upd_body y b' s0)" a
        "obj\<lparr>refcount := Suc (refcount obj)\<rparr>"] ref
    by (simp add: s0_def with_refs_same)
  ultimately show ?thesis using rq by simp
qed

context sync_kind
begin

text \<open>A signaled object is taken at once: nothing changes but the object and the allocations.\<close>

lemma select_takes:
  assumes h: "waitable_handle h a s" and mem: "memory (srv s) = True # mem"
    and sync: "synced a y s" "a \<noteq> y" "bodies s y = Some (wrap st)" "is_sync (wrap st)" "ready st"
    and ref: "objs (srv s) a = Some obj" "0 < refcount obj" "Suc (refcount obj) < INT_MAX" "dead (srv s) = []"
    and idle: "waits (threads s (current s)) = []" "undisturbed (current s) s"
    and new: "(current s, next_wait s, 0) \<notin> set (wait_queue s y)"
  shows "select_on (select_one h) 8 cookie 0 TIMEOUT_INFINITE s = Some (True, sync_error STATUS_WAIT_0
    (upd_body y (Some (wrap (taken st))) (s\<lparr>srv := (srv s)\<lparr>memory := mem\<rparr>, next_wait := next_wait s + 1\<rparr>)))"
proof -
  let ?s = "with_refs a obj (Suc (refcount obj)) (queued a y SELECT_WAIT 0 mem s)"
  let ?w = "new_wait (next_wait s) SELECT_WAIT [a] 0"
  let ?s1 = "upd_thread (current s) (\<lambda>th. th\<lparr>waits := []\<rparr>) ?s"
  have ws: "waits (threads ?s (current s)) = [?w]" and cur: "current ?s = current s" and st: "bodies ?s y = Some (wrap st)"
    using sync by (simp_all add: queued_def)
  have sy: "synced a y ?s" using sync by (simp add: synced_with_refs synced_queued)
  have "check_objects ?w (current s) ?s = Some (Some STATUS_WAIT_0, ?s)"
    using sync(5) by (simp add: check_objects_def new_wait_def object_sync_signaled_eq [OF sy] signaled [OF st]
        STATUS_WAIT_0_def del: sync_signaled.simps)
  moreover have "undisturbed (current s) ?s" using idle(2) by (simp add: undisturbed_queued)
  ultimately have chk: "check_wait (current ?s) ?s = Some (Some STATUS_WAIT_0, ?s)"
    using undisturbed_check [of "current s" ?s ?w "[]"] ws cur by simp
  have "satisfy_wait ?w (current s) 0 ?s1 = Some (0, upd_body y (Some (wrap (taken st))) ?s1)"
    using satisfied_through [of a y ?s1 st "current s"] sy st sync(5) by (simp add: satisfy_wait_def new_wait_def)
  moreover have "wait_objs ?w = [a]" "wait_id ?w = next_wait s" by (simp_all add: new_wait_def)
  ultimately have "end_wait (current s) 0 ?s = Some (0, upd_body y (Some (wrap (taken st)))
      (s\<lparr>srv := (srv s)\<lparr>memory := mem\<rparr>, next_wait := next_wait s + 1\<rparr>))"
    using end_queued [OF sync(1,2) ref(1,2,4) idle(1) new, of "Some (wrap (taken st))" mem] ws
    by (simp add: end_wait_def Let_def del: leave_queues.simps)
  then show ?thesis
    using wait_on_handle [OF h mem sync(1-4) ref idle(1)] chk cur
    by (simp add: select_on_def select_start_one STATUS_WAIT_0_def)
qed

end


section \<open>New objects\<close>

text \<open>
  A new object without a name gets the next address, its sync object the one after, and nobody
  waits for it: the line of its waiters starts empty.
\<close>

lemmas create_defs = create_synced_def create_named_object_def create_named_def new_object_def alloc_object_def
  Wine_Objects.mem_alloc_def malloc_def sync_error_def set_error_def upd_body_def upd_obj_def
  STATUS_OBJECT_NAME_EXISTS_def wait_line_def synced_def INT_MAX_def

lemma create_semaphore_line:
  assumes "memory (srv s) = True # True # mem" "\<not> has_bits attributes OBJ_PERMANENT"
    "limit \<noteq> 0" "initial \<le> limit" "wait_queue s (Suc (next_obj (srv s))) = []" "dead (srv s) = []"
  shows "\<exists>s'. create_semaphore attributes Unnamed initial limit s = Some (Some (next_obj (srv s)), s') \<and>
    error (srv s') = 0 \<and>
    wait_line (next_obj (srv s)) (Suc (next_obj (srv s))) (Semaphore_sync \<lparr>sem_count = initial, sem_max = limit\<rparr>) [] s'"
  using assms by (simp add: create_semaphore_def create_semaphore_sync_def create_defs not_less [symmetric])

lemma create_event_line:
  assumes "memory (srv s) = True # True # mem" "\<not> has_bits attributes OBJ_PERMANENT"
    "wait_queue s (Suc (next_obj (srv s))) = []" "dead (srv s) = []"
  shows "\<exists>s'. create_event attributes Unnamed manual initial s = Some (Some (next_obj (srv s)), s') \<and>
    error (srv s') = 0 \<and>
    wait_line (next_obj (srv s)) (Suc (next_obj (srv s))) (Event_sync \<lparr>ev_manual = manual, ev_signaled = initial\<rparr>) [] s'"
  using assms by (simp add: create_event_def create_event_sync_def create_defs)

text \<open>A mutex that is created owned belongs to the current thread, whose ownership is a reference.\<close>

lemma create_mutex_line:
  assumes "memory (srv s) = True # True # mem" "\<not> has_bits attributes OBJ_PERMANENT"
    "wait_queue s (Suc (next_obj (srv s))) = []" "dead (srv s) = []"
  shows "\<exists>s'. create_mutex attributes Unnamed owned s = Some (Some (next_obj (srv s)), s') \<and> error (srv s') = 0 \<and>
    wait_line (next_obj (srv s)) (Suc (next_obj (srv s)))
      (Mutex_sync (if owned then taken_mutex (current s)
                   else \<lparr>mutex_owner = None, mutex_count = 0, mutex_abandoned = False\<rparr>)) [] s' \<and>
    (owned \<longrightarrow> mutex_list (threads s' (current s)) = Suc (next_obj (srv s)) # mutex_list (threads s (current s)))"
  using assms
  by (cases owned) (simp_all add: create_mutex_def create_mutex_sync_def do_grab_def grab_def grab_object_def
      assert_that_def upd_thread_def taken_mutex_def create_defs)

section \<open>Suspended threads\<close>

text \<open>
  A suspended thread is not woken by what it waits for, and a suspension by one and the resumption
  that follows bring the count back.
\<close>

lemma suspended_asleep:
  assumes "is_thread_suspended t s" "waits (threads s t) = w # ws" "wait_flags w = 0"
  shows "wake_thread t s = Some (0, s)"
  using assms by (simp add: wake_thread_def wake_loop.simps [of t 0] check_wait_def has_bits_def)

lemma suspend_again:
  assumes "is_thread_suspended t s" "suspend_count (threads s t) < MAXIMUM_SUSPEND_COUNT"
    "0 < suspend_count (threads s t)" "context_of t s = None"
  shows "Option.bind (suspend_thread t s) (\<lambda>(_, s). resume_thread t s) = Some (Suc (suspend_count (threads s t)), s)"
  using assms
  by (simp add: suspend_thread_def resume_thread_def upd_thread_def is_thread_suspended_def context_of_def Let_def)

section \<open>A concrete select\<close>

text \<open>The semaphore with two waiters, and process 0 with handle 4 for it.\<close>

definition sample_table :: handle_table where
  "sample_table = \<lparr>table_process = Some 0, nr_entries = 32, last_entry = 0, free_from = 1,
     entries = Some \<lparr>ptr = Some 1, access = SYNCHRONIZE\<rparr> # replicate 31 None\<rparr>"

definition sample_select :: sync_server where
  "sample_select =
     (let s = sample_wait_server (sample_wait 1 SELECT_WAIT [1] TIMEOUT_INFINITE) [(1, 1, 0), (2, 2, 0)]
      in s\<lparr>srv := (srv s)\<lparr>memory := [True],
           procs := [\<lparr>process_obj = 10, process_token = 11, handles = Some sample_table\<rparr>]\<rparr>\<rparr>)"

lemma sample_select_line:
  "wait_line 1 2 (Semaphore_sync \<lparr>sem_count = 0, sem_max = 5\<rparr>) [(1, 1, 0), (2, 2, 0)] sample_select"
  by (simp add: wait_line_def sample_select_def sample_defs)

lemma sample_select_handle: "waitable_handle 4 1 sample_select"
  by (simp add: waitable_handle_def get_magic_handle_def get_handle_def handle_is_global_def handle_to_index_def
      HANDLE_OBFUSCATOR_def MAX_HANDLE_ENTRIES_def entry_at_def sample_select_def sample_table_def sample_defs)


end
