(* ===== verification/Spec2Isabelle.thy ===== *)
theory Spec2Isabelle
  imports Key_Chord Jit_Ack Jit_State Graphics_Policy Presentation_Policy Ios_Input Ios_Driver
    Utf_Text Profile_Policy Pe_Inspect Ios_Control Wine_Atoms Wine_Handle_Safety Wine_Select
begin

text \<open>
  Verification of the Juice runtime: the parts of Juice that decide what is accepted, sent, drawn and
  started, and the object core of the Wine server it runs on.  Paths are relative to \<^verbatim>\<open>src\<close>.

  \<^bold>\<open>The program.\<close>  Juice runs Windows programs on iOS.  A Wine server owns the kernel objects of the
  programs (\<^verbatim>\<open>wine/server\<close>).  The user driver \<^verbatim>\<open>wine/dlls/wineios.drv\<close> draws windows into surfaces,
  sends them as packets over a local socket to the app and reads input packets back.  The app
  (\<^verbatim>\<open>app\<close>) keeps one framebuffer per window, paces presentation, inspects executables before it
  starts them, and obtains permission for just-in-time code before it lets a child run.

  \<^bold>\<open>App side.\<close>
  \<^item> \<open>Key_Chord\<close>: \<^verbatim>\<open>app/JuiceKeyChord.c\<close>.  The chord builder against a reference sequence; an accepted
    chord leaves no key held.
  \<^item> \<open>Jit_Ack\<close>, \<open>Jit_State\<close>: \<^verbatim>\<open>app/JuiceJITAck.h\<close>, \<^verbatim>\<open>app/JuiceJITState.h\<close>.  The marker is found
    independently of how the output is cut into chunks (locale \<open>chunk_feeder\<close>); the launch state
    machine is ready only after all three observations, reaches ready, and signals only an owned
    child.
  \<^item> \<open>Presentation_Policy\<close>, \<open>Profile_Policy\<close>, \<open>Utf_Text\<close>: frame rates and pixel layouts, the grammar of
    profile overrides, UTF-8 and UTF-16 helpers, each against a reference definition.
  \<^item> \<open>Pe_Inspect\<close>: \<^verbatim>\<open>app/JuicePEInspect.c\<close>.  What an accepted executable guarantees; reading through a
    descriptor agrees with reading the bytes (locale \<open>positioned_reader\<close>).
  \<^item> \<open>Byte_Stream\<close>: the transfer loops of \<^verbatim>\<open>app/JuiceIO.c\<close>, \<^verbatim>\<open>app/JuiceSocketIO.h\<close> and the driver's
    \<^verbatim>\<open>ipc.c\<close>, all instances of two contracts (locales \<open>exact_writer\<close>, \<open>exact_reader\<close>).
  \<^item> \<open>Display_Receiver\<close>: the receiver of \<^verbatim>\<open>app/JuiceDisplayTransportHardening.m\<close>, bounded for any input.

  \<^bold>\<open>Driver side\<close> (\<^verbatim>\<open>wine/dlls/wineios.drv\<close>).
  \<^item> \<open>Display_Wire\<close>, \<open>Ios_Ipc\<close>, \<open>Ios_Input\<close>: the wire format and \<^verbatim>\<open>ipc.c\<close>.  The stream on a connection
    is always a sequence of complete packets that starts with the greeting and refers only to
    framebuffers sent before; the input reader dispatches exactly the packets it read.
  \<^item> \<open>Graphics_Policy\<close>, \<open>Ios_Driver\<close>: \<^verbatim>\<open>graphics_policy.h\<close> and \<^verbatim>\<open>iosdrv.c\<close>.  Layouts without wrap-around,
    in-place conversion of every pixel (locale \<open>block_update\<close>), and an invariant of all driver
    callbacks.
  \<^item> \<open>Ios_Control\<close>: \<^verbatim>\<open>control.c\<close>.  No descriptor leaks, responses are delivered.
  \<^item> \<open>Display_Mirror\<close> composes driver and receiver: after any history of presents the receiver holds
    the last content of the window, byte for byte.

  \<^bold>\<open>Wine server\<close> (\<^verbatim>\<open>wine/server\<close>).
  \<^item> \<open>Wine_Base\<close>, \<open>Wine_Atoms\<close>: status codes; \<^verbatim>\<open>atom.c\<close> refines a map from case-folded names to atoms.
  \<^item> \<open>Wine_Objects\<close>, \<open>Wine_Handles\<close>: object headers, references and access checks; the handle tables
    and requests of \<^verbatim>\<open>handle.c\<close>.  \<open>Wine_Handle_Invariant\<close> has the invariant on tables and counts and
    one rule per primitive; \<open>Wine_Handle_Safety\<close> composes them: sequences of guarded requests never
    leave a table or fail an assertion.  Closing a global handle is outside the guard, and a theorem
    shows why.
  \<^item> \<open>Wine_Wait\<close>, \<open>Wine_Sync\<close>: the wait queues of \<^verbatim>\<open>thread.c\<close> and all of \<^verbatim>\<open>semaphore.c\<close>, \<^verbatim>\<open>mutex.c\<close> and
    the events of \<^verbatim>\<open>event.c\<close>.  \<open>Wine_Wake\<close> shows the order of waking through the contract of a sync
    object (locale \<open>sync_kind\<close>), the hand-over of a mutex, and two ways in which waits for all of
    several objects go wrong.  \<open>Wine_Select\<close> shows that the select request builds the queues that
    these theorems start from.

  \<^bold>\<open>State and effects.\<close>  Every component has its state as a record and its operations as functions on
  it.  Machine integers are words of their width; a C \<^verbatim>\<open>int\<close> that is compared as signed is read with
  \<^const>\<open>sint\<close>.  A possible NULL is an option.  In the Wine components a result \<^const>\<open>None\<close> is a
  failed assertion or an access outside memory the code owns.

  \<^bold>\<open>Scripts and bounds.\<close>  What the kernel and the allocator answer is a list in the state, one entry
  per call; theorems hold for every list.  An exhausted list means failure, or success where the
  theory says so, so every loop over system calls ends; theorems that a loop completes assume only
  that enough answers are successes.  Loops with no such list are total functions with a measure.
  The two loops of waking are partial functions, and the theorems on semaphores, events and mutexes
  prove that they return.  The budget of the handle invariant is the room below \<^verbatim>\<open>INT_MAX\<close>
  that the requests to come may use.

  \<^bold>\<open>Not modelled.\<close>
  \<^item> The rest of Wine, its dynamic libraries and tools: about five million lines of vendored code
    whose behaviour the parts above do not depend on.
  \<^item> In the Wine server: object names and namespaces, security descriptors and the tokens behind
    them (parameters of the requests that use them), keyed events, asynchronous procedure calls
    beyond their presence, file descriptors and the main loop, creation and teardown of processes
    and threads.
  \<^item> The user interface of the app in Objective-C, except the display receiver: it is built on the
    iOS frameworks, which are not part of the repository.
  \<^item> Launching, code signing and sandbox setup: sequences of system calls with no state of their own.
  \<^item> Concurrency inside a process.  Each function is one step under the lock that the code takes, and
    the theorems quantify over all sequences of such steps; the input reader, which works outside
    the lock between steps, is modelled step by step.
\<close>


end
